(* ===== verification/Prelude.thy ===== *)
theory Prelude
  imports Main "HOL-Library.Word" "HOL-Library.Monad_Syntax"
begin

text \<open>
  Shared vocabulary of the development: the machine integer types of the C and C++ sources,
  the lemma collections the component theories extend, and generic facts on lists and on
  64-bit words that several components need.

  A \<open>ULONGLONG\<close> or \<open>uint64_t\<close> is a \<^typ>\<open>64 word\<close>, so that every addition of the model
  wraps exactly where the code's does. The lemmas below turn such an addition into an addition
  on \<^typ>\<open>nat\<close> under a no-wrap hypothesis, which is how the properties are stated.
\<close>

type_synonym u8 = "8 word"
type_synonym u16 = "16 word"
type_synonym u32 = "32 word"
type_synonym u64 = "64 word"

text \<open>
  A wide string is the list of its 16-bit units before the terminating zero; \<open>wstr\<close> writes one as a
  literal. A string argument that may be \<open>NULL\<close> is an option.
\<close>

type_synonym wstring = "u16 list"

definition wstr :: "string \<Rightarrow> wstring" where
  "wstr s = map of_char s"

text \<open>A path literal, given by its parts between backslashes.\<close>

fun wpath :: "string list \<Rightarrow> wstring" where
  "wpath [] = []"
| "wpath [s] = wstr s"
| "wpath (s # t # ss) = wstr s @ 92 # wpath (t # ss)"

named_theorems nowrap \<open>word arithmetic read as arithmetic on natural numbers\<close>
named_theorems model_defs \<open>definitions unfolded when a concrete input is evaluated\<close>

subsection \<open>Words without wrap-around\<close>

lemma unat_lt64 [simp]: "unat (x :: u64) < 18446744073709551616"
  using unsigned_less [of x] by simp

lemma unat_add_nowrap [nowrap]:
  "unat (a :: u64) + unat b < 2 ^ 64 \<Longrightarrow> unat (a + b) = unat a + unat b"
  by (simp add: unat_word_ariths)

lemma unat_sub_nowrap [nowrap]:
  "(b :: u64) \<le> a \<Longrightarrow> unat (a - b) = unat a - unat b"
  by (rule unat_sub)

lemmas u64_order [nowrap] = word_le_nat_alt word_less_nat_alt

lemma u64_eq_iff: "(a :: u64) = b \<longleftrightarrow> unat a = unat b"
  by (simp add: word_unat_eq_iff)

lemma u64_pos_iff: "(a :: u64) \<noteq> 0 \<longleftrightarrow> 0 < unat a"
  by (simp add: unat_gt_0)

subsection \<open>Signed reading of 32-bit words\<close>

lemma sint_u32: "sint (x :: u32) = (if unat x < 2 ^ 31 then int (unat x) else int (unat x) - 2 ^ 32)"
proof -
  define m where "m = unat x"
  have "uint x = int m" by (simp add: m_def)
  then have "sint x = (int m + 2 ^ 31) mod 2 ^ 32 - 2 ^ 31"
    by (simp add: sint_uint signed_take_bit_eq_take_bit_shift take_bit_eq_mod)
  moreover have m: "m < 2 ^ 32" unfolding m_def using unsigned_less [of x] by simp
  moreover have "\<not> m < 2 ^ 31 \<Longrightarrow> (int m + 2 ^ 31) mod 2 ^ 32 = int m - 2 ^ 31"
    using mod_add_self2 [of "int m - 2 ^ 31" "2 ^ 32"] m by (simp add: add.commute)
  ultimately show ?thesis unfolding m_def [symmetric] by auto
qed

lemma sint_u32_pos: "0 < sint (x :: u32) \<longleftrightarrow> 0 < unat x \<and> unat x < 2 ^ 31"
proof -
  define m where "m = unat x"
  have "m < 2 ^ 32" unfolding m_def using unsigned_less [of x] by simp
  then show ?thesis unfolding sint_u32 m_def [symmetric] by auto
qed

subsection \<open>Runs of clusters\<close>

text \<open>The clusters of a region or of a file block that starts at \<open>l\<close> and is \<open>n\<close> long.\<close>

definition extent :: "u64 \<Rightarrow> u64 \<Rightarrow> nat set" where
  "extent l n = {unat l ..< unat l + unat n}"

lemma extent_0 [simp]: "extent l 0 = {}"
  by (simp add: extent_def)

lemma finite_extent [simp]: "finite (extent l n)"
  by (simp add: extent_def)

lemma card_extent [simp]: "card (extent l n) = unat n"
  by (simp add: extent_def)

lemma in_extent: "c \<in> extent l n \<longleftrightarrow> unat l \<le> c \<and> c < unat l + unat n"
  by (simp add: extent_def)

lemma extent_split:
  assumes "m \<le> n" "unat l + unat n < 2 ^ 64"
  shows "extent l n = extent l m \<union> extent (l + m) (n - m)"
proof -
  have "unat (l + m) = unat l + unat m" "unat (n - m) = unat n - unat m" "unat m \<le> unat n"
    using assms by (auto simp: nowrap)
  then show ?thesis by (auto simp: extent_def)
qed

lemma extent_join:
  assumes "unat l + unat m + unat n < 2 ^ 64"
  shows "extent l (m + n) = extent l m \<union> extent (l + m) n"
proof -
  have "unat (l + m) = unat l + unat m" "unat (m + n) = unat m + unat n"
    using assms by (auto simp: nowrap)
  then show ?thesis by (auto simp: extent_def)
qed

subsection \<open>Lists\<close>

lemma successively_transfer:
  assumes "successively R zs"
    and "\<And>a b. a \<in> set (butlast zs) \<Longrightarrow> b \<in> set (tl zs) \<Longrightarrow> R a b \<Longrightarrow> Q a b"
  shows "successively Q zs"
  using assms
proof (induction zs rule: induct_list012)
  case (3 x y zs)
  from "3.prems" have "successively R (y # zs)" and "R x y" by auto
  then have "successively Q (y # zs)" using "3.prems"(2) by (intro "3.IH"(2)) (auto split: if_splits)
  moreover have "Q x y" using \<open>R x y\<close> by (intro "3.prems"(2)) auto
  ultimately show ?case by simp
qed simp_all

lemma hd_append_last: "hd (xs @ [x]) = (case xs of [] \<Rightarrow> x | y # _ \<Rightarrow> y)"
  by (cases xs) auto

lemma map_of_mid:
  "a \<notin> fst ` set xs \<Longrightarrow> map_of (xs @ (a, x) # ys) = (map_of (xs @ ys))(a \<mapsto> x)"
  by (induction xs) (auto simp: fun_eq_iff)

lemma map_of_assign:
  "map_of (map (\<lambda>e. if fst e = p then (p, r) else e) es) q =
     (if q = p then if map_of es p = None then None else Some r else map_of es q)"
  by (induction es) auto

lemma option_drop_eq:
  assumes "\<And>x. p = Some x \<longleftrightarrow> q = Some x \<and> x \<noteq> a"
  shows "p = (if q = Some a then None else q)"
proof (cases p)
  case None
  then have "q = Some x \<Longrightarrow> x = a" for x using assms [of x] by auto
  then show ?thesis using None by (cases q) auto
next
  case (Some x)
  then show ?thesis using assms [of x] by auto
qed

end
