(* ===== verification/Cluster_Set.thy ===== *)
theory Cluster_Set
  imports Prelude
begin

text \<open>
  The abstract view of free space: a sorted list of runs \<open>(first cluster, length)\<close> that are
  non-empty, do not wrap around and do not touch each other, so that every set of clusters has
  at most one such list. The region lists of \<open>volume.c\<close> and the index of \<open>GapEnumeration\<close> are
  both refinements of it; the locale \<open>free_space\<close> is the contract they share.
\<close>

type_synonym run = "u64 \<times> u64"

definition run_ok :: "run \<Rightarrow> bool" where
  "run_ok r \<longleftrightarrow> snd r \<noteq> 0 \<and> unat (fst r) + unat (snd r) < 2 ^ 64"

definition run_before :: "run \<Rightarrow> run \<Rightarrow> bool" where
  "run_before r s \<longleftrightarrow> unat (fst r) + unat (snd r) < unat (fst s)"

definition wf_runs :: "run list \<Rightarrow> bool" where
  "wf_runs rs \<longleftrightarrow> list_all run_ok rs \<and> sorted_wrt run_before rs"

definition run_clusters :: "run list \<Rightarrow> nat set" where
  "run_clusters rs = (\<Union>r \<in> set rs. extent (fst r) (snd r))"

lemma wf_runs_Nil [simp]: "wf_runs []"
  by (simp add: wf_runs_def)

lemma wf_runs_Cons:
  "wf_runs (r # rs) \<longleftrightarrow> run_ok r \<and> (\<forall>s \<in> set rs. run_before r s) \<and> wf_runs rs"
  by (auto simp: wf_runs_def)

lemma wf_runs_append:
  "wf_runs (xs @ ys) \<longleftrightarrow> wf_runs xs \<and> wf_runs ys \<and> (\<forall>x \<in> set xs. \<forall>y \<in> set ys. run_before x y)"
  by (auto simp: wf_runs_def sorted_wrt_append)

lemma run_clusters_simps [simp]:
  "run_clusters [] = {}"
  "run_clusters (r # rs) = extent (fst r) (snd r) \<union> run_clusters rs"
  "run_clusters (xs @ ys) = run_clusters xs \<union> run_clusters ys"
  by (auto simp: run_clusters_def)

lemma finite_run_clusters [simp]: "finite (run_clusters rs)"
  by (auto simp: run_clusters_def)

lemma run_okD: "run_ok (l, n) \<Longrightarrow> unat (l + n) = unat l + unat n" "run_ok (l, n) \<Longrightarrow> 0 < unat n"
  by (auto simp: run_ok_def nowrap u64_pos_iff)

lemma wf_runs_mem: "wf_runs rs \<Longrightarrow> r \<in> set rs \<Longrightarrow> run_ok r"
  by (auto simp: wf_runs_def list_all_iff)

lemma run_before_trans: "run_before a b \<Longrightarrow> run_before b c \<Longrightarrow> run_before a c"
  by (simp add: run_before_def)

lemma wf_runs_sorted: "wf_runs rs \<Longrightarrow> sorted_wrt (<) (map fst rs)"
  by (auto simp: wf_runs_def sorted_wrt_map run_before_def nowrap elim!: sorted_wrt_mono_rel [rotated])

lemma run_ok_join:
  assumes "run_ok (l, n)" "unat l + unat n + unat m < 2 ^ 64"
  shows "run_ok (l, n + m)"
proof -
  have "unat (n + m) = unat n + unat m" using assms by (intro unat_add_nowrap) simp
  then show ?thesis using assms by (auto simp: run_ok_def u64_pos_iff)
qed

subsection \<open>Adding a run\<close>

lemma runs_insert:
  assumes "wf_runs (as @ bs)" "run_ok (l, n)"
    and "\<And>a. a \<in> set as \<Longrightarrow> run_before a (l, n)" "\<And>b. b \<in> set bs \<Longrightarrow> run_before (l, n) b"
  shows "wf_runs (as @ (l, n) # bs)"
    and "run_clusters (as @ (l, n) # bs) = run_clusters (as @ bs) \<union> extent l n"
  using assms by (auto simp: wf_runs_append wf_runs_Cons)

lemma runs_grow_right:
  assumes w: "wf_runs (as @ (l, n) # bs)" and ov: "unat l + unat n + unat m < 2 ^ 64"
    and b: "\<And>b. b \<in> set bs \<Longrightarrow> unat l + unat n + unat m < unat (fst b)"
  shows "wf_runs (as @ (l, n + m) # bs)"
    and "run_clusters (as @ (l, n + m) # bs) = run_clusters (as @ (l, n) # bs) \<union> extent (l + n) m"
proof -
  have nm: "unat (n + m) = unat n + unat m" using ov by (intro unat_add_nowrap) simp
  have "run_ok (l, n)" using w by (simp add: wf_runs_append wf_runs_Cons)
  then have "run_ok (l, n + m)" using ov by (rule run_ok_join)
  moreover have "\<forall>b \<in> set bs. run_before (l, n + m) b"
    using b by (simp add: run_before_def nm add.assoc [symmetric])
  ultimately show "wf_runs (as @ (l, n + m) # bs)"
    using w by (auto simp: wf_runs_append wf_runs_Cons run_before_def)
  show "run_clusters (as @ (l, n + m) # bs) = run_clusters (as @ (l, n) # bs) \<union> extent (l + n) m"
    using extent_join [OF ov] by auto
qed

lemma runs_grow_left:
  assumes w: "wf_runs (as @ (l + m, n) # bs)" and ov: "unat l + unat m + unat n < 2 ^ 64"
    and a: "\<And>a. a \<in> set as \<Longrightarrow> unat (fst a) + unat (snd a) < unat l"
  shows "wf_runs (as @ (l, n + m) # bs)"
    and "run_clusters (as @ (l, n + m) # bs) = run_clusters (as @ (l + m, n) # bs) \<union> extent l m"
proof -
  have nm: "unat (n + m) = unat n + unat m" "unat (l + m) = unat l + unat m"
    using ov by (auto intro!: unat_add_nowrap)
  have "run_ok (l + m, n)" using w by (simp add: wf_runs_append wf_runs_Cons)
  then have "run_ok (l, n + m)" using ov by (auto simp: run_ok_def nm u64_pos_iff)
  then show "wf_runs (as @ (l, n + m) # bs)"
    using w a by (auto simp: wf_runs_append wf_runs_Cons run_before_def nm)
  show "run_clusters (as @ (l, n + m) # bs) = run_clusters (as @ (l + m, n) # bs) \<union> extent l m"
    using extent_join [OF ov] by (auto simp: add.commute)
qed

lemma runs_bridge:
  assumes w: "wf_runs (as @ (l, n) # (l + n + m, k) # bs)"
    and ov: "unat l + unat n + unat m + unat k < 2 ^ 64"
  shows "wf_runs (as @ (l, n + (m + k)) # bs)"
    and "run_clusters (as @ (l, n + (m + k)) # bs) =
      run_clusters (as @ (l, n) # (l + n + m, k) # bs) \<union> extent (l + n) m"
proof -
  have s: "unat (m + k) = unat m + unat k" "unat (l + n) = unat l + unat n"
    "unat (l + n + m) = unat l + unat n + unat m"
    using ov by (simp_all add: unat_word_ariths)
  have w': "wf_runs (as @ (l, n) # bs)" using w by (auto simp: wf_runs_append wf_runs_Cons)
  have b: "unat l + unat n + unat (m + k) < unat (fst b)" if "b \<in> set bs" for b
    using w that by (auto simp: wf_runs_append wf_runs_Cons run_before_def s)
  have ov': "unat l + unat n + unat (m + k) < 2 ^ 64" using ov s by simp
  show "wf_runs (as @ (l, n + (m + k)) # bs)"
    using runs_grow_right(1) [OF w' ov' b] .
  have "extent (l + n) (m + k) = extent (l + n) m \<union> extent (l + n + m) k"
    using ov s by (intro extent_join) simp
  then show "run_clusters (as @ (l, n + (m + k)) # bs) =
      run_clusters (as @ (l, n) # (l + n + m, k) # bs) \<union> extent (l + n) m"
    using runs_grow_right(2) [OF w' ov' b] by auto
qed

subsection \<open>Taking clusters from the front of a run\<close>

lemma extent_disjoint_runs:
  assumes "wf_runs rs" "r \<in> set rs" "s \<in> set rs" "r \<noteq> s"
  shows "extent (fst r) (snd r) \<inter> extent (fst s) (snd s) = {}"
proof -
  have "run_before r s \<or> run_before s r"
    using assms unfolding wf_runs_def
    by (metis in_set_conv_nth linorder_neqE_nat sorted_wrt_iff_nth_less)
  then show ?thesis by (auto simp: run_before_def in_extent)
qed

lemma runs_split_disjoint:
  assumes "wf_runs (as @ (l, n) # bs)"
  shows "extent l n \<inter> run_clusters (as @ bs) = {}"
proof -
  have "extent (fst x) (snd x) \<inter> extent l n = {}" if "x \<in> set (as @ bs)" for x
    using assms that
    by (auto simp: wf_runs_append wf_runs_Cons run_before_def in_extent)
  then show ?thesis by (auto simp: run_clusters_def)
qed

lemma runs_drop:
  assumes "wf_runs (as @ (l, n) # bs)"
  shows "wf_runs (as @ bs)"
    and "run_clusters (as @ bs) = run_clusters (as @ (l, n) # bs) - extent l n"
  using assms runs_split_disjoint [OF assms] by (auto simp: wf_runs_append wf_runs_Cons)

lemma runs_shrink:
  assumes w: "wf_runs (as @ (l, n) # bs)" and m: "m < n"
  shows "wf_runs (as @ (l + m, n - m) # bs)"
    and "run_clusters (as @ (l + m, n - m) # bs) = run_clusters (as @ (l, n) # bs) - extent l m"
proof -
  have ok: "unat l + unat n < 2 ^ 64" using w by (auto simp: wf_runs_append wf_runs_Cons run_ok_def)
  have lt: "unat m < unat n" using m by (simp add: nowrap)
  have s: "unat (l + m) = unat l + unat m" "unat (n - m) = unat n - unat m"
    using ok lt by (auto simp: nowrap)
  show "wf_runs (as @ (l + m, n - m) # bs)"
    using w lt ok by (auto simp: wf_runs_append wf_runs_Cons run_before_def run_ok_def s u64_pos_iff)
  have "extent l n = extent l m \<union> extent (l + m) (n - m)"
    using m ok by (intro extent_split) (auto simp: nowrap)
  moreover have "extent l m \<inter> extent (l + m) (n - m) = {}"
    by (auto simp: in_extent s)
  ultimately show "run_clusters (as @ (l + m, n - m) # bs) = run_clusters (as @ (l, n) # bs) - extent l m"
    using runs_split_disjoint [OF w] by auto
qed

lemma runs_cut:
  assumes w: "wf_runs (as @ (l, n) # bs)" and m: "0 < m" "m < n"
  shows "wf_runs (as @ (l, m) # bs)"
    and "run_clusters (as @ (l, m) # bs) = run_clusters (as @ (l, n) # bs) - extent (l + m) (n - m)"
proof -
  have ok: "unat l + unat n < 2 ^ 64" using w by (auto simp: wf_runs_append wf_runs_Cons run_ok_def)
  have lt: "unat m < unat n" "0 < unat m" using m by (auto simp: nowrap)
  have s: "unat (l + m) = unat l + unat m" "unat (n - m) = unat n - unat m"
    using ok lt by (auto simp: nowrap)
  show "wf_runs (as @ (l, m) # bs)"
    using w lt ok by (auto simp: wf_runs_append wf_runs_Cons run_before_def run_ok_def u64_pos_iff)
  have "extent l n = extent l m \<union> extent (l + m) (n - m)"
    using m ok by (intro extent_split) (auto simp: nowrap)
  moreover have "extent l m \<inter> extent (l + m) (n - m) = {}"
    by (auto simp: in_extent s)
  ultimately show "run_clusters (as @ (l, m) # bs) = run_clusters (as @ (l, n) # bs) - extent (l + m) (n - m)"
    using runs_split_disjoint [OF w] by auto
qed

lemma run_separated:
  assumes "run_ok r" "extent l n \<inter> extent (fst r) (snd r) = {}" "n \<noteq> 0"
  shows "unat (fst r) < unat l \<Longrightarrow> unat (fst r) + unat (snd r) \<le> unat l"
    and "unat l \<le> unat (fst r) \<Longrightarrow> unat l + unat n \<le> unat (fst r)"
proof -
  have d: "c \<notin> extent l n \<or> c \<notin> extent (fst r) (snd r)" for c using assms(2) by auto
  have p: "0 < unat n" "0 < unat (snd r)"
    using assms(1,3) by (auto simp: run_ok_def u64_pos_iff)
  show "unat (fst r) < unat l \<Longrightarrow> unat (fst r) + unat (snd r) \<le> unat l"
    using d [of "unat l"] p by (auto simp: in_extent)
  show "unat l \<le> unat (fst r) \<Longrightarrow> unat l + unat n \<le> unat (fst r)"
    using d [of "unat (fst r)"] p by (auto simp: in_extent)
qed

subsection \<open>Run lists are canonical\<close>

lemma run_end_free:
  assumes "wf_runs ((l, n) # rs)"
  shows "unat l + unat n \<notin> run_clusters ((l, n) # rs)" "c \<in> run_clusters ((l, n) # rs) \<Longrightarrow> unat l \<le> c"
    "unat l \<in> run_clusters ((l, n) # rs)"
  using assms by (force simp: wf_runs_Cons run_before_def run_clusters_def in_extent run_ok_def u64_pos_iff)+

lemma wf_runs_unique:
  "wf_runs rs \<Longrightarrow> wf_runs ss \<Longrightarrow> run_clusters rs = run_clusters ss \<Longrightarrow> rs = ss"
proof (induction rs arbitrary: ss)
  case Nil
  then show ?case using run_end_free(3) by (cases ss) force+
next
  case (Cons r rs)
  obtain l n where r: "r = (l, n)" by (cases r)
  obtain m k ss' where ss: "ss = (m, k) # ss'"
    using Cons.prems(1,3) run_end_free(3) [of l n rs] r by (cases ss) auto
  note er = run_end_free [OF Cons.prems(1) [unfolded r]] and es = run_end_free [OF Cons.prems(2) [unfolded ss]]
  have eq: "run_clusters ((l, n) # rs) = run_clusters ((m, k) # ss')" using Cons.prems(3) by (simp add: r ss)
  have "unat l \<le> unat m" "unat m \<le> unat l" using er(2,3) es(2,3) unfolding eq by blast+
  then have lm: "l = m" by (simp add: u64_eq_iff)
  have "unat n = unat k"
  proof (rule ccontr)
    assume "unat n \<noteq> unat k"
    then consider "unat n < unat k" | "unat k < unat n" by linarith
    then show False
    proof cases
      case 1
      then have "unat l + unat n \<in> run_clusters ((m, k) # ss')" using lm by (simp add: in_extent)
      then show False using er(1) unfolding eq by blast
    next
      case 2
      then have "unat m + unat k \<in> run_clusters ((l, n) # rs)" using lm by (simp add: in_extent)
      then show False using es(1) unfolding eq by blast
    qed
  qed
  then have nk: "n = k" by (simp add: u64_eq_iff)
  have d: "extent l n \<inter> run_clusters rs = {}" "extent m k \<inter> run_clusters ss' = {}"
    using runs_split_disjoint [of "[]" l n rs] runs_split_disjoint [of "[]" m k ss'] Cons.prems r ss by simp_all
  then have "run_clusters rs = run_clusters ss'" using eq lm nk by auto
  then have "rs = ss'" using Cons.IH Cons.prems(1,2) r ss by (simp add: wf_runs_Cons)
  then show ?case using r ss lm nk by simp
qed

subsection \<open>The contract of a free-space index\<close>

text \<open>
  \<open>release l n\<close> returns the clusters of a run to the index, \<open>claim l n\<close> takes a run that is
  known to be free out of it. \<open>ready\<close> and \<open>claimable\<close> are the provider's preconditions.
\<close>

locale free_space =
  fixes invar :: "'s \<Rightarrow> bool"
    and free :: "'s \<Rightarrow> nat set"
    and ready :: "'s \<Rightarrow> u64 \<Rightarrow> bool"
    and claimable :: "'s \<Rightarrow> u64 \<Rightarrow> u64 \<Rightarrow> bool"
    and release :: "u64 \<Rightarrow> u64 \<Rightarrow> 's \<Rightarrow> 's option"
    and claim :: "u64 \<Rightarrow> u64 \<Rightarrow> 's \<Rightarrow> 's option"
  assumes finite_free: "invar s \<Longrightarrow> finite (free s)"
    and release_law: "invar s \<Longrightarrow> ready s l \<Longrightarrow> run_ok (l, n) \<Longrightarrow> extent l n \<inter> free s = {} \<Longrightarrow>
      \<exists>s'. release l n s = Some s' \<and> invar s' \<and> (\<forall>x. ready s x \<longrightarrow> ready s' x) \<and> free s' = free s \<union> extent l n"
    and claim_law: "invar s \<Longrightarrow> claimable s l n \<Longrightarrow>
      \<exists>s'. claim l n s = Some s' \<and> invar s' \<and> free s' = free s - extent l n"
    and claimable_free: "invar s \<Longrightarrow> claimable s l n \<Longrightarrow> extent l n \<subseteq> free s"
begin

lemma claim_after_release:
  assumes "invar s" "ready s ol" "run_ok (ol, m)" "extent ol m \<inter> free s = {}"
    and "\<And>s'. release ol m s = Some s' \<Longrightarrow> claimable s' l m"
  shows "\<exists>s' s''. release ol m s = Some s' \<and> claim l m s' = Some s'' \<and> invar s'' \<and>
    free s'' = (free s \<union> extent ol m) - extent l m \<and> card (free s'') = card (free s)"
proof -
  obtain s' where s': "release ol m s = Some s'" "invar s'" "free s' = free s \<union> extent ol m"
    using release_law [OF assms(1-4)] by blast
  obtain s'' where s'': "claim l m s' = Some s''" "invar s''" "free s'' = free s' - extent l m"
    using claim_law [OF s'(2) assms(5) [OF s'(1)]] by blast
  have "extent l m \<subseteq> free s'" by (rule claimable_free [OF s'(2) assms(5) [OF s'(1)]])
  then have "card (free s'') = card (free s') - unat m"
    using s''(3) finite_free [OF s'(2)] by (simp add: card_Diff_subset)
  also have "card (free s') = card (free s) + unat m"
    using s'(3) assms(4) finite_free [OF assms(1)] by (simp add: card_Un_disjoint Int_commute)
  finally show ?thesis using s' s'' by auto
qed

end

end
