(* ===== verification/Volume_Scan.thy ===== *)
theory Volume_Scan
  imports Cluster_Set
begin

unbundle bit_operations_syntax

text \<open>
  Model of the free-space scan of \<open>zenwinx/src/zenwinx/volume.c\<close>
  (\<open>winx_get_free_volume_regions\<close>). The kernel's answer to \<open>FSCTL_GET_VOLUME_BITMAP\<close> is the
  parameter \<open>req\<close>: for a starting cluster it gives the call's status, the status of the completed
  request, and the \<open>BITMAP_DESCRIPTOR\<close> (start, clusters to the end of the volume, bytes).
  What the system documents about these answers is the predicate \<open>bitmap_answers\<close>.
\<close>

record volume_region =
  r_lcn :: u64
  r_length :: u64

definition run_of :: "volume_region \<Rightarrow> run" where
  "run_of r = (r_lcn r, r_length r)"

definition LLINVALID :: u64 where
  "LLINVALID = 18446744073709551615"

definition STATUS_SUCCESS :: u32 where
  "STATUS_SUCCESS = 0"

definition STATUS_BUFFER_OVERFLOW :: u32 where
  "STATUS_BUFFER_OVERFLOW = 0x80000005"

text \<open>\<open>NT_SUCCESS\<close> reads the status as a signed number.\<close>

definition NT_SUCCESS :: "u32 \<Rightarrow> bool" where
  "NT_SUCCESS s \<longleftrightarrow> s < 0x80000000"

definition WINX_GVR_ALLOW_PARTIAL_SCAN :: u32 where
  "WINX_GVR_ALLOW_PARTIAL_SCAN = 1"

record bitmap_answer =
  ba_status :: u32
  ba_iosb :: u32
  ba_start :: u64
  ba_to_end :: u64
  ba_map :: "u8 list"

definition BITMAPBYTES :: nat where
  "BITMAPBYTES = 4096"

definition bitshift :: "u8 list" where
  "bitshift = [1, 2, 4, 8, 16, 32, 64, 128]"

text \<open>The buffer is zeroed before each request, so bytes the system did not write read 0.\<close>

definition map_byte :: "u8 list \<Rightarrow> nat \<Rightarrow> u8" where
  "map_byte m k = (if k < length m then m ! k else 0)"

definition cluster_used :: "u8 list \<Rightarrow> nat \<Rightarrow> bool" where
  "cluster_used m i \<longleftrightarrow> map_byte m (i div 8) AND bitshift ! (i mod 8) \<noteq> 0"

text \<open>
  The loop over the bits of one answer. The result is whether the callback stopped the scan,
  the start of the region that is still open, and the list of regions, in list order.
\<close>

fun scan_bits :: "(volume_region \<Rightarrow> bool) option \<Rightarrow> u8 list \<Rightarrow> u64 \<Rightarrow> nat \<Rightarrow> nat \<Rightarrow>
  u64 \<Rightarrow> volume_region list \<Rightarrow> bool \<times> u64 \<times> volume_region list" where
  "scan_bits cb m start i 0 free_rgn_start rlist = (False, free_rgn_start, rlist)"
| "scan_bits cb m start i (Suc k) free_rgn_start rlist =
     (if \<not> cluster_used m i then
        scan_bits cb m start (Suc i) k
          (if free_rgn_start = LLINVALID then start + of_nat i else free_rgn_start) rlist
      else if free_rgn_start \<noteq> LLINVALID then
        let rgn = \<lparr>r_lcn = free_rgn_start, r_length = start + of_nat i - free_rgn_start\<rparr>;
            rlist = rlist @ [rgn]
        in if (case cb of None \<Rightarrow> False | Some c \<Rightarrow> c rgn) then (True, free_rgn_start, rlist)
           else scan_bits cb m start (Suc i) k LLINVALID rlist
      else scan_bits cb m start (Suc i) k free_rgn_start rlist)"

partial_function (option) bitmap_loop :: "(u64 \<Rightarrow> bitmap_answer) \<Rightarrow> u32 \<Rightarrow>
  (volume_region \<Rightarrow> bool) option \<Rightarrow> u64 \<Rightarrow> u64 \<Rightarrow> volume_region list \<Rightarrow> volume_region list option" where
  "bitmap_loop req flags cb next free_rgn_start rlist =
     (let bitmap = req next;
          status = (if NT_SUCCESS (ba_status bitmap) then ba_iosb bitmap else ba_status bitmap)
      in if status \<noteq> STATUS_SUCCESS \<and> status \<noteq> STATUS_BUFFER_OVERFLOW then
           Some (if flags AND WINX_GVR_ALLOW_PARTIAL_SCAN \<noteq> 0 then rlist else [])
         else
           let start = ba_start bitmap;
               n = min (unat (ba_to_end bitmap)) (8 * BITMAPBYTES);
               (stopped, free_rgn_start, rlist) = scan_bits cb (ba_map bitmap) start 0 n free_rgn_start rlist
           in if stopped then Some rlist
              else if status \<noteq> STATUS_SUCCESS then
                bitmap_loop req flags cb (start + of_nat n) free_rgn_start rlist
              else Some (if free_rgn_start \<noteq> LLINVALID
                then rlist @ [\<lparr>r_lcn = free_rgn_start, r_length = start + of_nat n - free_rgn_start\<rparr>]
                else rlist))"

text \<open>\<open>vopen\<close> tells whether \<open>winx_vopen\<close> opened the volume. An empty list is \<open>NULL\<close>.\<close>

definition winx_get_free_volume_regions :: "bool \<Rightarrow> (u64 \<Rightarrow> bitmap_answer) \<Rightarrow> u32 \<Rightarrow>
  (volume_region \<Rightarrow> bool) option \<Rightarrow> volume_region list option" where
  "winx_get_free_volume_regions vopen req flags cb =
     (if \<not> vopen then Some [] else bitmap_loop req flags cb 0 LLINVALID [])"

subsection \<open>What the system documents\<close>

definition answer_status :: "bitmap_answer \<Rightarrow> u32" where
  "answer_status b = (if NT_SUCCESS (ba_status b) then ba_iosb b else ba_status b)"

definition bitmap_answers :: "(nat \<Rightarrow> bool) \<Rightarrow> nat \<Rightarrow> (u64 \<Rightarrow> bitmap_answer) \<Rightarrow> bool" where
  "bitmap_answers used ntotal req \<longleftrightarrow>
     (\<forall>n. 8 dvd unat n \<longrightarrow> unat n < ntotal \<longrightarrow>
        ba_start (req n) = n \<and> unat (ba_to_end (req n)) = ntotal - unat n \<and>
        answer_status (req n) =
          (if ntotal - unat n \<le> 8 * BITMAPBYTES then STATUS_SUCCESS else STATUS_BUFFER_OVERFLOW) \<and>
        (\<forall>i < min (ntotal - unat n) (8 * BITMAPBYTES).
           cluster_used (ba_map (req n)) i = used (unat n + i)))"

subsection \<open>The scan finds exactly the free clusters\<close>

text \<open>The state of the scan after the clusters below \<open>c\<close>.\<close>

definition scan_inv :: "(nat \<Rightarrow> bool) \<Rightarrow> nat \<Rightarrow> u64 \<Rightarrow> volume_region list \<Rightarrow> bool" where
  "scan_inv used c frs rlist \<longleftrightarrow>
     wf_runs (map run_of rlist) \<and>
     (let e = (if frs = LLINVALID then c else unat frs)
      in run_clusters (map run_of rlist) = {x. x < e \<and> \<not> used x} \<and>
         (\<forall>r \<in> set rlist. unat (r_lcn r) + unat (r_length r) < e) \<and>
         (frs \<noteq> LLINVALID \<longrightarrow> unat frs < c \<and> (\<forall>x. unat frs \<le> x \<and> x < c \<longrightarrow> \<not> used x)))"

lemma scan_inv_start: "scan_inv used 0 LLINVALID []"
  by (simp add: scan_inv_def)

lemma unat_LLINVALID: "unat LLINVALID = 2 ^ 64 - 1"
  by (simp add: LLINVALID_def)

lemma scan_inv_free:
  assumes "scan_inv used c frs rlist" "\<not> used c" "unat p = c" "c < 2 ^ 64 - 1"
  shows "scan_inv used (Suc c) (if frs = LLINVALID then p else frs) rlist"
proof -
  have "p \<noteq> LLINVALID" using assms(3,4) unat_LLINVALID by auto
  then show ?thesis
    using assms by (auto simp: scan_inv_def Let_def less_Suc_eq)
qed

lemma scan_inv_used_closed:
  assumes "scan_inv used c LLINVALID rlist" "used c"
  shows "scan_inv used (Suc c) LLINVALID rlist"
  using assms by (auto simp: scan_inv_def Let_def less_Suc_eq)

lemma scan_close:
  assumes inv: "scan_inv used c frs rlist" and frs: "frs \<noteq> LLINVALID" and p: "unat p = c" "c < 2 ^ 64 - 1"
  defines "rlist' \<equiv> rlist @ [\<lparr>r_lcn = frs, r_length = p - frs\<rparr>]"
  shows "wf_runs (map run_of rlist')"
    and "run_clusters (map run_of rlist') = {x. x < c \<and> \<not> used x}"
    and "\<forall>r \<in> set rlist'. unat (r_lcn r) + unat (r_length r) \<le> c"
proof -
  have lt: "unat frs < c" using inv frs by (simp add: scan_inv_def Let_def)
  have len: "unat (p - frs) = c - unat frs"
    using lt p by (simp add: unat_sub nowrap)
  have "run_ok (frs, p - frs)"
    using lt len p by (auto simp: run_ok_def u64_pos_iff)
  then show "wf_runs (map run_of rlist')"
    using inv frs
    by (auto simp: rlist'_def scan_inv_def Let_def wf_runs_append wf_runs_Cons run_of_def run_before_def)
  have "extent frs (p - frs) = {x. unat frs \<le> x \<and> x < c}"
    using lt len by (auto simp: in_extent)
  then show "run_clusters (map run_of rlist') = {x. x < c \<and> \<not> used x}"
    using inv frs lt by (auto simp: rlist'_def scan_inv_def Let_def run_of_def)
  show "\<forall>r \<in> set rlist'. unat (r_lcn r) + unat (r_length r) \<le> c"
    using inv frs lt len by (auto simp: rlist'_def scan_inv_def Let_def)
qed

lemma scan_inv_used_open:
  assumes "scan_inv used c frs rlist" "frs \<noteq> LLINVALID" "used c" "unat p = c" "c < 2 ^ 64 - 1"
  shows "scan_inv used (Suc c) LLINVALID (rlist @ [\<lparr>r_lcn = frs, r_length = p - frs\<rparr>])"
  using scan_close [OF assms(1,2,4,5)] assms(3)
  by (auto simp: scan_inv_def Let_def less_Suc_eq_le less_Suc_eq)

lemma scan_bits_inv:
  assumes "scan_inv used (unat start + i) frs rlist" "unat start + i + k < 2 ^ 64"
    and "\<And>j. j < i + k \<Longrightarrow> cluster_used m j = used (unat start + j)"
  shows "\<exists>frs' rlist'. scan_bits None m start i k frs rlist = (False, frs', rlist') \<and>
    scan_inv used (unat start + (i + k)) frs' rlist'"
  using assms
proof (induction k arbitrary: i frs rlist)
  case 0
  then show ?case by simp
next
  case (Suc k)
  define p where "p = start + of_nat i"
  have p: "unat p = unat start + i" "unat start + i < 2 ^ 64 - 1"
    using Suc.prems(2) by (auto simp: p_def unat_word_ariths unat_of_nat)
  have u: "cluster_used m i = used (unat start + i)" using Suc.prems(3) [of i] by simp
  have IH: "\<exists>frs'' rlist''. scan_bits None m start (Suc i) k frs' rlist' = (False, frs'', rlist'') \<and>
      scan_inv used (unat start + (i + Suc k)) frs'' rlist''"
    if "scan_inv used (Suc (unat start + i)) frs' rlist'" for frs' rlist'
    using Suc.IH [of "Suc i" frs' rlist'] that Suc.prems(2,3) by simp
  show ?case
  proof (cases "used (unat start + i)")
    case False
    from IH [OF scan_inv_free [OF Suc.prems(1) False p]] show ?thesis
      using False u by (cases "frs = LLINVALID") (simp_all add: p_def)
  next
    case used: True
    show ?thesis
    proof (cases "frs = LLINVALID")
      case True
      with scan_inv_used_closed [of used "unat start + i" rlist] Suc.prems(1) used u IH
      show ?thesis by simp
    next
      case False
      from scan_inv_used_open [OF Suc.prems(1) False used p] IH u used False
      show ?thesis by (simp add: p_def)
    qed
  qed
qed

lemma bitmap_loop_correct:
  assumes "bitmap_answers used ntotal req" "ntotal < 2 ^ 64 - 1"
    and "scan_inv used (unat next) frs rlist" "8 dvd unat next" "unat next < ntotal"
  shows "\<exists>rs. bitmap_loop req flags None next frs rlist = Some rs \<and>
    wf_runs (map run_of rs) \<and> run_clusters (map run_of rs) = {x. x < ntotal \<and> \<not> used x}"
  using assms(3-)
proof (induction "ntotal - unat next" arbitrary: "next" frs rlist rule: less_induct)
  case less
  let ?b = "req next" and ?n = "min (ntotal - unat next) (8 * BITMAPBYTES)"
  have b: "ba_start ?b = next" "unat (ba_to_end ?b) = ntotal - unat next"
    "answer_status ?b =
      (if ntotal - unat next \<le> 8 * BITMAPBYTES then STATUS_SUCCESS else STATUS_BUFFER_OVERFLOW)"
    "\<forall>i < ?n. cluster_used (ba_map ?b) i = used (unat next + i)"
    using assms(1) less.prems(2,3) by (auto simp: bitmap_answers_def)
  have lt: "unat next + ?n < 2 ^ 64" using less.prems(3) assms(2) by auto
  obtain frs' rlist' where s: "scan_bits None (ba_map ?b) next 0 ?n frs rlist = (False, frs', rlist')"
    "scan_inv used (unat next + ?n) frs' rlist'"
    using scan_bits_inv [of used "next" 0 frs rlist ?n "ba_map ?b"] less.prems(1) lt b(4) by auto
  have p: "unat (next + of_nat ?n) = unat next + ?n"
    using lt by (simp add: unat_word_ariths unat_of_nat)
  have st: "STATUS_BUFFER_OVERFLOW \<noteq> STATUS_SUCCESS"
    by (simp add: STATUS_BUFFER_OVERFLOW_def STATUS_SUCCESS_def)
  show ?case
  proof (cases "ntotal - unat next \<le> 8 * BITMAPBYTES")
    case True
    then have n: "?n = ntotal - unat next" "unat next + ?n = ntotal" using less.prems(3) by auto
    show ?thesis
    proof (cases "frs' = LLINVALID")
      case closed: True
      show ?thesis
        using True b s closed n st
        by (subst bitmap_loop.simps) (auto simp: answer_status_def [symmetric] scan_inv_def Let_def)
    next
      case False
      from scan_close [OF s(2) False p] n assms(2)
      show ?thesis
        using True b s False n st
        by (subst bitmap_loop.simps) (simp add: answer_status_def [symmetric] Let_def)
    qed
  next
    case False
    then have n: "?n = 8 * BITMAPBYTES" by simp
    have "\<exists>rs. bitmap_loop req flags None (next + of_nat ?n) frs' rlist' = Some rs \<and>
      wf_runs (map run_of rs) \<and> run_clusters (map run_of rs) = {x. x < ntotal \<and> \<not> used x}"
      using False s(2) p less.prems(2) n
      by (intro less.hyps) (auto simp: BITMAPBYTES_def)
    then show ?thesis
      using False b s n st
      by (subst bitmap_loop.simps) (simp add: answer_status_def [symmetric] Let_def)
  qed
qed

text \<open>
  C1: a scan of a readable volume ends, and the regions it returns are exactly the free clusters
  of the volume, as maximal runs in ascending order.
\<close>

theorem free_regions_exact:
  assumes "bitmap_answers used ntotal req" "0 < ntotal" "ntotal < 2 ^ 64 - 1"
  shows "\<exists>rs. winx_get_free_volume_regions True req flags None = Some rs \<and>
    wf_runs (map run_of rs) \<and> run_clusters (map run_of rs) = {x. x < ntotal \<and> \<not> used x}"
  using bitmap_loop_correct [OF assms(1,3), of 0 LLINVALID "[]" flags] assms(2)
  by (simp add: winx_get_free_volume_regions_def scan_inv_start)

text \<open>An 8-cluster volume whose clusters 0, 1 and 5 are in use.\<close>

definition demo_req :: "u64 \<Rightarrow> bitmap_answer" where
  "demo_req n = \<lparr>ba_status = 0, ba_iosb = 0, ba_start = n, ba_to_end = 8 - n, ba_map = [35]\<rparr>"

lemma demo_bitmap: "bitmap_answers (\<lambda>c. c \<in> {0, 1, 5}) 8 demo_req"
proof -
  have "n = 0" if "8 dvd unat n" "unat n < 8" for n :: u64
    using that by (metis dvd_imp_mod_0 mod_less unat_eq_zero)
  moreover have "cluster_used [35] i = (i \<in> {0, 1, 5})" if "i < 8" for i
  proof -
    from that have "i \<in> {0, 1, 2, 3, 4, 5, 6, 7}" by auto
    then show ?thesis by (auto simp: cluster_used_def map_byte_def bitshift_def)
  qed
  ultimately show ?thesis
    by (fastforce simp: bitmap_answers_def demo_req_def answer_status_def NT_SUCCESS_def
        STATUS_SUCCESS_def BITMAPBYTES_def)
qed

theorem free_regions_exact_witness:
  "\<exists>rs. winx_get_free_volume_regions True demo_req 0 None = Some rs \<and>
    wf_runs (map run_of rs) \<and> run_clusters (map run_of rs) = {x. x < 8 \<and> x \<notin> {0, 1, 5}}"
  by (rule free_regions_exact [OF demo_bitmap]) simp_all

end
