(* ===== verification/File_Info.thy ===== *)
theory File_Info
  imports Cluster_Set
begin

text \<open>
  The structures of \<open>zenwinx.h\<close> that describe a file on disk. A ring of \<open>winx_blockmap\<close> items is the
  list of its items from the head pointer on; the \<open>NULL\<close> head is the empty list. Wide strings are
  lists of 16-bit units without the terminating zero, \<open>None\<close> is a \<open>NULL\<close> pointer.
\<close>

record winx_blockmap =
  b_vcn :: u64
  b_lcn :: u64
  b_length :: u64

record winx_file_disposition =
  d_clusters :: u64
  d_fragments :: u64
  d_blockmap :: "winx_blockmap list"

record winx_file_internal_info =
  BaseMftId :: u64
  ParentDirectoryMftId :: u64

record winx_file_info =
  f_name :: "wstring option"
  f_path :: "wstring option"
  f_flags :: u32
  f_disp :: winx_file_disposition
  f_user_defined_flags :: u32
  f_internal :: winx_file_internal_info
  f_creation_time :: u64
  f_last_modification_time :: u64
  f_last_access_time :: u64

abbreviation f_blockmap :: "winx_file_info \<Rightarrow> winx_blockmap list" where
  "f_blockmap f \<equiv> d_blockmap (f_disp f)"

abbreviation f_clusters :: "winx_file_info \<Rightarrow> u64" where
  "f_clusters f \<equiv> d_clusters (f_disp f)"

subsection \<open>The clusters of a block map\<close>

definition block_clusters :: "winx_blockmap list \<Rightarrow> nat set" where
  "block_clusters bm = (\<Union>b \<in> set bm. extent (b_lcn b) (b_length b))"

definition block_ok :: "winx_blockmap \<Rightarrow> bool" where
  "block_ok b \<longleftrightarrow> unat (b_lcn b) + unat (b_length b) < 2 ^ 64"

definition blocks_apart :: "winx_blockmap \<Rightarrow> winx_blockmap \<Rightarrow> bool" where
  "blocks_apart b c \<longleftrightarrow> unat (b_lcn b) + unat (b_length b) \<le> unat (b_lcn c) \<or>
     unat (b_lcn c) + unat (b_length c) \<le> unat (b_lcn b)"

definition blocks_ok :: "winx_blockmap list \<Rightarrow> bool" where
  "blocks_ok bm \<longleftrightarrow> list_all block_ok bm \<and> sorted_wrt blocks_apart bm"

lemma blocks_apart_disjoint:
  "blocks_apart b c \<Longrightarrow> extent (b_lcn b) (b_length b) \<inter> extent (b_lcn c) (b_length c) = {}"
  by (auto simp: blocks_apart_def in_extent)

lemma block_clusters_Cons [simp]:
  "block_clusters [] = {}"
  "block_clusters (b # bm) = extent (b_lcn b) (b_length b) \<union> block_clusters bm"
  by (simp_all add: block_clusters_def)

end
