(* ===== verification/Winx_String.thy ===== *)
theory Winx_String
  imports Case_Tables "HOL-Library.Sublist"
begin

unbundle bit_operations_syntax

text \<open>
  Model of \<open>zenwinx/src/zenwinx/string.c\<close>: comparison and search without regard to case, matching
  against masks with wildcards, lists of patterns, formatting into a growing buffer, and the
  conversion to UTF-8. A pointer into a string is its offset, \<open>None\<close> is \<open>NULL\<close>.
\<close>

subsection \<open>Case conversion, comparison and search\<close>

definition winx_wcsupr :: "wstring option \<Rightarrow> wstring option" where
  "winx_wcsupr s = map_option (map winx_towupper) s"

definition winx_wcslwr :: "wstring option \<Rightarrow> wstring option" where
  "winx_wcslwr s = map_option (map winx_towlower) s"

text \<open>\<open>tmalloc\<close> tells whether an allocation of that many bytes succeeds.\<close>

definition winx_wcsdup :: "(nat \<Rightarrow> bool) \<Rightarrow> wstring option \<Rightarrow> wstring option" where
  "winx_wcsdup tmalloc s = (case s of None \<Rightarrow> None | Some s \<Rightarrow> if tmalloc ((length s + 1) * 2) then Some s else None)"

text \<open>\<open>*s\<close>: the first unit of the string, or its terminating zero.\<close>

definition at0 :: "wstring \<Rightarrow> u16" where
  "at0 s = (case s of [] \<Rightarrow> 0 | c # _ \<Rightarrow> c)"

fun wcsicmp_loop :: "wstring \<Rightarrow> wstring \<Rightarrow> int" where
  "wcsicmp_loop s1 s2 =
     (let result = int (unat (winx_towlower (at0 s1))) - int (unat (winx_towlower (at0 s2)))
      in if result \<noteq> 0 then result
         else case s1 of [] \<Rightarrow> 0 | c # cs \<Rightarrow> if c = 0 then 0 else wcsicmp_loop cs (tl s2))"

declare wcsicmp_loop.simps [simp del]

definition winx_wcsicmp :: "wstring option \<Rightarrow> wstring option \<Rightarrow> int" where
  "winx_wcsicmp s1 s2 =
     (case (s1, s2) of
        (Some s1, Some s2) \<Rightarrow> wcsicmp_loop s1 s2
      | _ \<Rightarrow> if s1 = None \<and> s2 = None then 0 else 1)"

text \<open>The inner loop of the searches: what is left of \<open>_s2\<close> when the strings differ or end.\<close>

fun match_rest :: "('a \<Rightarrow> 'a) \<Rightarrow> 'a list \<Rightarrow> 'a list \<Rightarrow> 'a list" where
  "match_rest fold_case (a # s1) (b # s2) =
     (if fold_case a = fold_case b then match_rest fold_case s1 s2 else b # s2)"
| "match_rest fold_case s1 s2 = s2"

fun istr_loop :: "('a \<Rightarrow> 'a) \<Rightarrow> 'a list \<Rightarrow> nat \<Rightarrow> 'a list \<Rightarrow> nat option" where
  "istr_loop fold_case s2 cp [] = None"
| "istr_loop fold_case s2 cp (c # s1) =
     (if match_rest fold_case (c # s1) s2 = [] then Some cp else istr_loop fold_case s2 (cp + 1) s1)"

definition winx_wcsistr :: "wstring option \<Rightarrow> wstring option \<Rightarrow> nat option" where
  "winx_wcsistr s1 s2 =
     (case (s1, s2) of (Some s1, Some s2) \<Rightarrow> istr_loop winx_towlower s2 0 s1 | _ \<Rightarrow> None)"

definition winx_stristr :: "string option \<Rightarrow> string option \<Rightarrow> nat option" where
  "winx_stristr s1 s2 =
     (case (s1, s2) of (Some s1, Some s2) \<Rightarrow> istr_loop winx_tolower s2 0 s1 | _ \<Rightarrow> None)"

text \<open>The library's \<open>wcsstr\<close> also finds the empty string at the end.\<close>

definition wcsstr :: "wstring \<Rightarrow> wstring \<Rightarrow> nat option" where
  "wcsstr s1 s2 = (if s2 = [] then Some 0 else istr_loop id s2 0 s1)"

subsection \<open>Masks\<close>

abbreviation asterisk :: u16 where
  "asterisk \<equiv> 42"

abbreviation question_mark :: u16 where
  "question_mark \<equiv> 63"

fun tails :: "'a list \<Rightarrow> 'a list list" where
  "tails [] = []"
| "tails (x # xs) = (x # xs) # tails xs"

function wcsmatch_helper :: "wstring \<Rightarrow> wstring \<Rightarrow> bool" where
  "wcsmatch_helper str msk =
     (if str \<noteq> [] \<and> msk \<noteq> [] then
        let cs = hd str; cm = hd msk
        in if cs \<noteq> cm \<and> cm \<noteq> question_mark then
             if cm \<noteq> asterisk then False
             else
               let msk = dropWhile (\<lambda>c. c = asterisk) msk
               in if msk = [] then True
                  else if hd msk = question_mark then
                    list_ex (\<lambda>str. wcsmatch_helper str msk) (tails str)
                  else
                    list_ex (\<lambda>str. hd str = hd msk \<and> wcsmatch_helper str msk) (tails str)
           else wcsmatch_helper (tl str) (tl msk)
      else str = [] \<and> dropWhile (\<lambda>c. c = asterisk) msk = [])"
  by auto
termination
  by (relation "measure (\<lambda>(str, msk). length msk)")
    (auto simp: neq_Nil_conv intro!: le_imp_less_Suc length_dropWhile_le)

declare wcsmatch_helper.simps [simp del]

function wcsmatch_icase_helper :: "wstring \<Rightarrow> wstring \<Rightarrow> bool" where
  "wcsmatch_icase_helper str msk =
     (if str \<noteq> [] \<and> msk \<noteq> [] then
        let cs = winx_towlower (hd str); cm = winx_towlower (hd msk)
        in if cs \<noteq> cm \<and> cm \<noteq> question_mark then
             if cm \<noteq> asterisk then False
             else
               let msk = dropWhile (\<lambda>c. c = asterisk) msk
               in if msk = [] then True
                  else let cm = winx_towlower (hd msk)
                  in if cm = question_mark then
                    list_ex (\<lambda>str. wcsmatch_icase_helper str msk) (tails str)
                  else
                    list_ex (\<lambda>str. winx_towlower (hd str) = cm \<and> wcsmatch_icase_helper str msk) (tails str)
           else wcsmatch_icase_helper (tl str) (tl msk)
      else str = [] \<and> dropWhile (\<lambda>c. c = asterisk) msk = [])"
  by auto
termination
  by (relation "measure (\<lambda>(str, msk). length msk)")
    (auto simp: neq_Nil_conv towlower_small intro!: le_imp_less_Suc length_dropWhile_le)

declare wcsmatch_icase_helper.simps [simp del]

definition WINX_PAT_ICASE :: u32 where
  "WINX_PAT_ICASE = 1"

definition winx_wcsmatch :: "wstring option \<Rightarrow> wstring option \<Rightarrow> u32 \<Rightarrow> bool" where
  "winx_wcsmatch str msk flags =
     (case (str, msk) of
        (Some str, Some msk) \<Rightarrow>
          if msk = [asterisk] then True
          else if flags AND WINX_PAT_ICASE \<noteq> 0 then wcsmatch_icase_helper str msk
          else wcsmatch_helper str msk
      | _ \<Rightarrow> False)"

subsection \<open>Lists of patterns\<close>

text \<open>The array holds the offsets of the patterns in the copy of the string, which has a zero for each delimiter.\<close>

record winx_patlist =
  pat_count :: nat
  pat_array :: "nat list"
  pat_flags :: u32
  pat_string :: "u16 list option"

fun count_patterns :: "u16 list \<Rightarrow> bool \<Rightarrow> nat \<Rightarrow> nat" where
  "count_patterns [] pattern_detected cnt = cnt"
| "count_patterns (c # s) pattern_detected cnt =
     (if c \<noteq> 0 then
        if \<not> pattern_detected then count_patterns s True (cnt + 1) else count_patterns s pattern_detected cnt
      else count_patterns s False cnt)"

text \<open>
  The array is written at index \<open>j\<close>; a write behind its \<open>size\<close> entries is undefined (\<open>None\<close>).
\<close>

fun build_array :: "nat \<Rightarrow> u16 list \<Rightarrow> nat \<Rightarrow> bool \<Rightarrow> nat list \<Rightarrow> nat list option" where
  "build_array sz [] i pattern_detected arr = Some arr"
| "build_array sz (c # s) i pattern_detected arr =
     (if c \<noteq> 0 then
        if \<not> pattern_detected then
          if length arr < sz then build_array sz s (i + 1) True (arr @ [i]) else None
        else build_array sz s (i + 1) pattern_detected arr
      else build_array sz s (i + 1) False arr)"

definition winx_patcomp :: "(nat \<Rightarrow> bool) \<Rightarrow> wstring option \<Rightarrow> wstring option \<Rightarrow> u32 \<Rightarrow>
  (int \<times> winx_patlist option) option" where
  "winx_patcomp tmalloc str delim flags =
     (case (str, delim) of
        (Some str, Some delim) \<Rightarrow>
          let patterns = \<lparr>pat_count = 0, pat_array = [], pat_flags = flags, pat_string = None\<rparr>
          in if str = [] then Some (0, Some patterns)
             else (case winx_wcsdup tmalloc (Some str) of
               None \<Rightarrow> Some (-1, Some patterns)
             | Some s \<Rightarrow> do {
                 let s = map (\<lambda>c. if c \<in> set delim then 0 else c) s;
                 let cnt = count_patterns s False 0;
                 arr \<leftarrow> build_array cnt s 0 False [];
                 Some (0, Some (patterns\<lparr>pat_count := cnt, pat_array := arr, pat_string := Some s\<rparr>))
               })
      | _ \<Rightarrow> Some (-1, None))"

definition pattern_at :: "winx_patlist \<Rightarrow> nat \<Rightarrow> wstring" where
  "pattern_at p i = takeWhile (\<lambda>c. c \<noteq> 0) (drop (pat_array p ! i) (the (pat_string p)))"

definition winx_patfind :: "wstring option \<Rightarrow> winx_patlist option \<Rightarrow> bool" where
  "winx_patfind str patterns =
     (case (patterns, str) of
        (Some p, Some str) \<Rightarrow>
          list_ex (\<lambda>i. (if pat_flags p AND WINX_PAT_ICASE \<noteq> 0
                        then winx_wcsistr (Some str) (Some (pattern_at p i))
                        else wcsstr str (pattern_at p i)) \<noteq> None) [0..<pat_count p]
      | _ \<Rightarrow> False)"

definition winx_patcmp :: "wstring option \<Rightarrow> winx_patlist option \<Rightarrow> bool" where
  "winx_patcmp str patterns =
     (case (str, patterns) of
        (Some str, Some p) \<Rightarrow>
          list_ex (\<lambda>i. winx_wcsmatch (Some str) (Some (pattern_at p i)) (pat_flags p)) [0..<pat_count p]
      | _ \<Rightarrow> False)"

definition winx_patfree :: "winx_patlist option \<Rightarrow> winx_patlist option" where
  "winx_patfree patterns =
     map_option (\<lambda>p. \<lparr>pat_count = 0, pat_array = [], pat_flags = 0, pat_string = None\<rparr>) patterns"

subsection \<open>Formatting\<close>

text \<open>
  \<open>_vsnprintf\<close> for the complete text \<open>t\<close> of a format and its arguments: -1 if it does not fit, and
  otherwise its length, the terminating zero being left out if there is no room for it.
\<close>

definition vsnprintf :: "u32 \<Rightarrow> 'a list \<Rightarrow> int \<times> 'a list" where
  "vsnprintf n t = (if length t \<le> unat n then (int (length t), t) else (-1, take (unat n) t))"

lemma unat_push_bit_1: "unat (push_bit 1 (x::u32)) = (2 * unat x) mod 2 ^ 32"
  by (simp add: unat_word_ariths mult.commute)

lemma doubled_positive:
  assumes "0 < sint (n :: u32)" "0 < sint (push_bit 1 n)"
  shows "unat (push_bit 1 n) = 2 * unat n \<and> 2 * unat n < 2 ^ 31 \<and> 0 < unat n"
  using assms unfolding sint_u32_pos unat_push_bit_1 by simp

function vsprintf_loop :: "(nat \<Rightarrow> bool) \<Rightarrow> nat \<Rightarrow> 'a list \<Rightarrow> u32 \<Rightarrow> 'a list option" where
  "vsprintf_loop tmalloc unit t n =
     (if \<not> tmalloc (unat n * unit) then None
      else
        let (result, buffer) = vsnprintf n t
        in if result \<noteq> -1 \<and> result \<noteq> sint n then Some buffer
           else if 0 < sint (push_bit 1 n) then vsprintf_loop tmalloc unit t (push_bit 1 n)
           else None)"
  by auto
termination
proof (relation "measure (\<lambda>(tmalloc, unit, t, n). if sint n \<le> 0 then 2 ^ 32 else 2 ^ 31 - unat n)", goal_cases)
  case (2 tmalloc unit t n x y)
  then show ?case using doubled_positive [of n] by auto
qed auto

declare vsprintf_loop.simps [simp del]

definition WINX_VSPRINTF_BUFFER_SIZE :: u32 where
  "WINX_VSPRINTF_BUFFER_SIZE = 128"

definition winx_vsprintf :: "(nat \<Rightarrow> bool) \<Rightarrow> string option \<Rightarrow> string option" where
  "winx_vsprintf tmalloc t = (case t of None \<Rightarrow> None | Some t \<Rightarrow> vsprintf_loop tmalloc 1 t WINX_VSPRINTF_BUFFER_SIZE)"

definition winx_vswprintf :: "(nat \<Rightarrow> bool) \<Rightarrow> wstring option \<Rightarrow> wstring option" where
  "winx_vswprintf tmalloc t = (case t of None \<Rightarrow> None | Some t \<Rightarrow> vsprintf_loop tmalloc 2 t WINX_VSPRINTF_BUFFER_SIZE)"

subsection \<open>UTF-8\<close>

text \<open>\<open>dst\<close> is what was written so far, so the index \<open>j\<close> is its length.\<close>

fun utf8_loop :: "int \<Rightarrow> wstring \<Rightarrow> u8 list \<Rightarrow> u8 list" where
  "utf8_loop sz [] dst = dst"
| "utf8_loop sz (c # src) dst =
     (let j = int (length dst)
      in if c < 0x80 then
           if j > sz - 2 then dst else utf8_loop sz src (dst @ [ucast c])
         else if c < 0x800 then
           if j > sz - 3 then dst
           else
             let b2 = 0x80 OR (c AND 0x3F);
                 c = drop_bit 6 c;
                 b1 = 0xC0 OR c
             in utf8_loop sz src (dst @ [ucast b1, ucast b2])
         else
           if j > sz - 4 then dst
           else
             let b3 = 0x80 OR (c AND 0x3F);
                 c = drop_bit 6 c;
                 b2 = 0x80 OR (c AND 0x3F);
                 c = drop_bit 6 c;
                 b1 = 0xE0 OR c
             in utf8_loop sz src (dst @ [ucast b1, ucast b2, ucast b3]))"

text \<open>The bytes before the terminating zero; \<open>None\<close> if the destination is left alone.\<close>

definition winx_to_utf8 :: "bool \<Rightarrow> int \<Rightarrow> wstring option \<Rightarrow> u8 list option" where
  "winx_to_utf8 dst sz src =
     (case src of None \<Rightarrow> None | Some src \<Rightarrow> if \<not> dst \<or> sz \<le> 0 then None else Some (utf8_loop sz src []))"

subsection \<open>Search\<close>

lemma match_rest_Nil: "match_rest f s1 s2 = [] \<longleftrightarrow> prefix (map f s2) (map f s1)"
  by (induction f s1 s2 rule: match_rest.induct) auto

lemma ex_Suc: "\<not> R 0 \<Longrightarrow> (\<exists>k. R k) \<longleftrightarrow> (\<exists>k. R (Suc k))"
  by (metis not0_implies_Suc)

lemma istr_loop_found:
  "istr_loop f s2 cp s1 = Some i \<longleftrightarrow>
     (\<exists>k. i = cp + k \<and> k < length s1 \<and> prefix (map f s2) (map f (drop k s1)) \<and>
       (\<forall>j < k. \<not> prefix (map f s2) (map f (drop j s1))))"
proof (induction s1 arbitrary: cp)
  case (Cons c s1)
  let ?P = "\<lambda>k. prefix (map f s2) (map f (drop k (c # s1)))"
  let ?R = "\<lambda>k. i = cp + k \<and> k < length (c # s1) \<and> ?P k \<and> (\<forall>j < k. \<not> ?P j)"
  show ?case
  proof (cases "?P 0")
    case True
    then have "istr_loop f s2 cp (c # s1) = Some cp" by (simp add: match_rest_Nil)
    moreover have "(\<exists>k. ?R k) \<longleftrightarrow> i = cp"
      using True by (auto intro!: exI [of _ 0] dest!: spec [of _ 0])
    ultimately show ?thesis by auto
  next
    case False
    then have e: "istr_loop f s2 cp (c # s1) = istr_loop f s2 (cp + 1) s1" by (simp add: match_rest_Nil)
    have "(\<exists>k. ?R k) \<longleftrightarrow> (\<exists>k. ?R (Suc k))" by (rule ex_Suc) (use False in simp)
    moreover have "?R (Suc k) \<longleftrightarrow> i = (cp + 1) + k \<and> k < length s1 \<and> prefix (map f s2) (map f (drop k s1)) \<and>
        (\<forall>j < k. \<not> prefix (map f s2) (map f (drop j s1)))" for k
      using False by (simp add: All_less_Suc2 del: All_less_Suc)
    ultimately show ?thesis unfolding e Cons.IH by simp
  qed
qed simp

lemma istr_loop_none:
  "istr_loop f s2 cp s1 = None \<longleftrightarrow> (\<forall>k < length s1. \<not> prefix (map f s2) (map f (drop k s1)))"
  by (induction s1 arbitrary: cp) (simp_all add: match_rest_Nil All_less_Suc2 del: All_less_Suc)


subsection \<open>What a mask means\<close>

text \<open>\<open>wild m s\<close>: the mask \<open>m\<close> matches the whole string \<open>s\<close>.\<close>

inductive wild :: "wstring \<Rightarrow> wstring \<Rightarrow> bool" where
  wild_end: "wild [] []"
| wild_any: "wild m s \<Longrightarrow> wild (question_mark # m) (c # s)"
| wild_char: "c \<noteq> asterisk \<Longrightarrow> c \<noteq> question_mark \<Longrightarrow> wild m s \<Longrightarrow> wild (c # m) (c # s)"
| wild_star: "wild m s \<Longrightarrow> wild (asterisk # m) (t @ s)"

inductive_simps wild_Nil: "wild [] s"
inductive_simps wild_Cons: "wild (c # m) s"

lemma wild_asterisk: "wild (asterisk # m) s \<longleftrightarrow> (\<exists>t. suffix t s \<and> wild m t)"
  by (auto simp: wild_Cons suffix_def)

lemma wild_asterisks: "wild (asterisk # asterisk # m) s \<longleftrightarrow> wild (asterisk # m) s"
  by (auto simp: wild_asterisk) (meson suffix_order.trans suffix_order.refl)+

lemma wild_skip: "wild (asterisk # m) s \<longleftrightarrow> wild (asterisk # dropWhile (\<lambda>c. c = asterisk) m) s"
  by (induction m) (auto simp: wild_asterisks)

lemma wild_all: "wild [asterisk] s"
  by (auto simp: wild_asterisk wild_Nil intro: exI [of _ "[]"])

lemma wild_empty: "wild m [] \<longleftrightarrow> dropWhile (\<lambda>c. c = asterisk) m = []"
  by (induction m) (auto simp: wild_Nil wild_Cons)

lemma set_tails: "t \<in> set (tails s) \<longleftrightarrow> t \<noteq> [] \<and> suffix t s"
  by (induction s) (auto simp: suffix_Cons)

text \<open>A mask that starts with a single character cannot match the empty string.\<close>

lemma wild_after_asterisk:
  assumes "hd m \<noteq> asterisk" "m \<noteq> []"
  shows "wild (asterisk # m) s \<longleftrightarrow> list_ex (\<lambda>t. wild m t) (tails s)"
proof -
  have "\<not> wild m []" using assms by (cases m) (simp_all add: wild_empty)
  then show ?thesis by (auto simp: wild_asterisk list_ex_iff set_tails)
qed

lemma wild_first: "wild (c # m) s \<Longrightarrow> c \<noteq> asterisk \<Longrightarrow> c \<noteq> question_mark \<Longrightarrow> hd s = c"
  by (auto simp: wild_Cons)

lemma wcsmatch_helper_wild:
  "asterisk \<notin> set str \<Longrightarrow> wcsmatch_helper str msk \<longleftrightarrow> wild msk str"
proof (induction str msk rule: wcsmatch_helper.induct)
  case (1 str msk)
  let ?m = "dropWhile (\<lambda>c. c = asterisk) msk"
  have tl: "asterisk \<notin> set t" if "t \<in> set (tails str)" for t
    using that "1.prems" by (auto simp: set_tails dest: set_mono_suffix)
  show ?case
  proof (cases "str \<noteq> [] \<and> msk \<noteq> []")
    case False
    then show ?thesis by (subst wcsmatch_helper.simps) (auto simp: wild_empty wild_Nil)
  next
    case True
    then obtain cs s cm m where s: "str = cs # s" "msk = cm # m" by (auto simp: neq_Nil_conv)
    consider "cs \<noteq> cm" "cm \<noteq> question_mark" "cm \<noteq> asterisk" | "cm = asterisk" "?m = []"
      | "cm = asterisk" "?m \<noteq> []" | "cs = cm \<or> cm = question_mark" "cm \<noteq> asterisk"
      by blast
    then show ?thesis
    proof cases
      case 1
      then show ?thesis using s by (subst wcsmatch_helper.simps) (auto simp: Let_def wild_Cons)
    next
      case 2
      then have e: "dropWhile (\<lambda>c. c = asterisk) m = []" using s by simp
      have "wild msk str" using wild_all [of str] 2(1) s(2) wild_skip [of m str, unfolded e] by simp
      then show ?thesis using 2 s "1.prems" by (subst wcsmatch_helper.simps) (auto simp: Let_def)
    next
      case 3
      then have n: "cs \<noteq> cm" "hd ?m \<noteq> asterisk" using s "1.prems" hd_dropWhile [OF 3(2)] by auto
      have w: "wild msk str \<longleftrightarrow> list_ex (\<lambda>t. wild ?m t) (tails str)"
        using wild_skip [of m str] wild_after_asterisk [OF n(2) 3(2)] 3(1) s by simp
      have ih: "wcsmatch_helper t ?m \<longleftrightarrow> wild ?m t"
        if "t \<in> set (tails str)" "hd ?m = question_mark \<or> hd t = hd ?m" for t
        using "1.IH"(1,2) [OF True refl refl _ _ refl 3(2)] 3 n s tl that by auto
      have first: "hd t = hd ?m" if "wild ?m t" "hd ?m \<noteq> question_mark" for t
        using that n(2) 3(2) wild_first [of "hd ?m" "tl ?m" t] by simp
      have "wcsmatch_helper str msk \<longleftrightarrow>
          (if hd ?m = question_mark then list_ex (\<lambda>t. wcsmatch_helper t ?m) (tails str)
           else list_ex (\<lambda>t. hd t = hd ?m \<and> wcsmatch_helper t ?m) (tails str))"
        using 3 n(1) s by (subst wcsmatch_helper.simps) (auto simp: Let_def)
      also have "\<dots> \<longleftrightarrow> list_ex (\<lambda>t. wild ?m t) (tails str)"
        using ih first by (auto simp: list_ex_iff)
      finally show ?thesis using w by simp
    next
      case 4
      then have "wcsmatch_helper str msk \<longleftrightarrow> wcsmatch_helper s m"
        using s by (subst wcsmatch_helper.simps) (auto simp: Let_def)
      moreover have "wcsmatch_helper s m \<longleftrightarrow> wild m s"
        using "1.IH"(3) [OF True refl refl] 4 s "1.prems" by auto
      moreover have "wild msk str \<longleftrightarrow> wild m s" using 4 s by (auto simp: wild_Cons)
      ultimately show ?thesis by simp
    qed
  qed
qed

text \<open>Without regard to case, the converted string is matched against the converted mask.\<close>

lemma lower_asterisk: "winx_towlower c = asterisk \<longleftrightarrow> c = asterisk"
  by (rule towlower_small) simp

lemma lower_question: "winx_towlower c = question_mark \<longleftrightarrow> c = question_mark"
  by (rule towlower_small) simp

lemma tails_map: "tails (map f s) = map (map f) (tails s)"
  by (induction s) auto

lemma dropWhile_lower:
  "dropWhile (\<lambda>c. c = asterisk) (map winx_towlower m) = map winx_towlower (dropWhile (\<lambda>c. c = asterisk) m)"
  by (simp add: dropWhile_map comp_def lower_asterisk)

lemma wcsmatch_icase_folds:
  "wcsmatch_icase_helper str msk \<longleftrightarrow> wcsmatch_helper (map winx_towlower str) (map winx_towlower msk)"
proof (induction str msk rule: wcsmatch_icase_helper.induct)
  case (1 str msk)
  let ?m = "dropWhile (\<lambda>c. c = asterisk) msk"
  show ?case
  proof (cases "str \<noteq> [] \<and> msk \<noteq> []")
    case False
    then show ?thesis
      by (subst wcsmatch_helper.simps, subst wcsmatch_icase_helper.simps) (auto simp: dropWhile_lower)
  next
    case True
    note ne = this
    let ?cs = "winx_towlower (hd str)" and ?cm = "winx_towlower (hd msk)"
    have n: "t \<in> set (tails str) \<Longrightarrow> t \<noteq> []" for t by (simp add: set_tails)
    show ?thesis
    proof (cases "?cs \<noteq> ?cm \<and> ?cm \<noteq> question_mark \<and> ?cm = asterisk \<and> ?m \<noteq> []")
      case True
      note c = this
      have h: "hd (map winx_towlower ?m) = winx_towlower (hd ?m)" using c by (simp add: hd_map)
      have ih: "wcsmatch_icase_helper t ?m \<longleftrightarrow> wcsmatch_helper (map winx_towlower t) (map winx_towlower ?m)"
        if "t \<in> set (tails str)" for t
        using "1.IH"(1,2) [OF ne refl refl _ _ refl _ refl] c that
        by (cases "winx_towlower (hd ?m) = question_mark") auto
      have "wcsmatch_icase_helper str msk \<longleftrightarrow>
          (if winx_towlower (hd ?m) = question_mark then list_ex (\<lambda>t. wcsmatch_icase_helper t ?m) (tails str)
           else list_ex (\<lambda>t. winx_towlower (hd t) = winx_towlower (hd ?m) \<and> wcsmatch_icase_helper t ?m) (tails str))"
        using c ne by (subst wcsmatch_icase_helper.simps) (auto simp: Let_def)
      also have "\<dots> \<longleftrightarrow>
          (if hd (map winx_towlower ?m) = question_mark
           then list_ex (\<lambda>t. wcsmatch_helper t (map winx_towlower ?m)) (tails (map winx_towlower str))
           else list_ex (\<lambda>t. hd t = hd (map winx_towlower ?m) \<and> wcsmatch_helper t (map winx_towlower ?m))
             (tails (map winx_towlower str)))"
        using ih n unfolding h by (auto simp: list_ex_iff tails_map hd_map)
      also have "\<dots> \<longleftrightarrow> wcsmatch_helper (map winx_towlower str) (map winx_towlower msk)"
        using c ne by (subst (3) wcsmatch_helper.simps) (auto simp: Let_def hd_map dropWhile_lower)
      finally show ?thesis .
    next
      case False
      then show ?thesis using ne "1.IH"(3) [OF ne refl refl]
        by (subst wcsmatch_helper.simps, subst wcsmatch_icase_helper.simps)
          (auto simp: dropWhile_lower Let_def hd_map map_tl)
    qed
  qed
qed


subsection \<open>Patterns\<close>

text \<open>The maximal pieces of a string without a delimiter.\<close>

fun pieces :: "u16 set \<Rightarrow> wstring \<Rightarrow> wstring list" where
  "pieces D [] = [[]]"
| "pieces D (c # s) =
     (if c \<in> D then [] # pieces D s else (c # hd (pieces D s)) # tl (pieces D s))"

definition tokens :: "u16 set \<Rightarrow> wstring \<Rightarrow> wstring list" where
  "tokens D s = filter (\<lambda>t. t \<noteq> []) (pieces D s)"

lemma pieces_ne [simp]: "pieces D s \<noteq> []"
  by (cases s) auto

text \<open>The patterns found from offset \<open>i\<close> on, \<open>d\<close> telling whether \<open>i\<close> is inside a pattern.\<close>

definition offsets_mean :: "u16 list \<Rightarrow> nat list \<Rightarrow> wstring list" where
  "offsets_mean s = map (\<lambda>i. takeWhile (\<lambda>c. c \<noteq> 0) (drop i s))"

definition blanked :: "wstring \<Rightarrow> wstring \<Rightarrow> u16 list" where
  "blanked delim s = map (\<lambda>c. if c \<in> set delim then 0 else c) s"

definition tokens_from :: "u16 set \<Rightarrow> bool \<Rightarrow> wstring \<Rightarrow> wstring list" where
  "tokens_from D d s = (if d then filter (\<lambda>t. t \<noteq> []) (tl (pieces D s)) else tokens D s)"

lemma tokens_from_simps:
  "tokens_from D d [] = []"
  "c \<in> D \<Longrightarrow> tokens_from D d (c # s) = tokens_from D False s"
  "c \<notin> D \<Longrightarrow> tokens_from D True (c # s) = tokens_from D True s"
  "c \<notin> D \<Longrightarrow> tokens_from D False (c # s) = (c # hd (pieces D s)) # tokens_from D True s"
  by (auto simp: tokens_from_def tokens_def)

lemma count_patterns_tokens:
  "0 \<notin> set s \<Longrightarrow> count_patterns (blanked delim s) d n = n + length (tokens_from (set delim) d s)"
  by (induction s arbitrary: d n; case_tac d) (auto simp: blanked_def tokens_from_simps)

lemma takeWhile_blanked:
  "0 \<notin> set s \<Longrightarrow> takeWhile (\<lambda>c. c \<noteq> 0) (blanked delim s) = hd (pieces (set delim) s)"
  by (induction s) (auto simp: blanked_def)

lemma build_array_tokens:
  assumes "0 \<notin> set s" "length arr + length (tokens_from (set delim) d s) \<le> sz"
    "drop i full = blanked delim s" "i + length s = length full"
  shows "\<exists>as. build_array sz (blanked delim s) i d arr = Some (arr @ as) \<and>
    offsets_mean full as = tokens_from (set delim) d s"
  using assms
proof (induction s arbitrary: d arr i)
  case Nil
  then show ?case by (simp add: blanked_def offsets_mean_def tokens_from_simps)
next
  case (Cons c s)
  have dr: "drop (i + 1) full = blanked delim s" "i + 1 + length s = length full"
    using Cons.prems(3,4) by (auto simp: blanked_def drop_Suc [symmetric] tl_drop dest: arg_cong [of _ _ tl])
  have z: "0 \<notin> set s" using Cons.prems(1) by simp
  show ?case
  proof (cases "c \<in> set delim")
    case True
    then show ?thesis using Cons.IH [OF z _ dr, of arr False] Cons.prems(2)
      by (simp add: blanked_def tokens_from_simps)
  next
    case False
    note out = this
    show ?thesis
    proof (cases d)
      case True
      then show ?thesis using out Cons.IH [OF z _ dr, of arr True] Cons.prems(1,2)
        by (simp add: blanked_def tokens_from_simps)
    next
      case False
      then obtain as where as: "build_array sz (blanked delim s) (i + 1) True ((arr @ [i])) = Some ((arr @ [i]) @ as)"
        "offsets_mean full as = tokens_from (set delim) True s"
        using out Cons.IH [OF z _ dr, of "arr @ [i]" True] Cons.prems(1,2) by (auto simp: tokens_from_simps)
      have "takeWhile (\<lambda>c. c \<noteq> 0) (drop i full) = c # hd (pieces (set delim) s)"
        using Cons.prems(1,3) out takeWhile_blanked [OF Cons.prems(1), of delim] by simp
      then show ?thesis using as out False Cons.prems(1,2)
        by (intro exI [of _ "i # as"]) (simp add: blanked_def tokens_from_simps offsets_mean_def)
    qed
  qed
qed

subsection \<open>Decoding UTF-8\<close>

fun utf8_decode :: "u8 list \<Rightarrow> wstring option" where
  "utf8_decode [] = Some []"
| "utf8_decode (b1 # bs) =
     (if b1 < 0x80 then map_option ((#) (ucast b1)) (utf8_decode bs)
      else if b1 < 0xE0 then
        case bs of
          b2 # bs \<Rightarrow> map_option ((#) (of_nat ((unat b1 - 0xC0) * 64 + (unat b2 - 0x80)))) (utf8_decode bs)
        | _ \<Rightarrow> None
      else
        case bs of
          b2 # b3 # bs \<Rightarrow>
            map_option ((#) (of_nat ((unat b1 - 0xE0) * 4096 + (unat b2 - 0x80) * 64 + (unat b3 - 0x80)))) (utf8_decode bs)
        | _ \<Rightarrow> None)"

text \<open>The bytes of one character.\<close>

definition utf8_char :: "u16 \<Rightarrow> u8 list" where
  "utf8_char c =
     (if c < 0x80 then [ucast c]
      else if c < 0x800 then [ucast (0xC0 OR drop_bit 6 c), ucast (0x80 OR (c AND 0x3F))]
      else [ucast (0xE0 OR drop_bit 12 c), ucast (0x80 OR (drop_bit 6 c AND 0x3F)), ucast (0x80 OR (c AND 0x3F))])"

lemma drop_bit_6_6: "drop_bit 6 (drop_bit 6 c) = drop_bit 12 (c :: u16)"
  by (simp add: drop_bit_drop_bit)

lemma utf8_loop_step:
  "utf8_loop sz (c # src) dst =
     (if int (length dst) + int (length (utf8_char c)) + 1 > sz then dst
      else utf8_loop sz src (dst @ utf8_char c))"
  by (simp add: utf8_char_def Let_def drop_bit_6_6)

lemma or_plus:
  assumes "take_bit k a = 0" "take_bit k x = (x :: u16)"
  shows "a OR x = a + x"
proof (rule disjunctive_add [symmetric])
  fix n
  have "\<not> bit a n" if "n < k" using arg_cong [OF assms(1), of "\<lambda>w. bit w n"] that by (simp add: bit_take_bit_iff)
  moreover have "\<not> bit x n" if "\<not> n < k" using arg_cong [OF assms(2), of "\<lambda>w. bit w n"] that by (simp add: bit_take_bit_iff)
  ultimately show "\<not> bit a n \<or> \<not> bit x n" by blast
qed

lemma and_63: "(c :: u16) AND 0x3F = take_bit 6 c"
  by (simp add: take_bit_eq_mask mask_eq_exp_minus_1)

lemma unat_u16: "unat (c :: u16) < 65536"
  using unsigned_less [of c] by simp

lemma unat_ucast_u8: "unat (ucast (c :: u16) :: u8) = unat c mod 256"
  by (simp add: unsigned_ucast_eq take_bit_eq_mod)

lemma tail_byte: "unat (ucast (0x80 OR (c AND 0x3F) :: u16) :: u8) = 128 + unat (c :: u16) mod 64"
proof -
  have "0x80 OR take_bit 6 c = 0x80 + take_bit 6 c" by (rule or_plus [of 6]) simp_all
  moreover have "unat (take_bit 6 c) = unat c mod 64" by (simp add: take_bit_eq_mod unat_mod)
  ultimately show ?thesis by (simp add: and_63 unat_ucast_u8 unat_word_ariths)
qed

lemma head_byte:
  assumes "take_bit k a = (0 :: u16)" "unat c div 2 ^ m < 2 ^ k" "unat a + 2 ^ k \<le> 256"
  shows "unat (ucast (a OR drop_bit m (c :: u16)) :: u8) = unat a + unat c div 2 ^ m"
proof -
  have d: "unat (drop_bit m c) = unat c div 2 ^ m"
    unfolding unat_drop_bit_eq by (simp add: drop_bit_eq_div)
  have "take_bit k (drop_bit m c) = drop_bit m c"
    using assms(2) by (simp add: word_unat_eq_iff unsigned_take_bit_eq d take_bit_nat_eq_self)
  then have "a OR drop_bit m c = a + drop_bit m c" by (rule or_plus [OF assms(1)])
  then show ?thesis using assms(2,3) d by (simp add: unat_ucast_u8 unat_word_ariths)
qed

lemma base_64: "(n div 4096) * 4096 + (n div 64 mod 64) * 64 + n mod 64 = (n :: nat)"
proof -
  have "n div 4096 = n div 64 div 64" by (simp add: div_mult2_eq [symmetric])
  then have "(n div 4096) * 4096 + (n div 64 mod 64) * 64 = (n div 64 div 64 * 64 + n div 64 mod 64) * 64"
    by (simp only: add_mult_distrib mult.assoc)
  then show ?thesis by simp
qed

lemma utf8_decode_char: "utf8_decode (utf8_char c @ bs) = map_option ((#) c) (utf8_decode bs)"
proof -
  consider "unat c < 0x80" | "0x80 \<le> unat c" "unat c < 0x800" | "0x800 \<le> unat c" by linarith
  then show ?thesis
  proof cases
    case 1
    then have u: "unat (ucast c :: u8) = unat c" by (simp add: unat_ucast_u8)
    then have "ucast (ucast c :: u8) = c" by (simp add: word_unat_eq_iff unsigned_ucast_eq take_bit_eq_mod unat_mod)
    then show ?thesis using 1 u by (simp add: utf8_char_def word_less_nat_alt)
  next
    case 2
    let ?b1 = "ucast (0xC0 OR drop_bit 6 c) :: u8" and ?b2 = "ucast (0x80 OR (c AND 0x3F)) :: u8"
    have b1: "unat ?b1 = 192 + unat c div 64"
      using head_byte [of 5 "0xC0" c 6] 2 by simp
    have e: "(unat ?b1 - 0xC0) * 64 + (unat ?b2 - 0x80) = unat c"
      unfolding b1 tail_byte by simp
    have "of_nat ((unat ?b1 - 0xC0) * 64 + (unat ?b2 - 0x80)) = c" unfolding e by simp
    moreover have "utf8_char c = [?b1, ?b2]" using 2 by (simp add: utf8_char_def word_less_nat_alt)
    moreover have "\<not> ?b1 < 0x80" "?b1 < 0xE0" using b1 2 by (simp_all add: word_less_nat_alt)
    ultimately show ?thesis by (simp del: of_nat_add of_nat_mult)
  next
    case 3
    let ?b1 = "ucast (0xE0 OR drop_bit 12 c) :: u8" and ?b2 = "ucast (0x80 OR (drop_bit 6 c AND 0x3F)) :: u8"
      and ?b3 = "ucast (0x80 OR (c AND 0x3F)) :: u8"
    have b1: "unat ?b1 = 224 + unat c div 4096"
      using head_byte [of 4 "0xE0" c 12] unat_u16 [of c] by simp
    have b2: "unat ?b2 = 128 + unat c div 64 mod 64"
      unfolding tail_byte unat_drop_bit_eq by (simp add: drop_bit_eq_div)
    have e: "(unat ?b1 - 0xE0) * 4096 + (unat ?b2 - 0x80) * 64 + (unat ?b3 - 0x80) = unat c"
      unfolding b1 b2 tail_byte [of c] using base_64 [of "unat c"] by simp
    have "of_nat ((unat ?b1 - 0xE0) * 4096 + (unat ?b2 - 0x80) * 64 + (unat ?b3 - 0x80)) = c" unfolding e by simp
    moreover have "utf8_char c = [?b1, ?b2, ?b3]" using 3 by (simp add: utf8_char_def word_less_nat_alt)
    moreover have "\<not> ?b1 < 0x80" "\<not> ?b1 < 0xE0" using b1 by (simp_all add: word_less_nat_alt)
    ultimately show ?thesis by (simp del: of_nat_add of_nat_mult)
  qed
qed

lemma utf8_decode_concat: "utf8_decode (concat (map utf8_char s)) = Some s"
  by (induction s) (simp_all add: utf8_decode_char)

lemma utf8_loop_prefix:
  "\<exists>p. prefix p src \<and> utf8_loop sz src dst = dst @ concat (map utf8_char p) \<and>
    (int (length dst) < sz \<longrightarrow> int (length (dst @ concat (map utf8_char p))) < sz) \<and>
    (int (length (dst @ concat (map utf8_char src))) < sz \<longrightarrow> p = src)"
proof (induction src arbitrary: dst)
  case (Cons c src)
  show ?case
  proof (cases "int (length dst) + int (length (utf8_char c)) + 1 > sz")
    case True
    then show ?thesis by (intro exI [of _ "[]"]) (simp add: utf8_loop_step del: utf8_loop.simps)
  next
    case False
    from Cons.IH [of "dst @ utf8_char c"] obtain p where p: "prefix p src"
      "utf8_loop sz src (dst @ utf8_char c) = (dst @ utf8_char c) @ concat (map utf8_char p)"
      "int (length (dst @ utf8_char c)) < sz \<longrightarrow> int (length ((dst @ utf8_char c) @ concat (map utf8_char p))) < sz"
      "int (length ((dst @ utf8_char c) @ concat (map utf8_char src))) < sz \<longrightarrow> p = src"
      by blast
    show ?thesis using False p
      by (intro exI [of _ "c # p"]) (simp add: utf8_loop_step del: utf8_loop.simps)
  qed
qed simp

lemma utf8_char_length: "length (utf8_char c) \<le> 3"
  by (simp add: utf8_char_def)

lemma utf8_length: "length (concat (map utf8_char s)) \<le> 3 * length s"
proof (induction s)
  case (Cons c s)
  then show ?case using utf8_char_length [of c] by simp
qed simp

subsection \<open>Formatting\<close>

lemma vsprintf_loop_complete:
  assumes "\<And>n. tmalloc n" "unat n = 2 ^ k" "k \<le> 30"
  shows "vsprintf_loop tmalloc unit t n = (if length t < 2 ^ 30 then Some t else None)"
  using assms(2,3)
proof (induction "30 - k" arbitrary: k n)
  case 0
  then have k: "unat n = 2 ^ 30" by simp
  then have "unat (push_bit 1 n) = 2 ^ 31" unfolding unat_push_bit_1 by simp
  then have "\<not> 0 < sint (push_bit 1 n)" unfolding sint_u32_pos by simp
  moreover have "sint n = 2 ^ 30" unfolding sint_u32 k by simp
  ultimately have n: "unat n = 2 ^ 30" "sint n = 2 ^ 30" "\<not> 0 < sint (push_bit 1 n)" using k by auto
  show ?case by (subst vsprintf_loop.simps) (use n assms(1) in \<open>auto simp: vsnprintf_def\<close>)
next
  case (Suc d)
  then have k: "k < 30" by simp
  then have lt: "(2 :: nat) ^ Suc k \<le> 2 ^ 30" by (intro power_increasing) auto
  then have n: "sint n = 2 ^ k" "unat (push_bit 1 n) = 2 ^ Suc k"
    using Suc.prems(1) unfolding sint_u32 unat_push_bit_1 by simp_all
  have p: "0 < sint (push_bit 1 n)" using n(2) lt by (simp add: sint_u32_pos)
  have ih: "vsprintf_loop tmalloc unit t (push_bit 1 n) = (if length t < 2 ^ 30 then Some t else None)"
    using Suc.hyps(1) [OF _ n(2)] Suc.hyps(2) k by simp
  have "length t < 2 ^ k \<Longrightarrow> length t < 2 ^ 30" using lt by simp
  then show ?case
    by (subst vsprintf_loop.simps) (use n(1) Suc.prems(1) p ih assms(1) in \<open>auto simp: vsnprintf_def\<close>)
qed

lemma winx_vsprintf_complete:
  "(\<And>n. tmalloc n) \<Longrightarrow> length t < 2 ^ 30 \<Longrightarrow> winx_vsprintf tmalloc (Some t) = Some t"
  using vsprintf_loop_complete [of tmalloc WINX_VSPRINTF_BUFFER_SIZE 7 1 t]
  by (simp add: winx_vsprintf_def WINX_VSPRINTF_BUFFER_SIZE_def)

subsection \<open>Comparison\<close>

lemma u16_difference: "int (unat (a :: u16)) - int (unat b) = 0 \<longleftrightarrow> a = b"
  by (simp add: word_unat_eq_iff del: of_nat_unat)

lemma towlower_0 [simp]: "winx_towlower 0 = 0"
  by simp

lemma wcsicmp_loop_zero: "0 \<notin> set s1 \<Longrightarrow> wcsicmp_loop s1 s2 = 0 \<longleftrightarrow> map winx_towlower s1 = map winx_towlower s2"
  if "0 \<notin> set s2"
  using that
proof (induction s1 s2 rule: wcsicmp_loop.induct)
  case (1 s1 s2)
  show ?case
  proof (cases s1)
    case Nil
    then show ?thesis using "1.prems"
      by (cases s2; subst wcsicmp_loop.simps) (auto simp: at0_def Let_def u16_difference unat_gt_0 simp del: of_nat_unat)
  next
    case (Cons c cs)
    show ?thesis
    proof (cases s2)
      case Nil
      then show ?thesis using Cons "1.prems"
        by (subst wcsicmp_loop.simps) (auto simp: at0_def Let_def u16_difference unat_gt_0 simp del: of_nat_unat)
    next
      case s2: (Cons d ds)
      show ?thesis
      proof (cases "winx_towlower c = winx_towlower d")
        case True
        then have "wcsicmp_loop s1 s2 = wcsicmp_loop cs ds" using Cons s2 "1.prems"
          by (subst wcsicmp_loop.simps) (simp add: at0_def)
        moreover have "wcsicmp_loop cs ds = 0 \<longleftrightarrow> map winx_towlower cs = map winx_towlower ds"
          using "1.IH" [OF refl _ Cons] Cons s2 "1.prems" True by (simp add: at0_def)
        ultimately show ?thesis using Cons s2 True by simp
      next
        case False
        then have "unat (winx_towlower c) \<noteq> unat (winx_towlower d)" by (simp add: word_unat_eq_iff)
        then show ?thesis using Cons s2 False
          by (subst wcsicmp_loop.simps) (auto simp: at0_def Let_def simp del: of_nat_unat)
      qed
    qed
  qed
qed

subsection \<open>Properties\<close>

text \<open>
  C25: a string matches a mask exactly if the mask describes it, where a question mark stands for one
  character and an asterisk for any sequence; with \<open>WINX_PAT_ICASE\<close> letters are compared without regard
  to case. The string must not contain an asterisk itself, which no file name can.
\<close>

theorem wcsmatch_decides:
  assumes "asterisk \<notin> set str"
  shows "winx_wcsmatch (Some str) (Some msk) flags \<longleftrightarrow>
    (if flags AND WINX_PAT_ICASE \<noteq> 0 then wild (map winx_towlower msk) (map winx_towlower str) else wild msk str)"
proof -
  have "asterisk \<notin> set (map winx_towlower str)"
    using assms towlower_small [of asterisk] by auto
  moreover have "winx_towlower asterisk = asterisk" using towlower_small [of asterisk asterisk] by simp
  ultimately show ?thesis using assms
    by (simp add: winx_wcsmatch_def wcsmatch_helper_wild wcsmatch_icase_folds wild_all)
qed

theorem wcsmatch_decides_witness:
  "winx_wcsmatch (Some (wstr ''page.sys'')) (Some (wstr ''p*.?ys'')) 0 \<longleftrightarrow> wild (wstr ''p*.?ys'') (wstr ''page.sys'')"
  using wcsmatch_decides [of "wstr ''page.sys''" "wstr ''p*.?ys''" 0] by (simp add: wstr_def)

text \<open>
  C27: compiling a string of patterns finds exactly its maximal pieces without a delimiter, in order,
  and never writes behind the array that was allocated for them.
\<close>

theorem patcomp_tokens:
  assumes "0 \<notin> set str" "str \<noteq> []" "tmalloc ((length str + 1) * 2)"
  shows "\<exists>p. winx_patcomp tmalloc (Some str) (Some delim) flags = Some (0, Some p) \<and> pat_flags p = flags \<and>
    map (pattern_at p) [0..<pat_count p] = tokens (set delim) str"
proof -
  let ?s = "blanked delim str" and ?n = "length (tokens (set delim) str)"
  have n: "count_patterns ?s False 0 = ?n"
    using count_patterns_tokens [OF assms(1), of delim False 0] by (simp add: tokens_from_def)
  obtain as where as: "build_array ?n ?s 0 False [] = Some as" "offsets_mean ?s as = tokens (set delim) str"
    using build_array_tokens [OF assms(1), of "[]" delim False ?n 0 ?s] by (auto simp: tokens_from_def blanked_def)
  define p where "p = \<lparr>pat_count = ?n, pat_array = as, pat_flags = flags, pat_string = Some ?s\<rparr>"
  have len: "length as = ?n" using arg_cong [OF as(2), of length] by (simp add: offsets_mean_def)
  have "winx_patcomp tmalloc (Some str) (Some delim) flags = Some (0, Some p)"
    using assms(2,3) n as(1) by (simp add: winx_patcomp_def winx_wcsdup_def p_def blanked_def [symmetric])
  moreover have "map (pattern_at p) [0..<pat_count p] = offsets_mean ?s as"
    by (rule nth_equalityI) (simp_all add: p_def pattern_at_def offsets_mean_def len)
  ultimately show ?thesis using as(2) by (simp add: p_def)
qed

theorem patcomp_tokens_witness:
  "\<exists>p. winx_patcomp (\<lambda>n. True) (Some (wstr ''a;;bc'')) (Some (wstr '';'')) 1 = Some (0, Some p) \<and>
    map (pattern_at p) [0..<pat_count p] = [wstr ''a'', wstr ''bc'']"
  using patcomp_tokens [of "wstr ''a;;bc''" "\<lambda>n. True" "wstr '';''" 1]
  by (auto simp: wstr_def tokens_def)

text \<open>
  C26: \<open>winx_to_utf8\<close> never writes behind the buffer; what it writes decodes to a prefix of the source,
  and to all of it if the buffer has three bytes for each character and one for the end.
\<close>

theorem utf8_roundtrip:
  assumes "0 < sz"
  shows "\<exists>dst p. winx_to_utf8 True sz (Some src) = Some dst \<and> int (length dst) < sz \<and>
    utf8_decode dst = Some p \<and> prefix p src \<and> (3 * int (length src) < sz \<longrightarrow> p = src)"
proof -
  obtain p where p: "prefix p src" "utf8_loop sz src [] = concat (map utf8_char p)"
    "int (length (concat (map utf8_char p))) < sz" "int (length (concat (map utf8_char src))) < sz \<longrightarrow> p = src"
    using utf8_loop_prefix [of src sz "[]"] assms by auto
  have "int (length (concat (map utf8_char src))) \<le> 3 * int (length src)"
    using utf8_length [of src] by linarith
  then show ?thesis using p assms
    by (intro exI [of _ "concat (map utf8_char p)"] exI [of _ p]) (auto simp: winx_to_utf8_def utf8_decode_concat)
qed

theorem utf8_roundtrip_witness:
  "\<exists>dst. winx_to_utf8 True 10 (Some [0x41, 0xE9, 0x20AC]) = Some dst \<and> utf8_decode dst = Some [0x41, 0xE9, 0x20AC]"
  using utf8_roundtrip [of 10 "[0x41, 0xE9, 0x20AC]"] by auto

end
