(* ===== verification/Nt_Kernel.thy ===== *)
theory Nt_Kernel
  imports Volume_Scan File_Info Winx_String
begin

unbundle bit_operations_syntax

text \<open>
  The native interface of the system that \<open>zenwinx\<close> calls, and the opening of files for
  defragmentation (\<open>winx_defrag_fopen\<close> in \<open>zenwinx/src/zenwinx/file.c\<close>).

  The system is outside the sources: each call is a field of the record \<open>nt\<close>, a function of its
  arguments and of the state \<open>'w\<close> of the outside world, which it returns as it leaves it. Nothing is
  assumed about these functions here; what a property needs of them is stated with it. Waiting for
  the completion of a request is part of the call: the two statuses of an answer are the one
  returned by the call and the one stored in the \<open>IO_STATUS_BLOCK\<close> on completion.
\<close>

type_synonym handle = nat

record create_request =
  cr_path :: wstring
  cr_access :: u32
  cr_object_attributes :: u32
  cr_file_attributes :: u32
  cr_share :: u32
  cr_disposition :: u32
  cr_options :: u32

record 'w nt =
  NtCreateFile :: "create_request \<Rightarrow> 'w \<Rightarrow> (u32 \<times> handle) \<times> 'w"
  NtClose :: "handle \<Rightarrow> 'w \<Rightarrow> 'w"
  RtlGetVersion :: "u32 \<times> u32"

subsection \<open>Constants\<close>

definition STATUS_NO_MORE_FILES :: u32 where "STATUS_NO_MORE_FILES = 0x80000006"
definition STATUS_INVALID_PARAMETER :: u32 where "STATUS_INVALID_PARAMETER = 0xC000000D"
definition STATUS_END_OF_FILE :: u32 where "STATUS_END_OF_FILE = 0xC0000011"
definition STATUS_ALREADY_COMMITTED :: u32 where "STATUS_ALREADY_COMMITTED = 0xC0000021"
definition STATUS_OBJECT_NAME_COLLISION :: u32 where "STATUS_OBJECT_NAME_COLLISION = 0xC0000035"

definition FILE_OPEN :: u32 where "FILE_OPEN = 1"
definition FILE_CREATE :: u32 where "FILE_CREATE = 2"
definition FILE_OPEN_IF :: u32 where "FILE_OPEN_IF = 3"
definition FILE_OVERWRITE_IF :: u32 where "FILE_OVERWRITE_IF = 5"
definition FILE_SYNCHRONOUS_IO_NONALERT :: u32 where "FILE_SYNCHRONOUS_IO_NONALERT = 0x20"
definition FILE_OPEN_FOR_BACKUP_INTENT :: u32 where "FILE_OPEN_FOR_BACKUP_INTENT = 0x4000"
definition FILE_NON_DIRECTORY_FILE :: u32 where "FILE_NON_DIRECTORY_FILE = 0x40"
definition FILE_NO_INTERMEDIATE_BUFFERING :: u32 where "FILE_NO_INTERMEDIATE_BUFFERING = 8"
definition FILE_OPEN_REPARSE_POINT :: u32 where "FILE_OPEN_REPARSE_POINT = 0x200000"
definition FILE_DIRECTORY_FILE :: u32 where "FILE_DIRECTORY_FILE = 1"
definition FILE_RESERVE_OPFILTER :: u32 where "FILE_RESERVE_OPFILTER = 0x100000"
definition OBJ_CASE_INSENSITIVE :: u32 where "OBJ_CASE_INSENSITIVE = 0x40"

definition SYNCHRONIZE :: u32 where "SYNCHRONIZE = 0x100000"
definition FILE_LIST_DIRECTORY :: u32 where "FILE_LIST_DIRECTORY = 1"
definition FILE_APPEND_DATA :: u32 where "FILE_APPEND_DATA = 4"
definition FILE_READ_ATTRIBUTES :: u32 where "FILE_READ_ATTRIBUTES = 0x80"
definition FILE_GENERIC_READ :: u32 where "FILE_GENERIC_READ = 0x120089"
definition FILE_GENERIC_WRITE :: u32 where "FILE_GENERIC_WRITE = 0x120116"
definition FILE_SHARE_READ :: u32 where "FILE_SHARE_READ = 1"
definition FILE_SHARE_WRITE :: u32 where "FILE_SHARE_WRITE = 2"
definition FILE_SHARE_DELETE :: u32 where "FILE_SHARE_DELETE = 4"
definition FILE_ATTRIBUTE_DIRECTORY :: u32 where "FILE_ATTRIBUTE_DIRECTORY = 0x10"
definition FILE_ATTRIBUTE_NORMAL :: u32 where "FILE_ATTRIBUTE_NORMAL = 0x80"
definition FILE_ATTRIBUTE_REPARSE_POINT :: u32 where "FILE_ATTRIBUTE_REPARSE_POINT = 0x400"

subsection \<open>Opening a file for defragmentation\<close>

definition WINX_OPEN_FOR_DUMP :: u32 where "WINX_OPEN_FOR_DUMP = 1"
definition WINX_OPEN_FOR_BASIC_INFO :: u32 where "WINX_OPEN_FOR_BASIC_INFO = 2"
definition WINX_OPEN_FOR_MOVE :: u32 where "WINX_OPEN_FOR_MOVE = 4"

definition WINDOWS_VISTA :: u32 where "WINDOWS_VISTA = 60"

definition winx_get_os_version :: "('w, 'z) nt_scheme \<Rightarrow> u32" where
  "winx_get_os_version nt = fst (RtlGetVersion nt) * 10 + snd (RtlGetVersion nt)"

definition is_directory :: "winx_file_info \<Rightarrow> bool" where
  "is_directory f \<longleftrightarrow> f_flags f AND FILE_ATTRIBUTE_DIRECTORY \<noteq> 0"

definition is_reparse_point :: "winx_file_info \<Rightarrow> bool" where
  "is_reparse_point f \<longleftrightarrow> f_flags f AND FILE_ATTRIBUTE_REPARSE_POINT \<noteq> 0"

definition special_file_names :: "(wstring \<times> wstring) list" where
  "special_file_names = [
     (wpath [''$Secure:$SDH''], wpath [''$Secure:$SDH:$INDEX_ALLOCATION'']),
     (wpath [''$Secure:$SII''], wpath [''$Secure:$SII:$INDEX_ALLOCATION'']),
     (wpath [''$Extend''], wpath [''$Extend:$I30:$INDEX_ALLOCATION'']),
     (wpath [''$Extend'', ''$Quota:$Q''], wpath [''$Extend'', ''$Quota:$Q:$INDEX_ALLOCATION'']),
     (wpath [''$Extend'', ''$Quota:$O''], wpath [''$Extend'', ''$Quota:$O:$INDEX_ALLOCATION'']),
     (wpath [''$Extend'', ''$ObjId:$O''], wpath [''$Extend'', ''$ObjId:$O:$INDEX_ALLOCATION'']),
     (wpath [''$Extend'', ''$Reparse:$R''], wpath [''$Extend'', ''$Reparse:$R:$INDEX_ALLOCATION'']),
     (wpath [''$Extend'', ''$RmMetadata''], wpath [''$Extend'', ''$RmMetadata:$I30:$INDEX_ALLOCATION'']),
     (wpath [''$Extend'', ''$RmMetadata'', ''$Txf''],
      wpath [''$Extend'', ''$RmMetadata'', ''$Txf:$I30:$INDEX_ALLOCATION'']),
     (wpath [''$Extend'', ''$RmMetadata'', ''$TxfLog''],
      wpath [''$Extend'', ''$RmMetadata'', ''$TxfLog:$I30:$INDEX_ALLOCATION''])]"

definition MAX_PATH :: nat where "MAX_PATH = 260"

text \<open>
  The loop over the special names. The volume letter passes through a \<open>char\<close>, which is sign-extended
  when it is formatted.
\<close>

fun accepted_path :: "wstring \<Rightarrow> (wstring \<times> wstring) list \<Rightarrow> wstring" where
  "accepted_path path [] = path"
| "accepted_path path ((original_name, accepted_name) # names) =
     (if winx_wcsistr (Some path) (Some original_name) \<noteq> None \<and> length path = length original_name + 7
      then take MAX_PATH (wpath ['''', ''??'', ''''] @ [scast (ucast (path ! 4) :: u8)] @ wpath ['':'', ''''] @ accepted_name)
      else accepted_path path names)"

definition defrag_path :: "wstring \<Rightarrow> wstring" where
  "defrag_path path =
     (if length path \<ge> 9 \<and> path ! 7 = of_char (CHR ''$'') then accepted_path path special_file_names else path)"

definition defrag_options :: "u32 \<Rightarrow> winx_file_info \<Rightarrow> u32" where
  "defrag_options win_version f =
     (let flags = FILE_SYNCHRONOUS_IO_NONALERT;
          flags = (if is_directory f then flags OR FILE_OPEN_FOR_BACKUP_INTENT
                   else
                     let flags = flags OR FILE_NO_INTERMEDIATE_BUFFERING
                     in if win_version \<ge> WINDOWS_VISTA then flags OR FILE_NON_DIRECTORY_FILE else flags)
      in if is_reparse_point f then flags OR FILE_OPEN_REPARSE_POINT else flags)"

definition defrag_access :: "u32 \<Rightarrow> u32 \<Rightarrow> u32" where
  "defrag_access win_version action =
     (let access_rights = SYNCHRONIZE;
          access_rights = (if win_version < WINDOWS_VISTA then access_rights else access_rights OR FILE_READ_ATTRIBUTES)
      in if action = WINX_OPEN_FOR_BASIC_INFO then access_rights OR FILE_READ_ATTRIBUTES else access_rights)"

definition winx_defrag_fopen :: "('w, 'z) nt_scheme \<Rightarrow> winx_file_info \<Rightarrow> u32 \<Rightarrow> 'w \<Rightarrow> (u32 \<times> handle) \<times> 'w" where
  "winx_defrag_fopen nt f action w =
     (let win_version = winx_get_os_version nt
      in case f_path f of
           None \<Rightarrow> ((STATUS_INVALID_PARAMETER, 0), w)
         | Some path \<Rightarrow>
             if path = [] then ((STATUS_INVALID_PARAMETER, 0), w)
             else
               let ((status, h), w) = NtCreateFile nt
                     \<lparr>cr_path = defrag_path path, cr_access = defrag_access win_version action,
                      cr_object_attributes = 0, cr_file_attributes = 0,
                      cr_share = FILE_SHARE_READ OR FILE_SHARE_WRITE OR FILE_SHARE_DELETE,
                      cr_disposition = FILE_OPEN, cr_options = defrag_options win_version f\<rparr> w
               in ((status, if status \<noteq> STATUS_SUCCESS then 0 else h), w))"

definition winx_defrag_fclose :: "('w, 'z) nt_scheme \<Rightarrow> handle \<Rightarrow> 'w \<Rightarrow> 'w" where
  "winx_defrag_fclose nt h w = (if h \<noteq> 0 then NtClose nt h w else w)"

text \<open>A path that is no special name is opened as it is.\<close>

lemma defrag_path_plain: "path ! 7 \<noteq> of_char (CHR ''$'') \<Longrightarrow> defrag_path path = path"
  by (simp add: defrag_path_def)

lemma defrag_path_nonempty: "path \<noteq> [] \<Longrightarrow> defrag_path path \<noteq> []"
proof -
  assume "path \<noteq> []"
  then have "accepted_path path names \<noteq> []" for names
    by (induction path names rule: accepted_path.induct) (auto simp: MAX_PATH_def wstr_def)
  then show ?thesis using \<open>path \<noteq> []\<close> by (simp add: defrag_path_def)
qed

end
