(* ===== verification/Winx_File.thy ===== *)
theory Winx_File
  imports Nt_Kernel
begin

unbundle bit_operations_syntax

text \<open>
  Model of the file routines of \<open>zenwinx/src/zenwinx/file.c\<close>: opening, buffered writing, reading,
  closing, control requests, directories, and reading a whole file.

  A \<open>WINX_FILE\<close> is a record; the functions that change one through its pointer return it. Memory
  blocks are lists of bytes, \<open>None\<close> is a \<open>NULL\<close> pointer, and \<open>malloc\<close>, whose blocks have arbitrary
  contents, is part of the system. \<open>size_t\<close> has 64 bits.
\<close>

record io_result =
  io_status :: u32
  io_wait :: u32
  io_iosb :: u32
  io_information :: u64

record 'w nt_io = "'w nt" +
  malloc :: "u64 \<Rightarrow> 'w \<Rightarrow> u8 list option"
  NtReadFile :: "handle \<Rightarrow> u64 \<Rightarrow> u64 \<Rightarrow> 'w \<Rightarrow> (io_result \<times> u8 list) \<times> 'w"
  NtWriteFile :: "handle \<Rightarrow> u8 list \<Rightarrow> u64 \<Rightarrow> 'w \<Rightarrow> io_result \<times> 'w"
  NtFlushBuffersFile :: "handle \<Rightarrow> 'w \<Rightarrow> u32 \<times> 'w"
  NtQueryStandardInformation :: "handle \<Rightarrow> 'w \<Rightarrow> (u32 \<times> u64) \<times> 'w"
  NtDeleteFile :: "wstring \<Rightarrow> u32 \<Rightarrow> 'w \<Rightarrow> u32 \<times> 'w"
  NtFsControlFile :: "handle \<Rightarrow> u32 \<Rightarrow> u8 list \<Rightarrow> nat \<Rightarrow> 'w \<Rightarrow> (io_result \<times> u8 list) \<times> 'w"
  NtDeviceIoControlFile :: "handle \<Rightarrow> u32 \<Rightarrow> u8 list \<Rightarrow> nat \<Rightarrow> 'w \<Rightarrow> (io_result \<times> u8 list) \<times> 'w"
  NtQueryVolumeInformationFile :: "handle \<Rightarrow> nat \<Rightarrow> nat \<Rightarrow> 'w \<Rightarrow> (u32 \<times> u8 list) \<times> 'w"

definition winx_tmalloc :: "('w, 'z) nt_io_scheme \<Rightarrow> u64 \<Rightarrow> 'w \<Rightarrow> u8 list option" where
  "winx_tmalloc nt n w = malloc nt n w"

text \<open>The status of a request after waiting for its completion.\<close>

definition final_status :: "io_result \<Rightarrow> u32" where
  "final_status r =
     (if NT_SUCCESS (io_status r) then if NT_SUCCESS (io_wait r) then io_iosb r else io_wait r
      else io_status r)"

text \<open>A buffer of \<open>n\<close> zero bytes after \<open>xs\<close> was stored to its front; \<open>memcpy\<close> into a block.\<close>

definition zero_filled :: "nat \<Rightarrow> u8 list \<Rightarrow> u8 list" where
  "zero_filled n xs = take n (xs @ replicate n 0)"

definition memcpy :: "u8 list \<Rightarrow> nat \<Rightarrow> u8 list \<Rightarrow> u8 list" where
  "memcpy dst k src = take k dst @ src @ drop (k + length src) dst"

subsection \<open>Opening and closing\<close>

record WINX_FILE =
  hFile :: handle
  roffset :: u64
  woffset :: u64
  io_buffer :: "u8 list option"
  io_buffer_size :: u64
  io_buffer_offset :: u64
  wboffset :: u64

definition fopen_mode :: "string \<Rightarrow> u32 \<times> u32" where
  "fopen_mode mode =
     (if mode = ''r'' then (FILE_GENERIC_READ, FILE_OPEN)
      else if mode = ''w'' then (FILE_GENERIC_WRITE, FILE_OVERWRITE_IF)
      else if mode = ''r+'' then (FILE_GENERIC_READ OR FILE_GENERIC_WRITE, FILE_OPEN)
      else if mode = ''w+'' then (FILE_GENERIC_READ OR FILE_GENERIC_WRITE, FILE_OVERWRITE_IF)
      else if mode = ''a'' then (FILE_APPEND_DATA, FILE_OPEN_IF)
      else if mode = ''a+'' then (FILE_GENERIC_READ OR FILE_APPEND_DATA, FILE_OPEN_IF)
      else (FILE_GENERIC_READ, FILE_OPEN))"

definition sizeof_WINX_FILE :: u64 where "sizeof_WINX_FILE = 56"

definition winx_fopen :: "('w, 'z) nt_io_scheme \<Rightarrow> wstring option \<Rightarrow> string option \<Rightarrow> 'w \<Rightarrow> WINX_FILE option \<times> 'w" where
  "winx_fopen nt filename mode w =
     (case (filename, mode) of
        (Some filename, Some mode) \<Rightarrow>
          let (access_mask, disposition) = fopen_mode mode;
              access_mask = access_mask OR SYNCHRONIZE;
              ((status, h), w) = NtCreateFile nt
                \<lparr>cr_path = filename, cr_access = access_mask, cr_object_attributes = OBJ_CASE_INSENSITIVE,
                 cr_file_attributes = FILE_ATTRIBUTE_NORMAL, cr_share = FILE_SHARE_READ OR FILE_SHARE_WRITE,
                 cr_disposition = disposition, cr_options = FILE_SYNCHRONOUS_IO_NONALERT\<rparr> w
          in if status \<noteq> STATUS_SUCCESS then (None, w)
             else (case winx_tmalloc nt sizeof_WINX_FILE w of
                 None \<Rightarrow> (None, NtClose nt h w)
               | Some _ \<Rightarrow>
                   (Some \<lparr>hFile = h, roffset = 0, woffset = 0, io_buffer = None, io_buffer_size = 0,
                          io_buffer_offset = 0, wboffset = 0\<rparr>, w))
      | _ \<Rightarrow> (None, w))"

definition winx_fwrite_helper :: "('w, 'z) nt_io_scheme \<Rightarrow> u8 list \<Rightarrow> u64 \<Rightarrow> u64 \<Rightarrow> WINX_FILE \<Rightarrow> 'w \<Rightarrow>
  u64 \<times> WINX_FILE \<times> 'w" where
  "winx_fwrite_helper nt buffer sz count f w =
     (let (r, w) = NtWriteFile nt (hFile f) (take (unat (sz * count)) buffer) (woffset f) w
      in if final_status r \<noteq> STATUS_SUCCESS then (0, f, w)
         else if io_information r = 0 then (count, f\<lparr>woffset := woffset f + sz * count\<rparr>, w)
         else (io_information r div sz, f\<lparr>woffset := woffset f + io_information r\<rparr>, w))"

definition winx_fclose :: "('w, 'z) nt_io_scheme \<Rightarrow> WINX_FILE option \<Rightarrow> 'w \<Rightarrow> 'w" where
  "winx_fclose nt f w =
     (case f of
        None \<Rightarrow> w
      | Some f \<Rightarrow>
          let w = (case io_buffer f of
                     None \<Rightarrow> w
                   | Some b \<Rightarrow>
                       if io_buffer_offset f \<noteq> 0
                       then snd (snd (winx_fwrite_helper nt b 1 (io_buffer_offset f) f w)) else w)
          in if hFile f \<noteq> 0 then NtClose nt (hFile f) w else w)"

definition winx_fbopen :: "('w, 'z) nt_io_scheme \<Rightarrow> wstring option \<Rightarrow> string option \<Rightarrow> int \<Rightarrow> 'w \<Rightarrow>
  WINX_FILE option \<times> 'w" where
  "winx_fbopen nt filename mode buffer_size w =
     (let (f, w) = winx_fopen nt filename mode w
      in case f of
           None \<Rightarrow> (None, w)
         | Some f \<Rightarrow>
             if buffer_size \<le> 0 then (Some f, w)
             else (case winx_tmalloc nt (of_int buffer_size) w of
                 None \<Rightarrow> (None, winx_fclose nt (Some f) w)
               | Some b \<Rightarrow> (Some (f\<lparr>io_buffer := Some b, io_buffer_size := of_int buffer_size\<rparr>), w)))"

subsection \<open>Reading and writing\<close>

text \<open>The result is the number of items read, the bytes stored to the buffer, and the file.\<close>

definition winx_fread :: "('w, 'z) nt_io_scheme \<Rightarrow> u64 \<Rightarrow> u64 \<Rightarrow> WINX_FILE option \<Rightarrow> 'w \<Rightarrow>
  u64 \<times> u8 list \<times> WINX_FILE option \<times> 'w" where
  "winx_fread nt sz count f w =
     (case f of
        None \<Rightarrow> (0, [], f, w)
      | Some f \<Rightarrow>
          let ((r, bytes), w) = NtReadFile nt (hFile f) (sz * count) (roffset f) w
          in if final_status r \<noteq> STATUS_SUCCESS then (0, bytes, Some f, w)
             else if io_information r = 0 then (count, bytes, Some (f\<lparr>roffset := roffset f + sz * count\<rparr>), w)
             else (io_information r div sz, bytes, Some (f\<lparr>roffset := roffset f + io_information r\<rparr>), w))"

text \<open>The two places where \<open>winx_fwrite\<close> empties the buffer; the first component is false on failure.\<close>

definition flush_moved :: "('w, 'z) nt_io_scheme \<Rightarrow> u8 list \<Rightarrow> WINX_FILE \<Rightarrow> 'w \<Rightarrow> bool \<times> WINX_FILE \<times> 'w" where
  "flush_moved nt b f w =
     (let nwd_offset = wboffset f - io_buffer_offset f;
          new_offset = woffset f
      in if new_offset \<noteq> nwd_offset then
           let (result, f, w) = winx_fwrite_helper nt b 1 (io_buffer_offset f) (f\<lparr>woffset := nwd_offset\<rparr>) w
           in (result \<noteq> 0, f\<lparr>io_buffer_offset := 0, woffset := new_offset, wboffset := new_offset\<rparr>, w)
         else (True, f, w))"

definition flush_full :: "('w, 'z) nt_io_scheme \<Rightarrow> u8 list \<Rightarrow> u64 \<Rightarrow> WINX_FILE \<Rightarrow> 'w \<Rightarrow> bool \<times> WINX_FILE \<times> 'w" where
  "flush_full nt b bytes f w =
     (if bytes > io_buffer_size f - io_buffer_offset f \<and> io_buffer_offset f \<noteq> 0 then
        let (result, f, w) = winx_fwrite_helper nt b 1 (io_buffer_offset f) f w
        in (result \<noteq> 0, f\<lparr>io_buffer_offset := 0\<rparr>, w)
      else (True, f, w))"

definition fwrite_open :: "('w, 'z) nt_io_scheme \<Rightarrow> u8 list \<Rightarrow> u64 \<Rightarrow> u64 \<Rightarrow> WINX_FILE \<Rightarrow> 'w \<Rightarrow>
  u64 \<times> WINX_FILE \<times> 'w" where
  "fwrite_open nt buffer sz count f w =
     (let bytes = sz * count
      in if io_buffer f = None \<or> io_buffer_size f = 0 then
           winx_fwrite_helper nt buffer sz count
             (f\<lparr>io_buffer_offset := 0, wboffset := wboffset f + bytes\<rparr>) w
         else
           let b = the (io_buffer f);
               (ok, f, w) = flush_moved nt b f w
           in if \<not> ok then (0, f, w)
              else
                let (ok, f, w) = flush_full nt b bytes f w
                in if \<not> ok then (0, f, w)
                   else if bytes \<ge> io_buffer_size f then
                     winx_fwrite_helper nt buffer sz count (f\<lparr>wboffset := wboffset f + bytes\<rparr>) w
                   else
                     (count,
                      f\<lparr>io_buffer := Some (memcpy b (unat (io_buffer_offset f)) (take (unat bytes) buffer)),
                        io_buffer_offset := io_buffer_offset f + bytes, wboffset := wboffset f + bytes\<rparr>, w))"

definition winx_fwrite :: "('w, 'z) nt_io_scheme \<Rightarrow> u8 list option \<Rightarrow> u64 \<Rightarrow> u64 \<Rightarrow> WINX_FILE option \<Rightarrow> 'w \<Rightarrow>
  u64 \<times> WINX_FILE option \<times> 'w" where
  "winx_fwrite nt buffer sz count f w =
     (case (buffer, f) of
        (Some buffer, Some f) \<Rightarrow> let (r, f, w) = fwrite_open nt buffer sz count f w in (r, Some f, w)
      | _ \<Rightarrow> (0, f, w))"

subsection \<open>Control requests, directories, whole files\<close>

definition FILE_DEVICE_FILE_SYSTEM :: u32 where "FILE_DEVICE_FILE_SYSTEM = 9"

text \<open>The result is zero or -1, the output buffer, and the number of bytes returned.\<close>

definition winx_ioctl :: "('w, 'z) nt_io_scheme \<Rightarrow> WINX_FILE option \<Rightarrow> u32 \<Rightarrow> u8 list \<Rightarrow> nat \<Rightarrow> 'w \<Rightarrow>
  int \<times> u8 list \<times> u64 \<times> 'w" where
  "winx_ioctl nt f code in_buffer out_size w =
     (case f of
        None \<Rightarrow> (-1, zero_filled out_size [], 0, w)
      | Some f \<Rightarrow>
          let ((r, bytes), w) =
                (if drop_bit 16 code = FILE_DEVICE_FILE_SYSTEM
                 then NtFsControlFile nt (hFile f) code in_buffer out_size w
                 else NtDeviceIoControlFile nt (hFile f) code in_buffer out_size w);
              out_buffer = zero_filled out_size bytes
          in if \<not> NT_SUCCESS (final_status r) then (-1, out_buffer, 0, w)
             else (0, out_buffer, io_information r, w))"

definition winx_fflush :: "('w, 'z) nt_io_scheme \<Rightarrow> WINX_FILE option \<Rightarrow> 'w \<Rightarrow> int \<times> 'w" where
  "winx_fflush nt f w =
     (case f of
        None \<Rightarrow> (-1, w)
      | Some f \<Rightarrow>
          let (status, w) = NtFlushBuffersFile nt (hFile f) w
          in if \<not> NT_SUCCESS status then (-1, w) else (0, w))"

definition winx_fsize :: "('w, 'z) nt_io_scheme \<Rightarrow> WINX_FILE option \<Rightarrow> 'w \<Rightarrow> u64 \<times> 'w" where
  "winx_fsize nt f w =
     (case f of
        None \<Rightarrow> (0, w)
      | Some f \<Rightarrow>
          let ((status, EndOfFile), w) = NtQueryStandardInformation nt (hFile f) w
          in if \<not> NT_SUCCESS status then (0, w) else (EndOfFile, w))"

definition winx_create_directory :: "('w, 'z) nt_io_scheme \<Rightarrow> wstring option \<Rightarrow> 'w \<Rightarrow> int \<times> 'w" where
  "winx_create_directory nt path w =
     (case path of
        None \<Rightarrow> (-1, w)
      | Some path \<Rightarrow>
          let ((status, h), w) = NtCreateFile nt
                \<lparr>cr_path = path, cr_access = FILE_LIST_DIRECTORY OR SYNCHRONIZE OR FILE_OPEN_FOR_BACKUP_INTENT,
                 cr_object_attributes = OBJ_CASE_INSENSITIVE, cr_file_attributes = FILE_ATTRIBUTE_NORMAL,
                 cr_share = FILE_SHARE_READ OR FILE_SHARE_WRITE, cr_disposition = FILE_CREATE,
                 cr_options = FILE_SYNCHRONOUS_IO_NONALERT OR FILE_DIRECTORY_FILE\<rparr> w
          in if NT_SUCCESS status then (0, NtClose nt h w)
             else if status = STATUS_OBJECT_NAME_COLLISION then (0, w)
             else (-1, w))"

definition winx_delete_file :: "('w, 'z) nt_io_scheme \<Rightarrow> wstring option \<Rightarrow> 'w \<Rightarrow> int \<times> 'w" where
  "winx_delete_file nt filename w =
     (case filename of
        None \<Rightarrow> (-1, w)
      | Some filename \<Rightarrow>
          let (status, w) = NtDeleteFile nt filename OBJ_CASE_INSENSITIVE w
          in if \<not> NT_SUCCESS status then (-1, w) else (0, w))"

text \<open>The result is the block of memory with the contents and the number of bytes read.\<close>

definition winx_get_file_contents :: "('w, 'z) nt_io_scheme \<Rightarrow> wstring option \<Rightarrow> 'w \<Rightarrow>
  u8 list option \<times> u64 \<times> 'w" where
  "winx_get_file_contents nt filename w =
     (if filename = None then (None, 0, w)
      else
        let (f, w) = winx_fopen nt filename (Some ''r'') w
        in if f = None then (None, 0, w)
           else
             let (length, w) = winx_fsize nt f w
             in if length = 0 then (None, 0, winx_fclose nt f w)
                else (case winx_tmalloc nt (length + 2) w of
                    None \<Rightarrow> (None, 0, winx_fclose nt f w)
                  | Some contents \<Rightarrow>
                      let (n_read, bytes, f, w) = winx_fread nt 1 length f w
                      in if n_read = 0 \<or> n_read > length then (None, 0, winx_fclose nt f w)
                         else (Some (memcpy contents 0 bytes), n_read, winx_fclose nt f w)))"

subsection \<open>What is written to the disk\<close>

definition write_at :: "u8 list \<Rightarrow> nat \<Rightarrow> u8 list \<Rightarrow> u8 list" where
  "write_at c p xs =
     (if xs = [] then c else take p (c @ replicate (p - length c) 0) @ xs @ drop (p + length xs) c)"

text \<open>A system that stores what is written through a handle; \<open>contents\<close> reads the file back.\<close>

definition stores :: "('w, 'z) nt_io_scheme \<Rightarrow> handle \<Rightarrow> ('w \<Rightarrow> u8 list) \<Rightarrow> bool" where
  "stores nt h contents \<longleftrightarrow>
     (\<forall>xs p w. length xs < 2 ^ 64 \<longrightarrow>
        final_status (fst (NtWriteFile nt h xs p w)) = STATUS_SUCCESS \<and>
        io_information (fst (NtWriteFile nt h xs p w)) = of_nat (length xs) \<and>
        contents (snd (NtWriteFile nt h xs p w)) = write_at (contents w) (unat p) xs) \<and>
     (\<forall>w. contents (NtClose nt h w) = contents w)"

fun fwrite_all :: "('w, 'z) nt_io_scheme \<Rightarrow> u8 list list \<Rightarrow> WINX_FILE \<Rightarrow> 'w \<Rightarrow> u64 list \<times> WINX_FILE \<times> 'w" where
  "fwrite_all nt [] f w = ([], f, w)"
| "fwrite_all nt (d # ds) f w =
     (let (r, f', w) = winx_fwrite nt (Some d) 1 (of_nat (length d)) (Some f) w;
          (rs, f, w) = fwrite_all nt ds (the f') w
      in (r # rs, f, w))"

lemma write_at_append:
  "write_at (write_at c p xs) (p + length xs) ys = write_at c p (xs @ ys)"
proof (cases "xs = [] \<or> ys = []")
  case False
  then show ?thesis
    by (auto simp: write_at_def min_def ac_simps)
qed (auto simp: write_at_def)

lemma helper_stores:
  assumes "stores nt (hFile f) contents" "xs \<noteq> []" "length xs < 2 ^ 64" "take (unat (sz * count)) buffer = xs"
    "sz = 1" "count = of_nat (length xs)"
  obtains w' where "winx_fwrite_helper nt buffer sz count f w = (count, f\<lparr>woffset := woffset f + count\<rparr>, w')"
    "contents w' = write_at (contents w) (unat (woffset f)) xs"
proof -
  let ?a = "NtWriteFile nt (hFile f) xs (woffset f) w"
  have a: "final_status (fst ?a) = STATUS_SUCCESS" "io_information (fst ?a) = count"
      "contents (snd ?a) = write_at (contents w) (unat (woffset f)) xs"
    using assms(1,3,6) by (simp_all add: stores_def)
  have "(of_nat (length xs) :: u64) \<noteq> 0" using assms(2,3) by (simp add: word_of_nat_eq_0_iff nat_dvd_not_less)
  then have "winx_fwrite_helper nt buffer sz count f w = (count, f\<lparr>woffset := woffset f + count\<rparr>, snd ?a)"
    using a assms(4-6) by (simp add: winx_fwrite_helper_def split_beta Let_def)
  then show ?thesis using that a(3) by blast
qed

text \<open>
  After the data \<open>ds\<close> the first \<open>m\<close> bytes are on disk, the rest fills the front of the buffer.
\<close>

definition buffering :: "('w \<Rightarrow> u8 list) \<Rightarrow> u8 list \<Rightarrow> u64 \<Rightarrow> u8 list \<Rightarrow> nat \<Rightarrow> WINX_FILE \<Rightarrow> 'w \<Rightarrow> bool" where
  "buffering contents c p ds m f w \<longleftrightarrow>
     (\<exists>b. io_buffer f = Some b \<and> length b = unat (io_buffer_size f) \<and> io_buffer_size f \<noteq> 0 \<and>
        unat p + length ds < 2 ^ 64 \<and> m \<le> length ds \<and> length ds - m \<le> length b \<and>
        contents w = write_at c (unat p) (take m ds) \<and> take (length ds - m) b = drop m ds \<and>
        io_buffer_offset f = of_nat (length ds - m) \<and> woffset f = p + of_nat m \<and> wboffset f = p + of_nat (length ds))"

lemma unat_of_nat_less: "n < 2 ^ 64 \<Longrightarrow> unat (of_nat n :: u64) = n"
  by (simp add: unat_of_nat)

lemma flush_moved_idle: "buffering contents c p ds m f w \<Longrightarrow> flush_moved nt b f w = (True, f, w)"
  by (auto simp: buffering_def flush_moved_def of_nat_diff)

lemma flush_buffer:
  assumes "stores nt (hFile f) contents" "buffering contents c p ds m f w" "io_buffer f = Some b" "io_buffer_offset f \<noteq> 0"
  obtains w' where "winx_fwrite_helper nt b 1 (io_buffer_offset f) f w =
      (io_buffer_offset f, f\<lparr>woffset := p + of_nat (length ds)\<rparr>, w')"
    "contents w' = write_at c (unat p) ds"
proof -
  let ?n = "length ds - m"
  have f: "io_buffer_offset f = of_nat ?n" "woffset f = p + of_nat m" "take ?n b = drop m ds" "?n < 2 ^ 64" "m \<le> length ds"
      "contents w = write_at c (unat p) (take m ds)" "unat p + length ds < 2 ^ 64"
    using assms(2,3) by (auto simp: buffering_def)
  have n: "unat (of_nat ?n :: u64) = ?n" using f(4) by (simp add: unat_of_nat_less)
  have ne: "drop m ds \<noteq> []" using assms(4) f(1) by auto
  obtain w' where w': "winx_fwrite_helper nt b 1 (io_buffer_offset f) f w =
      (io_buffer_offset f, f\<lparr>woffset := woffset f + io_buffer_offset f\<rparr>, w')"
      "contents w' = write_at (contents w) (unat (woffset f)) (drop m ds)"
    by (rule helper_stores [OF assms(1) ne, of 1 "io_buffer_offset f" b w]) (use f n in auto)
  have "unat (woffset f) = unat p + length (take m ds)"
    using f(2,5,7) by (simp add: unat_word_ariths unat_of_nat min_def)
  then have "contents w' = write_at c (unat p) ds"
    using w'(2) f(6) write_at_append [of c "unat p" "take m ds" "drop m ds"] by simp
  moreover have "woffset f + io_buffer_offset f = p + of_nat (length ds)" using f(1,2,5) by (simp add: of_nat_diff)
  ultimately show ?thesis using that w'(1) by simp
qed

lemma flush_full_step:
  assumes "stores nt (hFile f) contents" "buffering contents c p ds m f w" "io_buffer f = Some b"
  obtains m' f' w' where "flush_full nt b bytes f w = (True, f', w')" "buffering contents c p ds m' f' w'"
    "hFile f' = hFile f" "io_buffer f' = Some b" "io_buffer_size f' = io_buffer_size f"
    "io_buffer_offset f' \<noteq> 0 \<Longrightarrow> bytes \<le> io_buffer_size f' - io_buffer_offset f'"
proof (cases "bytes > io_buffer_size f - io_buffer_offset f \<and> io_buffer_offset f \<noteq> 0")
  case True
  then obtain w' where w': "winx_fwrite_helper nt b 1 (io_buffer_offset f) f w =
      (io_buffer_offset f, f\<lparr>woffset := p + of_nat (length ds)\<rparr>, w')" "contents w' = write_at c (unat p) ds"
    using flush_buffer [OF assms] by blast
  let ?f = "f\<lparr>woffset := p + of_nat (length ds), io_buffer_offset := 0\<rparr>"
  have "buffering contents c p ds (length ds) ?f w'"
    using assms(2) w'(2) by (auto simp: buffering_def)
  moreover have "flush_full nt b bytes f w = (True, ?f, w')"
    using True w'(1) by (simp add: flush_full_def)
  ultimately show ?thesis using that [of ?f w' "length ds"] assms(3) by simp
next
  case False
  then show ?thesis using that [of f w m] assms(2,3) by (auto simp: flush_full_def)
qed

lemma direct_write:
  assumes "stores nt (hFile f) contents" "buffering contents c p ds m f w" "io_buffer_offset f = 0" "d \<noteq> []"
    "unat p + length ds + length d < 2 ^ 64"
  obtains f' w' where "winx_fwrite_helper nt d 1 (of_nat (length d)) (f\<lparr>wboffset := wboffset f + of_nat (length d)\<rparr>) w =
      (of_nat (length d), f', w')" "buffering contents c p (ds @ d) (length (ds @ d)) f' w'" "hFile f' = hFile f"
proof -
  let ?f = "f\<lparr>wboffset := wboffset f + of_nat (length d)\<rparr>"
  have m: "m = length ds"
    using assms(2,3,5) by (auto simp: buffering_def word_of_nat_eq_0_iff dest: dvd_imp_le)
  obtain w' where w': "winx_fwrite_helper nt d 1 (of_nat (length d)) ?f w =
      (of_nat (length d), ?f\<lparr>woffset := woffset ?f + of_nat (length d)\<rparr>, w')"
      "contents w' = write_at (contents w) (unat (woffset ?f)) d"
    by (rule helper_stores [of nt ?f contents d 1 "of_nat (length d)" d w]) (use assms in \<open>auto simp: unat_of_nat\<close>)
  have "unat (woffset f) = unat p + length ds"
    using assms(2,5) m by (auto simp: buffering_def unat_word_ariths unat_of_nat)
  then have "contents w' = write_at c (unat p) (ds @ d)"
    using w'(2) assms(2) m write_at_append [of c "unat p" ds d] by (auto simp: buffering_def)
  then have "buffering contents c p (ds @ d) (length (ds @ d)) (?f\<lparr>woffset := woffset ?f + of_nat (length d)\<rparr>) w'"
    using assms(2,3,5) m by (auto simp: buffering_def)
  then show ?thesis using that w'(1) by fastforce
qed

lemma memcpy_length: "k + length xs \<le> length b \<Longrightarrow> length (memcpy b k xs) = length b"
  by (simp add: memcpy_def)

lemma buffer_write:
  assumes "buffering contents c p ds m f w" "io_buffer f = Some b"
    "io_buffer_offset f \<noteq> 0 \<Longrightarrow> of_nat (length d) \<le> io_buffer_size f - io_buffer_offset f"
    "of_nat (length d) < io_buffer_size f" "unat p + length ds + length d < 2 ^ 64"
  shows "buffering contents c p (ds @ d) m
    (f\<lparr>io_buffer := Some (memcpy b (unat (io_buffer_offset f)) d),
       io_buffer_offset := io_buffer_offset f + of_nat (length d), wboffset := wboffset f + of_nat (length d)\<rparr>) w"
proof -
  let ?n = "length ds - m"
  have f: "io_buffer_offset f = of_nat ?n" "take ?n b = drop m ds" "?n < 2 ^ 64" "m \<le> length ds" "?n \<le> length b"
      "length b = unat (io_buffer_size f)"
    using assms(1,2,5) by (auto simp: buffering_def)
  have n: "unat (io_buffer_offset f) = ?n" using f(1,3) by (simp add: unat_of_nat_less)
  have d: "unat (of_nat (length d) :: u64) = length d" using assms(5) by (simp add: unat_of_nat_less)
  have fits: "?n + length d \<le> length b"
  proof (cases "?n = 0")
    case True
    then show ?thesis using assms(4) f(6) d by (simp add: word_less_nat_alt)
  next
    case False
    then have "io_buffer_offset f \<noteq> 0" using n by auto
    then have "length d \<le> unat (io_buffer_size f - io_buffer_offset f)"
      using assms(3) d by (simp add: word_le_nat_alt)
    moreover have "unat (io_buffer_size f - io_buffer_offset f) = unat (io_buffer_size f) - ?n"
      using f(5,6) n by (simp add: unat_sub word_le_nat_alt)
    ultimately show ?thesis using f(5,6) by linarith
  qed
  then have "take (?n + length d) (memcpy b ?n d) = drop m ds @ d"
    using f(2,5) by (simp add: memcpy_def)
  then show ?thesis
    using assms(1,2,5) fits f(1,4) n by (auto simp: buffering_def memcpy_length of_nat_diff)
qed

lemma buffered_step:
  assumes "stores nt (hFile f) contents" "buffering contents c p ds m f w" "d \<noteq> []" "unat p + length ds + length d < 2 ^ 64"
  obtains f' m' w' where "winx_fwrite nt (Some d) 1 (of_nat (length d)) (Some f) w = (of_nat (length d), Some f', w')"
    "buffering contents c p (ds @ d) m' f' w'" "hFile f' = hFile f"
proof -
  let ?n = "of_nat (length d) :: u64"
  obtain b where b: "io_buffer f = Some b" "io_buffer_size f \<noteq> 0" using assms(2) by (auto simp: buffering_def)
  obtain m' f' w' where s: "flush_full nt b ?n f w = (True, f', w')" "buffering contents c p ds m' f' w'"
      "hFile f' = hFile f" "io_buffer f' = Some b" "io_buffer_size f' = io_buffer_size f"
      "io_buffer_offset f' \<noteq> 0 \<Longrightarrow> ?n \<le> io_buffer_size f' - io_buffer_offset f'"
    using flush_full_step [OF assms(1,2) b(1)] by blast
  have d: "take (unat ?n) d = d" using assms(4) by (simp add: unat_of_nat)
  note eq = winx_fwrite_def fwrite_open_def flush_moved_idle [OF assms(2)]
  show ?thesis
  proof (cases "?n \<ge> io_buffer_size f'")
    case True
    have "io_buffer_offset f' = 0"
    proof (rule ccontr)
      assume off: "io_buffer_offset f' \<noteq> 0"
      have "io_buffer_offset f' \<le> io_buffer_size f'"
        using s(2) assms(4) by (auto simp: buffering_def word_le_nat_alt unat_of_nat simp del: of_nat_diff)
      then have "unat (io_buffer_size f' - io_buffer_offset f') < unat (io_buffer_size f')"
        using off unat_gt_0 [of "io_buffer_offset f'"] by (simp add: unat_sub word_le_nat_alt)
      then show False using s(6) [OF off] True by (simp add: word_le_nat_alt)
    qed
    then obtain f'' w'' where d: "winx_fwrite_helper nt d 1 ?n (f'\<lparr>wboffset := wboffset f' + ?n\<rparr>) w' = (?n, f'', w'')"
        "buffering contents c p (ds @ d) (length (ds @ d)) f'' w''" "hFile f'' = hFile f'"
      using direct_write [OF _ s(2) _ assms(3,4)] assms(1) s(3) by metis
    have "winx_fwrite nt (Some d) 1 ?n (Some f) w = (?n, Some f'', w'')"
      using b s(1,5) True d(1) by (simp add: eq)
    then show ?thesis using that d(2,3) s(3) by simp
  next
    case False
    let ?f = "f'\<lparr>io_buffer := Some (memcpy b (unat (io_buffer_offset f')) d),
       io_buffer_offset := io_buffer_offset f' + ?n, wboffset := wboffset f' + ?n\<rparr>"
    have "buffering contents c p (ds @ d) m' ?f w'"
      by (rule buffer_write [OF s(2,4)]) (use s(6) False assms(4) in auto)
    moreover have "winx_fwrite nt (Some d) 1 ?n (Some f) w = (?n, Some ?f, w')"
      using b s(1,5) False d by (simp add: eq Let_def)
    ultimately show ?thesis using that s(3) by simp
  qed
qed

lemma buffered_all:
  assumes "stores nt (hFile f) contents" "buffering contents c p ds m f w" "[] \<notin> set xs"
    "unat p + length ds + length (concat xs) < 2 ^ 64"
  shows "\<exists>f' m' w'. fwrite_all nt xs f w = (map (\<lambda>d. of_nat (length d)) xs, f', w') \<and>
    buffering contents c p (ds @ concat xs) m' f' w' \<and> hFile f' = hFile f"
  using assms
proof (induction xs arbitrary: ds m f w)
  case (Cons d xs)
  obtain f' m' w' where s: "winx_fwrite nt (Some d) 1 (of_nat (length d)) (Some f) w = (of_nat (length d), Some f', w')"
      "buffering contents c p (ds @ d) m' f' w'" "hFile f' = hFile f"
    by (rule buffered_step [OF Cons.prems(1,2), of d]) (use Cons.prems(3,4) in auto)
  have "\<exists>f'' m'' w''. fwrite_all nt xs f' w' = (map (\<lambda>d. of_nat (length d)) xs, f'', w'') \<and>
      buffering contents c p ((ds @ d) @ concat xs) m'' f'' w'' \<and> hFile f'' = hFile f'"
    by (rule Cons.IH [OF _ s(2)]) (use Cons.prems s(3) in auto)
  then show ?case using s by auto
qed auto

lemma close_buffered:
  assumes "stores nt (hFile f) contents" "buffering contents c p ds m f w"
  shows "contents (winx_fclose nt (Some f) w) = write_at c (unat p) ds"
proof -
  obtain b where b: "io_buffer f = Some b" using assms(2) by (auto simp: buffering_def)
  define w1 where "w1 = (if io_buffer_offset f \<noteq> 0 then snd (snd (winx_fwrite_helper nt b 1 (io_buffer_offset f) f w)) else w)"
  have "contents w1 = write_at c (unat p) ds"
  proof (cases "io_buffer_offset f = 0")
    case True
    then have "m = length ds" using assms(2) by (auto simp: buffering_def word_of_nat_eq_0_iff dest: dvd_imp_le)
    then show ?thesis using True assms(2) by (auto simp: buffering_def w1_def)
  next
    case False
    then show ?thesis using flush_buffer [OF assms b] by (metis snd_conv w1_def)
  qed
  moreover have "winx_fclose nt (Some f) w = (if hFile f \<noteq> 0 then NtClose nt (hFile f) w1 else w1)"
    using b by (simp add: winx_fclose_def w1_def)
  ultimately show ?thesis using assms(1) by (simp add: stores_def)
qed

lemma unbuffered_all:
  assumes "stores nt (hFile f) contents" "io_buffer f = None" "[] \<notin> set xs" "unat (woffset f) + length (concat xs) < 2 ^ 64"
  shows "\<exists>f' w'. fwrite_all nt xs f w = (map (\<lambda>d. of_nat (length d)) xs, f', w') \<and>
    contents w' = write_at (contents w) (unat (woffset f)) (concat xs) \<and> io_buffer f' = None \<and> hFile f' = hFile f"
  using assms
proof (induction xs arbitrary: f w)
  case (Cons d xs)
  let ?n = "of_nat (length d) :: u64"
  let ?f = "f\<lparr>io_buffer_offset := 0, wboffset := wboffset f + ?n\<rparr>"
  obtain w' where s: "winx_fwrite_helper nt d 1 ?n ?f w = (?n, ?f\<lparr>woffset := woffset ?f + ?n\<rparr>, w')"
      "contents w' = write_at (contents w) (unat (woffset ?f)) d"
    by (rule helper_stores [of nt ?f contents d 1 ?n d w]) (use Cons.prems in \<open>auto simp: unat_of_nat\<close>)
  let ?g = "?f\<lparr>woffset := woffset ?f + ?n\<rparr>"
  have p: "unat (woffset ?g) = unat (woffset f) + length d"
    using Cons.prems(4) by (simp add: unat_word_ariths unat_of_nat)
  have "\<exists>f'' w''. fwrite_all nt xs ?g w' = (map (\<lambda>d. of_nat (length d)) xs, f'', w'') \<and>
      contents w'' = write_at (contents w') (unat (woffset ?g)) (concat xs) \<and> io_buffer f'' = None \<and> hFile f'' = hFile ?g"
    by (rule Cons.IH) (use Cons.prems p in auto)
  moreover have "winx_fwrite nt (Some d) 1 ?n (Some f) w = (?n, Some ?g, w')"
    using s(1) Cons.prems(2) by (simp add: winx_fwrite_def fwrite_open_def)
  ultimately show ?case using s(2) p by (auto simp: write_at_append)
qed (simp add: write_at_def)

subsection \<open>Properties\<close>

text \<open>
  C32: writing through the buffer of \<open>winx_fbopen\<close> is equivalent to writing directly. On a system that
  stores what is written, any sequence of non-empty writes to a fresh buffered file returns the same
  counts as the same writes to the file without a buffer, and after \<open>winx_fclose\<close> both leave the same
  contents on disk: the data in order, from the offset on.
\<close>

theorem buffered_write_equivalent:
  assumes "stores nt (hFile f) contents" "[] \<notin> set xs" "unat (woffset f) + length (concat xs) < 2 ^ 64"
    "io_buffer f = Some b" "length b = unat (io_buffer_size f)" "io_buffer_size f \<noteq> 0" "io_buffer_offset f = 0"
    "wboffset f = woffset f"
    "fwrite_all nt xs f w = (rs, f1, w1)" "fwrite_all nt xs (f\<lparr>io_buffer := None, io_buffer_size := 0\<rparr>) w = (rs', f2, w2)"
  shows "contents (winx_fclose nt (Some f1) w1) = contents (winx_fclose nt (Some f2) w2) \<and> rs = rs' \<and>
    contents (winx_fclose nt (Some f1) w1) = write_at (contents w) (unat (woffset f)) (concat xs)"
proof -
  let ?f = "f\<lparr>io_buffer := None, io_buffer_size := 0\<rparr>"
  have "buffering contents (contents w) (woffset f) [] 0 f w"
    using assms(3-8) by (auto simp: buffering_def write_at_def)
  then obtain m where 1: "rs = map (\<lambda>d. of_nat (length d)) xs" "hFile f1 = hFile f"
      "buffering contents (contents w) (woffset f) (concat xs) m f1 w1"
    using buffered_all [OF assms(1) _ assms(2), of "contents w" "woffset f" "[]" 0 w] assms(3,9) by auto
  have 2: "rs' = map (\<lambda>d. of_nat (length d)) xs" "contents w2 = write_at (contents w) (unat (woffset f)) (concat xs)"
      "io_buffer f2 = None" "hFile f2 = hFile f"
    using unbuffered_all [of nt ?f contents xs w] assms(1-3,10) by auto
  have "contents (winx_fclose nt (Some f2) w2) = contents w2"
    using 2(3,4) assms(1) by (simp add: winx_fclose_def stores_def)
  then show ?thesis
    using close_buffered [of nt f1 contents] 1 2(1,2) assms(1) by simp
qed

text \<open>A disk with one file, opened with handle 7.\<close>

definition refused :: io_result where
  "refused = \<lparr>io_status = STATUS_INVALID_PARAMETER, io_wait = 0, io_iosb = 0, io_information = 0\<rparr>"

definition demo_disk :: "u8 list nt_io" where
  "demo_disk = \<lparr>NtCreateFile = \<lambda>r w. ((STATUS_SUCCESS, 7), w), NtClose = \<lambda>h w. w, RtlGetVersion = (6, 1),
     malloc = \<lambda>n w. Some (replicate (unat n) 0),
     NtReadFile = \<lambda>h n p w. ((\<lparr>io_status = 0, io_wait = 0, io_iosb = 0, io_information = n\<rparr>, take (unat n) (drop (unat p) w)), w),
     NtWriteFile = \<lambda>h xs p w. (\<lparr>io_status = 0, io_wait = 0, io_iosb = 0, io_information = of_nat (length xs)\<rparr>,
       write_at w (unat p) xs),
     NtFlushBuffersFile = \<lambda>h w. (0, w), NtQueryStandardInformation = \<lambda>h w. ((0, of_nat (length w)), w),
     NtDeleteFile = \<lambda>p a w. (0, []),
     NtFsControlFile = \<lambda>h c i n w. ((refused, []), w), NtDeviceIoControlFile = \<lambda>h c i n w. ((refused, []), w),
     NtQueryVolumeInformationFile = \<lambda>h k n w. ((STATUS_INVALID_PARAMETER, []), w)\<rparr>"

lemma demo_disk_stores: "stores demo_disk 7 (\<lambda>w. w)"
  by (simp add: stores_def demo_disk_def final_status_def NT_SUCCESS_def STATUS_SUCCESS_def)

definition demo_file :: WINX_FILE where
  "demo_file = \<lparr>hFile = 7, roffset = 0, woffset = 0, io_buffer = Some [0, 0, 0, 0], io_buffer_size = 4,
     io_buffer_offset = 0, wboffset = 0\<rparr>"

lemma demo_file_simps [simp]:
  "hFile demo_file = 7" "woffset demo_file = 0" "io_buffer demo_file = Some [0, 0, 0, 0]" "io_buffer_size demo_file = 4"
  "io_buffer_offset demo_file = 0" "wboffset demo_file = 0"
  by (simp_all add: demo_file_def)

theorem buffered_write_equivalent_witness:
  "\<exists>rs f w. fwrite_all demo_disk [[1, 2], [3], [4, 5]] demo_file [] = (rs, f, w) \<and>
     winx_fclose demo_disk (Some f) w = [1, 2, 3, 4, 5]"
proof -
  let ?xs = "[[1, 2], [3], [4, 5]] :: u8 list list"
  obtain rs f w where 1: "fwrite_all demo_disk ?xs demo_file [] = (rs, f, w)" by (metis prod_cases3)
  obtain rs' f' w' where 2: "fwrite_all demo_disk ?xs (demo_file\<lparr>io_buffer := None, io_buffer_size := 0\<rparr>) [] = (rs', f', w')"
    by (metis prod_cases3)
  have "winx_fclose demo_disk (Some f) w = write_at [] 0 (concat ?xs)"
    using buffered_write_equivalent [OF _ _ _ _ _ _ _ _ 1 2, of "\<lambda>w. w" "[0, 0, 0, 0]"] demo_disk_stores by auto
  then show ?thesis using 1 by (simp add: write_at_def)
qed

end
