(* ===== verification/Winx_List.thy ===== *)
theory Winx_List
  imports Prelude
begin

text \<open>
  Model of \<open>zenwinx/src/zenwinx/list.c\<close>: circular doubly linked lists on an explicit heap.
  An address is a natural number and \<open>0\<close> is \<open>NULL\<close>; the heap maps the addresses of the live
  blocks to their \<open>list_entry\<close>. Every operation returns an \<open>option\<close>: \<open>None\<close> is an access
  through a pointer to no live block, or a loop that does not end. \<open>winx_malloc\<close> belongs to the
  process heap, so the address it returned and the bytes it left there are arguments.

  The abstraction \<open>circ h head xs\<close> says that \<open>head\<close> is the head of a well-formed ring whose
  items are \<open>xs\<close>, in order. The locale \<open>dlist_adt\<close> states the contract the callers rely on.
\<close>

type_synonym addr = nat

record list_entry =
  nxt :: addr
  prv :: addr

type_synonym heap = "addr \<rightharpoonup> list_entry"

definition sizeof_list_entry :: int where
  "sizeof_list_entry = 16"

definition load_next :: "heap \<Rightarrow> addr \<Rightarrow> addr option" where
  "load_next h p = map_option nxt (h p)"

definition load_prev :: "heap \<Rightarrow> addr \<Rightarrow> addr option" where
  "load_prev h p = map_option prv (h p)"

definition store_next :: "heap \<Rightarrow> addr \<Rightarrow> addr \<Rightarrow> heap option" where
  "store_next h p v = (case h p of None \<Rightarrow> None | Some e \<Rightarrow> Some (h(p \<mapsto> e\<lparr>nxt := v\<rparr>)))"

definition store_prev :: "heap \<Rightarrow> addr \<Rightarrow> addr \<Rightarrow> heap option" where
  "store_prev h p v = (case h p of None \<Rightarrow> None | Some e \<Rightarrow> Some (h(p \<mapsto> e\<lparr>prv := v\<rparr>)))"

definition winx_list_insert ::
  "addr \<Rightarrow> list_entry \<Rightarrow> heap \<Rightarrow> addr \<Rightarrow> addr \<Rightarrow> int \<Rightarrow> (heap \<times> addr \<times> addr) option" where
  "winx_list_insert new_item junk h head prev sz =
     (if sz mod 2 ^ 64 < sizeof_list_entry then Some (h, head, 0)
      else
        let h = (if new_item = 0 then h else h(new_item \<mapsto> junk))
        in if head = 0 then do {
             h \<leftarrow> store_next h new_item new_item;
             h \<leftarrow> store_prev h new_item new_item;
             Some (h, new_item, new_item)
           }
           else do {
             (prev, head) \<leftarrow>
               (if prev = 0 then do { p \<leftarrow> load_prev h head; Some (p, new_item) }
                else Some (prev, head));
             h \<leftarrow> store_prev h new_item prev;
             n \<leftarrow> load_next h prev;
             h \<leftarrow> store_next h new_item n;
             p \<leftarrow> load_prev h new_item;
             h \<leftarrow> store_next h p new_item;
             n \<leftarrow> load_next h new_item;
             h \<leftarrow> store_prev h n new_item;
             Some (h, head, new_item)
           })"

definition winx_list_remove :: "heap \<Rightarrow> addr \<Rightarrow> addr \<Rightarrow> (heap \<times> addr) option" where
  "winx_list_remove h head item =
     (if item = 0 then Some (h, head)
      else if head = 0 then Some (h, head)
      else do {
        alone \<leftarrow> (if item = head then do { n \<leftarrow> load_next h item; Some (n = head) } else Some False);
        if alone then Some (h(item := None), 0)
        else do {
          head \<leftarrow> (if item = head then load_next h head else Some head);
          p \<leftarrow> load_prev h item;
          n \<leftarrow> load_next h item;
          h \<leftarrow> store_next h p n;
          n \<leftarrow> load_next h item;
          p \<leftarrow> load_prev h item;
          h \<leftarrow> store_prev h n p;
          Some (h(item := None), head)
        }
      })"

partial_function (option) destroy_loop :: "heap \<Rightarrow> addr \<Rightarrow> addr \<Rightarrow> heap option" where
  "destroy_loop h head item = do {
     next \<leftarrow> load_next h item;
     (if next \<noteq> head then destroy_loop (h(item := None)) head next
      else Some (h(item := None)))
   }"

definition winx_list_destroy :: "heap \<Rightarrow> addr \<Rightarrow> (heap \<times> addr) option" where
  "winx_list_destroy h head =
     (if head = 0 then Some (h, head)
      else do { h \<leftarrow> destroy_loop h head head; Some (h, 0) })"

subsection \<open>The ring abstraction\<close>

definition links :: "heap \<Rightarrow> addr \<Rightarrow> addr \<Rightarrow> bool" where
  "links h a b \<longleftrightarrow> load_next h a = Some b \<and> load_prev h b = Some a"

definition circ :: "heap \<Rightarrow> addr \<Rightarrow> addr list \<Rightarrow> bool" where
  "circ h head xs \<longleftrightarrow>
     (if xs = [] then head = 0
      else head = hd xs \<and> distinct xs \<and> 0 \<notin> set xs \<and> successively (links h) (xs @ [hd xs]))"

lemma circ_Nil [simp]: "circ h head [] \<longleftrightarrow> head = 0"
  by (simp add: circ_def)

lemma circ_nonempty:
  "xs \<noteq> [] \<Longrightarrow> circ h head xs \<longleftrightarrow>
     head = hd xs \<and> distinct xs \<and> 0 \<notin> set xs \<and> successively (links h) (xs @ [hd xs])"
  by (simp add: circ_def)

lemma circ_head: "circ h head xs \<Longrightarrow> head = 0 \<longleftrightarrow> xs = []"
  by (cases xs) (auto simp: circ_def)

lemma linksE:
  assumes "links h a b"
  obtains ea eb where "h a = Some ea" "h b = Some eb" "nxt ea = b" "prv eb = a"
  using assms by (auto simp: links_def load_next_def load_prev_def)

text \<open>A chain of links survives every update that keeps the forward pointers of its sources
  and the backward pointers of its targets.\<close>

lemma links_frame:
  assumes "successively (links h) zs"
    and "\<And>a. a \<in> set (butlast zs) \<Longrightarrow> load_next h' a = load_next h a"
    and "\<And>b. b \<in> set (tl zs) \<Longrightarrow> load_prev h' b = load_prev h b"
  shows "successively (links h') zs"
  using assms(1) by (rule successively_transfer) (simp add: links_def assms(2,3))

lemma links_dom:
  assumes "successively (links h) (x # y # zs)"
  shows "set (x # y # zs) \<subseteq> dom h"
  using assms
proof (induction zs arbitrary: x y)
  case Nil
  then show ?case by (auto elim!: linksE)
next
  case (Cons z zs)
  then have "set (y # z # zs) \<subseteq> dom h" by (intro Cons.IH) auto
  moreover have "x \<in> dom h" using Cons.prems by (auto elim!: linksE)
  ultimately show ?case by auto
qed

lemma circ_dom: "circ h head xs \<Longrightarrow> set xs \<subseteq> dom h"
proof (cases xs)
  case (Cons x ys)
  assume "circ h head xs"
  then have "successively (links h) (x # (ys @ [x]))"
    using Cons by (simp add: circ_def)
  moreover obtain z zs where z: "ys @ [x] = z # zs"
    by (cases "ys @ [x]") auto
  ultimately have "set (x # z # zs) \<subseteq> dom h"
    by (intro links_dom) simp
  moreover have "set (z # zs) = insert x (set ys)"
    unfolding z [symmetric] by simp
  ultimately show ?thesis using Cons by auto
qed simp

text \<open>The ring may be read from any of its items.\<close>

lemma ring_rotate:
  assumes "bs \<noteq> []"
  shows "successively (links h) ((x # bs) @ [x]) \<longleftrightarrow>
    successively (links h) ((bs @ [x]) @ [hd bs])"
  using assms by (auto simp: successively_append_iff successively_Cons)

subsection \<open>Insertion\<close>

lemma insert_exec:
  assumes "links h p q" "h new_item = None" "new_item \<noteq> 0" "p \<noteq> 0" "head \<noteq> 0"
    and "sizeof_list_entry \<le> sz mod 2 ^ 64"
  obtains h' where
    "winx_list_insert new_item junk h head p sz = Some (h', head, new_item)"
    "load_next h' = (load_next h)(new_item \<mapsto> q, p \<mapsto> new_item)"
    "load_prev h' = (load_prev h)(new_item \<mapsto> p, q \<mapsto> new_item)"
    "\<And>a. a \<notin> {new_item, p, q} \<Longrightarrow> h' a = h a"
proof -
  obtain ep eq where e: "h p = Some ep" "h q = Some eq" "nxt ep = q" "prv eq = p"
    using assms(1) by (rule linksE)
  have ne: "p \<noteq> new_item" "q \<noteq> new_item"
    using e assms(2) by auto
  define h4 where "h4 = h(new_item \<mapsto> junk\<lparr>prv := p, nxt := q\<rparr>, p \<mapsto> ep\<lparr>nxt := new_item\<rparr>)"
  define h5 where "h5 = h4(q \<mapsto> (the (h4 q))\<lparr>prv := new_item\<rparr>)"
  show ?thesis
  proof (rule that [of h5])
    show "winx_list_insert new_item junk h head p sz = Some (h5, head, new_item)"
      using assms(2-) e ne
      by (auto simp: winx_list_insert_def store_next_def store_prev_def load_next_def
          load_prev_def h5_def h4_def)
  qed (use assms(2-) e ne in \<open>auto simp: h4_def h5_def load_next_def load_prev_def fun_eq_iff\<close>)
qed

lemma circ_split:
  assumes "circ h head (as @ p # bs)"
  shows "head = hd (as @ [p])" "head \<noteq> 0" "p \<noteq> 0" "distinct (as @ p # bs)" "0 \<notin> set (as @ p # bs)"
    "successively (links h) (as @ [p])" "links h p (hd (bs @ [hd (as @ [p])]))"
    "successively (links h) (bs @ [hd (as @ [p])])"
  using assms circ_head [OF assms]
  by (auto simp: circ_def successively_append_iff successively_Cons hd_append split: if_splits)

lemma winx_list_insert_after:
  assumes c: "circ h head (as @ p # bs)" and new: "h new_item = None" "new_item \<noteq> 0"
    and sz: "sizeof_list_entry \<le> sz mod 2 ^ 64"
  shows "\<exists>h'. winx_list_insert new_item junk h head p sz = Some (h', head, new_item) \<and>
    circ h' head (as @ p # new_item # bs) \<and>
    (\<forall>a. a \<notin> set (as @ p # new_item # bs) \<longrightarrow> h' a = h a)"
proof -
  define f where "f = hd (as @ [p])"
  define q where "q = hd (bs @ [f])"
  note s = circ_split [OF c, folded f_def]
  have dom: "set (as @ p # bs) \<subseteq> dom h" by (rule circ_dom [OF c])
  have new_notin: "new_item \<notin> set (as @ p # bs)" using dom new by auto
  have q_in: "q \<in> set (as @ p # bs)"
    by (cases bs) (auto simp: q_def f_def hd_append)
  obtain h' where h': "winx_list_insert new_item junk h head p sz = Some (h', head, new_item)"
    "load_next h' = (load_next h)(new_item \<mapsto> q, p \<mapsto> new_item)"
    "load_prev h' = (load_prev h)(new_item \<mapsto> p, q \<mapsto> new_item)"
    "\<And>a. a \<notin> {new_item, p, q} \<Longrightarrow> h' a = h a"
    using insert_exec [of h p q new_item head sz junk] s(2,3,7) new sz
    by (auto simp: q_def)
  have left: "successively (links h') (as @ [p])"
  proof (rule links_frame [OF s(6)])
    fix a assume "a \<in> set (butlast (as @ [p]))"
    then show "load_next h' a = load_next h a"
      using s(4) new_notin by (auto simp: h'(2))
  next
    fix b assume b: "b \<in> set (tl (as @ [p]))"
    then have "b \<noteq> q"
      using s(4) by (cases as; cases bs) (auto simp: q_def f_def)
    moreover have "b \<noteq> new_item"
      using b new_notin by (cases as) auto
    ultimately show "load_prev h' b = load_prev h b" by (simp add: h'(3))
  qed
  have right: "successively (links h') (bs @ [f])"
  proof (rule links_frame [OF s(8)])
    fix a assume "a \<in> set (butlast (bs @ [f]))"
    then show "load_next h' a = load_next h a"
      using s(4) new_notin by (auto simp: h'(2))
  next
    fix b assume b: "b \<in> set (tl (bs @ [f]))"
    then have "b \<noteq> q"
      using s(4) by (cases as; cases bs) (auto simp: q_def f_def)
    moreover have "b \<noteq> new_item"
      using b new_notin by (cases as; cases bs) (auto simp: f_def)
    ultimately show "load_prev h' b = load_prev h b" by (simp add: h'(3))
  qed
  have "links h' p new_item" "links h' new_item q"
    using new_notin q_in by (auto simp: links_def h'(2,3))
  then have "successively (links h') ((as @ [p]) @ [new_item] @ (bs @ [f]))"
    using left right by (simp add: successively_append_iff successively_Cons q_def)
  then have "circ h' head (as @ p # new_item # bs)"
    using s(1,4,5) new(2) new_notin by (auto simp: circ_def f_def hd_append)
  moreover have "\<forall>a. a \<notin> set (as @ p # new_item # bs) \<longrightarrow> h' a = h a"
    using h'(4) q_in by auto
  ultimately show ?thesis using h'(1) by blast
qed

lemma circ_rotate:
  assumes "ys \<noteq> []"
  shows "circ h (hd ys) (ys @ [x]) \<longleftrightarrow> circ h x (x # ys)"
  using assms ring_rotate [of ys h x] by (auto simp: circ_def)

lemma insert_head_exec:
  assumes c: "circ h head xs" and xs: "xs \<noteq> []" and new: "h new_item = None" "new_item \<noteq> 0"
    and sz: "sizeof_list_entry \<le> sz mod 2 ^ 64"
    and after: "winx_list_insert new_item junk h head (last xs) sz = Some (h', head, new_item)"
  shows "winx_list_insert new_item junk h head 0 sz = Some (h', new_item, new_item)"
proof -
  have "last xs \<noteq> 0"
    using c xs by (metis circ_def last_in_set)
  moreover have "head \<noteq> 0"
    using xs circ_head [OF c] by simp
  moreover have "head \<noteq> new_item"
    using circ_dom [OF c] c xs new(1) by (metis circ_def domIff hd_in_set subsetD)
  moreover have "load_prev h head = Some (last xs)"
    using c xs by (auto simp: circ_def successively_append_iff links_def)
  ultimately have "load_prev (h(new_item \<mapsto> junk)) head = Some (last xs)"
    by (simp add: load_prev_def)
  with \<open>last xs \<noteq> 0\<close> \<open>head \<noteq> 0\<close> after show ?thesis
    using new(2) sz by (auto simp: winx_list_insert_def bind_eq_Some_conv)
qed

lemma winx_list_insert_head:
  assumes c: "circ h head xs" and new: "h new_item = None" "new_item \<noteq> 0"
    and sz: "sizeof_list_entry \<le> sz mod 2 ^ 64"
  shows "\<exists>h'. winx_list_insert new_item junk h head 0 sz = Some (h', new_item, new_item) \<and>
    circ h' new_item (new_item # xs) \<and> (\<forall>a. a \<notin> set (new_item # xs) \<longrightarrow> h' a = h a)"
proof (cases "xs = []")
  case True
  with c show ?thesis
    using new sz
    by (auto simp: winx_list_insert_def store_next_def store_prev_def circ_def links_def
        load_next_def load_prev_def)
next
  case False
  then have xs: "xs = butlast xs @ last xs # []" by simp
  obtain h' where h': "winx_list_insert new_item junk h head (last xs) sz = Some (h', head, new_item)"
    "circ h' head (xs @ [new_item])" "\<forall>a. a \<notin> set (xs @ [new_item]) \<longrightarrow> h' a = h a"
    using winx_list_insert_after [of h head "butlast xs" "last xs" "[]" new_item sz junk] c new sz xs
    by (metis append.assoc append_Cons append_Nil)
  have "head = hd xs" using c False by (simp add: circ_def)
  then have "circ h' new_item (new_item # xs)"
    using h'(2) False by (simp add: circ_rotate)
  with h'(3) insert_head_exec [OF c False new sz h'(1)] show ?thesis
    by auto
qed

text \<open>A block too small to hold the links is refused and nothing changes.\<close>

lemma winx_list_insert_small:
  "sz mod 2 ^ 64 < sizeof_list_entry \<Longrightarrow>
     winx_list_insert new_item junk h head prev sz = Some (h, head, 0)"
  by (simp add: winx_list_insert_def)

subsection \<open>Removal\<close>

lemma remove_exec:
  assumes "links h p x" "links h x q" "p \<noteq> x" "q \<noteq> x" "x \<noteq> 0" "head \<noteq> 0"
  obtains h' where
    "winx_list_remove h head x = Some (h', if x = head then q else head)"
    "load_next h' = (load_next h)(p \<mapsto> q, x := None)"
    "load_prev h' = (load_prev h)(q \<mapsto> p, x := None)"
    "\<And>a. a \<notin> {p, x, q} \<Longrightarrow> h' a = h a" "h' x = None"
proof -
  obtain ep ex where 1: "h p = Some ep" "h x = Some ex" "nxt ep = x" "prv ex = p"
    using assms(1) by (rule linksE)
  obtain eq where 2: "h q = Some eq" "nxt ex = q" "prv eq = x"
    using assms(2) 1(2) by (auto elim!: linksE)
  define h1 where "h1 = h(p \<mapsto> ep\<lparr>nxt := q\<rparr>)"
  define h2 where "h2 = (h1(q \<mapsto> (the (h1 q))\<lparr>prv := p\<rparr>))(x := None)"
  show ?thesis
  proof (rule that [of h2])
    show "winx_list_remove h head x = Some (h2, if x = head then q else head)"
      using assms(3-) 1 2
      by (auto simp: winx_list_remove_def store_next_def store_prev_def load_next_def
          load_prev_def h2_def h1_def)
  qed (use assms(3-) 1 2 in \<open>auto simp: h1_def h2_def load_next_def load_prev_def fun_eq_iff\<close>)
qed

lemma remove_ring:
  assumes ring: "successively (links h) ((as @ x # bs) @ [hd as])"
    and ne: "as \<noteq> []" and d: "distinct (as @ x # bs)"
    and q: "q = hd (bs @ [hd as])"
    and n': "load_next h' = (load_next h)(last as \<mapsto> q, x := None)"
    and p': "load_prev h' = (load_prev h)(q \<mapsto> last as, x := None)"
  shows "successively (links h') ((as @ bs) @ [hd as])"
proof -
  have parts: "successively (links h) as" "successively (links h) (bs @ [hd as])"
    using ring ne by (auto simp: successively_append_iff successively_Cons)
  have as: "as = butlast as @ [last as]" using ne by simp
  have dl: "last as \<notin> set (butlast as)"
    using d as by (metis distinct_append not_distinct_conv_prefix)
  have hd_tl: "hd as \<notin> set (tl as)" "hd as \<in> set as" "last as \<in> set as"
    using d ne by (cases as; simp)+
  have left: "successively (links h') as"
  proof (rule links_frame [OF parts(1)])
    fix a assume "a \<in> set (butlast as)"
    moreover from this have "a \<in> set as" by (rule in_set_butlastD)
    ultimately show "load_next h' a = load_next h a"
      using dl d by (auto simp: n')
  next
    fix b assume b: "b \<in> set (tl as)"
    then have "b \<in> set as" using ne by (cases as) auto
    moreover have "b \<noteq> q"
      using b hd_tl d \<open>b \<in> set as\<close> by (cases bs) (auto simp: q)
    ultimately show "load_prev h' b = load_prev h b"
      using d by (auto simp: p')
  qed
  have right: "successively (links h') (bs @ [hd as])"
  proof (rule links_frame [OF parts(2)])
    fix a assume "a \<in> set (butlast (bs @ [hd as]))"
    then show "load_next h' a = load_next h a"
      using d hd_tl(3) by (auto simp: n')
  next
    fix b assume b: "b \<in> set (tl (bs @ [hd as]))"
    then have "b \<noteq> q" "b \<noteq> x"
      using d hd_tl(2) by (cases bs; auto simp: q)+
    then show "load_prev h' b = load_prev h b" by (simp add: p')
  qed
  have "q \<noteq> x" "last as \<noteq> x"
    using d hd_tl by (cases bs; auto simp: q)+
  then have "links h' (last as) q"
    by (simp add: links_def n' p')
  with left right ne show ?thesis
    by (auto simp: successively_append_iff [of _ as] q)
qed

lemma winx_list_remove_item:
  assumes c: "circ h head (as @ x # bs)"
  shows "\<exists>h' head'. winx_list_remove h head x = Some (h', head') \<and> circ h' head' (as @ bs) \<and>
    h' x = None \<and> (\<forall>a. a \<notin> set (as @ x # bs) \<longrightarrow> h' a = h a)"
proof -
  note s = circ_split [OF c]
  consider (alone) "as = []" "bs = []" | (inner) "as \<noteq> []" | (first) "as = []" "bs \<noteq> []"
    by auto
  then show ?thesis
  proof cases
    case alone
    then have "head = x" "load_next h x = Some x"
      using s by (auto simp: links_def)
    then show ?thesis
      using alone s(2) by (auto simp: winx_list_remove_def)
  next
    case inner
    define q where "q = hd (bs @ [hd as])"
    have ring: "successively (links h) ((as @ x # bs) @ [hd as])"
      using c inner by (simp add: circ_def)
    have q_in: "q \<in> set as \<union> set bs" using inner by (cases bs) (auto simp: q_def)
    have "links h (last as) x" "links h x q"
      using s(6,7) inner by (auto simp: successively_append_iff q_def)
    moreover have "last as \<noteq> x" "q \<noteq> x" "x \<noteq> head"
      using s(1,4) q_in inner last_in_set [OF inner] by auto
    ultimately obtain h' where h': "winx_list_remove h head x = Some (h', head)"
      "load_next h' = (load_next h)(last as \<mapsto> q, x := None)"
      "load_prev h' = (load_prev h)(q \<mapsto> last as, x := None)"
      "\<And>a. a \<notin> {last as, x, q} \<Longrightarrow> h' a = h a" "h' x = None"
      using remove_exec [of h "last as" x q head] s(2,3) by (auto split: if_splits)
    have "successively (links h') ((as @ bs) @ [hd as])"
      by (rule remove_ring [OF ring inner s(4) q_def h'(2,3)])
    then have "circ h' head (as @ bs)"
      using s(1,4,5) inner by (auto simp: circ_def)
    have "{last as, x, q} \<subseteq> set (as @ x # bs)"
      using q_in last_in_set [OF inner] by auto
    then have "\<forall>a. a \<notin> set (as @ x # bs) \<longrightarrow> h' a = h a"
      by (intro allI impI h'(4)) auto
    with \<open>circ h' head (as @ bs)\<close> show ?thesis using h'(1,5) by blast
  next
    case first
    have ring: "successively (links h) ((bs @ x # []) @ [hd bs])"
      using c first ring_rotate [of bs h x] by (simp add: circ_def)
    have "links h (last bs) x" "links h x (hd bs)"
      using ring first by (auto simp: successively_append_iff)
    moreover have ne: "last bs \<noteq> x" "hd bs \<noteq> x" "x = head"
      using s(1,4) first by (auto dest: last_in_set hd_in_set)
    ultimately obtain h' where h': "winx_list_remove h head x = Some (h', hd bs)"
      "load_next h' = (load_next h)(last bs \<mapsto> hd bs, x := None)"
      "load_prev h' = (load_prev h)(hd bs \<mapsto> last bs, x := None)"
      "\<And>a. a \<notin> {last bs, x, hd bs} \<Longrightarrow> h' a = h a" "h' x = None"
      using remove_exec [of h "last bs" x "hd bs" head] s(2,3) by (auto split: if_splits)
    have "successively (links h') ((bs @ []) @ [hd bs])"
      by (rule remove_ring [OF ring first(2) _ _ h'(2,3)]) (use s(4) first in auto)
    then have "circ h' (hd bs) bs"
      using s(4,5) first by (auto simp: circ_def)
    have "{last bs, x, hd bs} \<subseteq> set (as @ x # bs)"
      using first last_in_set [OF first(2)] hd_in_set [OF first(2)] by auto
    then have "\<forall>a. a \<notin> set (as @ x # bs) \<longrightarrow> h' a = h a"
      by (intro allI impI h'(4)) auto
    with \<open>circ h' (hd bs) bs\<close> show ?thesis using h'(1,5) first by auto
  qed
qed

lemma winx_list_remove_null [simp]: "winx_list_remove h head 0 = Some (h, head)"
  and winx_list_remove_empty [simp]: "winx_list_remove h 0 item = Some (h, 0)"
  by (simp_all add: winx_list_remove_def)

subsection \<open>Destruction\<close>

lemma destroy_loop_run:
  assumes "successively (\<lambda>a b. load_next h a = Some b) (x # ys @ [head])"
    and "distinct (x # ys)" "head \<notin> set ys"
  shows "destroy_loop h head x = Some (\<lambda>a. if a \<in> set (x # ys) then None else h a)"
  using assms
proof (induction ys arbitrary: x h)
  case Nil
  then show ?case by (subst destroy_loop.simps) (simp add: fun_upd_def)
next
  case (Cons y ys)
  define g where "g = h(x := None)"
  have nx: "load_next h x = Some y" "y \<noteq> head" using Cons.prems by auto
  have "successively (\<lambda>a b. load_next h a = Some b) (y # ys @ [head])"
    using Cons.prems(1) by simp
  then have "successively (\<lambda>a b. load_next g a = Some b) (y # ys @ [head])"
    by (rule successively_transfer)
      (use Cons.prems(2) in \<open>auto simp: g_def load_next_def butlast_append\<close>)
  from Cons.IH [OF this]
  have "destroy_loop g head y = Some (\<lambda>a. if a \<in> set (y # ys) then None else g a)"
    using Cons.prems(2,3) by simp
  moreover have "(\<lambda>a. if a \<in> set (y # ys) then None else g a) =
    (\<lambda>a. if a \<in> set (x # y # ys) then None else h a)" by (rule ext) (simp add: g_def)
  ultimately have "destroy_loop g head y = Some (\<lambda>a. if a \<in> set (x # y # ys) then None else h a)"
    by simp
  then show ?case
    unfolding g_def using nx by (subst destroy_loop.simps) simp
qed

lemma winx_list_destroy_all:
  assumes c: "circ h head xs"
  shows "winx_list_destroy h head = Some (\<lambda>a. if a \<in> set xs then None else h a, 0)"
proof (cases xs)
  case Nil
  with c show ?thesis by (simp add: winx_list_destroy_def)
next
  case (Cons x ys)
  with c have x: "head = x" "x \<noteq> 0" "distinct (x # ys)" "successively (links h) (x # ys @ [x])"
    by (auto simp: circ_def)
  from x(4) have "successively (\<lambda>a b. load_next h a = Some b) (x # ys @ [x])"
    by (rule successively_transfer) (simp add: links_def)
  with x(3) have "destroy_loop h x x = Some (\<lambda>a. if a \<in> set (x # ys) then None else h a)"
    by (intro destroy_loop_run) auto
  with x Cons show ?thesis by (simp add: winx_list_destroy_def)
qed

subsection \<open>The contract its callers rely on\<close>

text \<open>
  Callers of \<open>list.c\<close> build a list by inserting each new item after the previous one, starting
  from \<open>NULL\<close> (\<open>winx_get_free_volume_regions\<close>, \<open>winx_ftw_dump_file\<close>), and weed it out with
  one pass that removes items while it walks (\<open>ftw_remove_resident_streams\<close>,
  \<open>ftw_remove_invalid_streams\<close>). Both patterns are modelled over any provider of the contract.
\<close>

type_synonym insert_op =
  "addr \<Rightarrow> list_entry \<Rightarrow> heap \<Rightarrow> addr \<Rightarrow> addr \<Rightarrow> int \<Rightarrow> (heap \<times> addr \<times> addr) option"
type_synonym remove_op = "heap \<Rightarrow> addr \<Rightarrow> addr \<Rightarrow> (heap \<times> addr) option"

fun append_items ::
  "insert_op \<Rightarrow> int \<Rightarrow> (addr \<times> list_entry) list \<Rightarrow> heap \<Rightarrow> addr \<Rightarrow> addr \<Rightarrow> (heap \<times> addr \<times> addr) option"
where
  "append_items ins sz [] h head item = Some (h, head, item)"
| "append_items ins sz ((new_item, junk) # news) h head item = do {
     (h, head, item) \<leftarrow> ins new_item junk h head item sz;
     append_items ins sz news h head item
   }"

partial_function (option) weed_loop ::
  "remove_op \<Rightarrow> (addr \<Rightarrow> bool) \<Rightarrow> heap \<Rightarrow> addr \<Rightarrow> addr \<Rightarrow> (heap \<times> addr) option" where
  "weed_loop rem bad h filelist f =
     (if f = 0 then Some (h, filelist)
      else do {
        next \<leftarrow> load_next h f;
        (h', filelist') \<leftarrow> (if bad f then rem h filelist f else Some (h, filelist));
        (if filelist' = 0 then Some (h', filelist')
         else if next = filelist then Some (h', filelist')
         else weed_loop rem bad h' filelist' next)
      })"

locale dlist_adt =
  fixes repr :: "heap \<Rightarrow> addr \<Rightarrow> addr list \<Rightarrow> bool"
    and ins :: insert_op
    and rem :: remove_op
    and destroy :: "heap \<Rightarrow> addr \<Rightarrow> (heap \<times> addr) option"
    and sz :: int
  assumes repr_empty: "repr h 0 []"
    and repr_head: "repr h head xs \<Longrightarrow> head = (if xs = [] then 0 else hd xs)"
    and repr_dom: "repr h head xs \<Longrightarrow> set xs \<subseteq> dom h"
    and repr_valid: "repr h head xs \<Longrightarrow> distinct xs \<and> 0 \<notin> set xs"
    and repr_next: "repr h head (as @ x # bs) \<Longrightarrow> load_next h x = Some (hd (bs @ as @ [x]))"
    and ins_head: "repr h head xs \<Longrightarrow> h a = None \<Longrightarrow> a \<noteq> 0 \<Longrightarrow>
      \<exists>h'. ins a junk h head 0 sz = Some (h', a, a) \<and> repr h' a (a # xs) \<and>
        (\<forall>b. b \<notin> set (a # xs) \<longrightarrow> h' b = h b)"
    and ins_after: "repr h head (as @ p # bs) \<Longrightarrow> h a = None \<Longrightarrow> a \<noteq> 0 \<Longrightarrow>
      \<exists>h'. ins a junk h head p sz = Some (h', head, a) \<and> repr h' head (as @ p # a # bs) \<and>
        (\<forall>b. b \<notin> set (as @ p # a # bs) \<longrightarrow> h' b = h b)"
    and rem_item: "repr h head (as @ x # bs) \<Longrightarrow>
      \<exists>h' head'. rem h head x = Some (h', head') \<and> repr h' head' (as @ bs) \<and>
        h' x = None \<and> (\<forall>b. b \<notin> set (as @ x # bs) \<longrightarrow> h' b = h b)"
    and destroy_all: "repr h head xs \<Longrightarrow>
      destroy h head = Some (\<lambda>a. if a \<in> set xs then None else h a, 0)"
begin

lemma append_items_from:
  assumes "repr h head xs" "item = (if xs = [] then 0 else last xs)"
    and "distinct (map fst news)" "\<And>a. a \<in> fst ` set news \<Longrightarrow> h a = None \<and> a \<noteq> 0"
  shows "\<exists>h' head' item'. append_items ins sz news h head item = Some (h', head', item') \<and>
    repr h' head' (xs @ map fst news)"
  using assms
proof (induction news arbitrary: h head xs item)
  case Nil
  then show ?case by simp
next
  case (Cons n news)
  obtain a junk where n: "n = (a, junk)" by (cases n)
  have fresh: "h a = None" "a \<noteq> 0" using Cons.prems(4) [of a] n by auto
  obtain h' head' where step: "ins a junk h head item sz = Some (h', head', a)"
    "repr h' head' (xs @ [a])" "\<forall>b. b \<notin> set (xs @ [a]) \<longrightarrow> h' b = h b"
  proof (cases "xs = []")
    case True
    with Cons.prems ins_head [of h head xs a junk] fresh that show ?thesis by auto
  next
    case False
    then have xs: "butlast xs @ last xs # [] = xs" "butlast xs @ last xs # a # [] = xs @ [a]"
      by simp_all
    show ?thesis
      using ins_after [of h head "butlast xs" "last xs" "[]" a junk] fresh that Cons.prems(1,2) False
      unfolding xs by auto
  qed
  have out: "b \<notin> set (xs @ [a])" if "b \<in> fst ` set news" for b
    using that Cons.prems(3) Cons.prems(4) [of b] repr_dom [OF Cons.prems(1)] n by force
  have "\<exists>h'' head'' item''. append_items ins sz news h' head' a = Some (h'', head'', item'') \<and>
    repr h'' head'' ((xs @ [a]) @ map fst news)"
    by (rule Cons.IH [OF step(2)]) (use Cons.prems n out step(3) in auto)
  then show ?case using step(1) n by auto
qed

text \<open>Items inserted one after the other end up in the order of insertion.\<close>

lemma append_items_all:
  assumes "distinct (map fst news)" "\<And>a. a \<in> fst ` set news \<Longrightarrow> h a = None \<and> a \<noteq> 0"
  shows "\<exists>h' head' item'. append_items ins sz news h 0 0 = Some (h', head', item') \<and>
    repr h' head' (map fst news)"
  using append_items_from [OF repr_empty, where news = news and item = 0] assms by simp

lemma weed_loop_from:
  assumes "repr h filelist (as @ x # bs)" "\<And>a. a \<in> set as \<Longrightarrow> \<not> bad a"
  shows "\<exists>h' head'. weed_loop rem bad h filelist x = Some (h', head') \<and>
    repr h' head' (as @ filter (\<lambda>a. \<not> bad a) (x # bs))"
  using assms
proof (induction bs arbitrary: as x h filelist)
  case Nil
  note r = Nil.prems(1)
  have hd: "filelist = hd (as @ [x])" "x \<noteq> 0"
    using repr_head [OF r] repr_valid [OF r] by auto
  have nx: "load_next h x = Some filelist"
    using repr_next [OF r] hd by simp
  show ?case
  proof (cases "bad x")
    case True
    with rem_item [OF r] hd nx show ?thesis
      by (subst weed_loop.simps) auto
  next
    case False
    with r hd nx show ?thesis by (subst weed_loop.simps) auto
  qed
next
  case (Cons y bs)
  note r = Cons.prems(1)
  have hd: "filelist = hd (as @ [x])" "x \<noteq> 0" "distinct (as @ x # y # bs)"
    using repr_head [OF r] repr_valid [OF r] by (auto simp: hd_append)
  have "filelist \<noteq> 0"
    using hd repr_valid [OF r] by (cases as) auto
  have nx: "load_next h x = Some y" using repr_next [OF r] by simp
  have "y \<noteq> filelist" using hd by (cases as) auto
  show ?case
  proof (cases "bad x")
    case True
    obtain h' head' where step: "rem h filelist x = Some (h', head')" "repr h' head' (as @ y # bs)"
      using rem_item [OF r] by blast
    then have "head' \<noteq> 0"
      using repr_head [OF step(2)] repr_valid [OF step(2)] by (cases as) auto
    with True step hd nx \<open>y \<noteq> filelist\<close> \<open>filelist \<noteq> 0\<close> Cons.IH [OF step(2) Cons.prems(2)] show ?thesis
      by (subst weed_loop.simps) auto
  next
    case False
    have "repr h filelist ((as @ [x]) @ y # bs)" using r by simp
    moreover have "\<not> bad a" if "a \<in> set (as @ [x])" for a
      using that False Cons.prems(2) by auto
    ultimately obtain h' head' where "weed_loop rem bad h filelist y = Some (h', head')"
      "repr h' head' ((as @ [x]) @ filter (\<lambda>a. \<not> bad a) (y # bs))"
      using Cons.IH by blast
    with False hd nx \<open>y \<noteq> filelist\<close> \<open>filelist \<noteq> 0\<close> show ?thesis
      by (subst weed_loop.simps) auto
  qed
qed

text \<open>The weeding pass ends and keeps exactly the good items, in order.\<close>

lemma weed_loop_filter:
  assumes r: "repr h filelist xs"
  shows "\<exists>h' head'. weed_loop rem bad h filelist filelist = Some (h', head') \<and>
    repr h' head' (filter (\<lambda>a. \<not> bad a) xs)"
proof (cases xs)
  case Nil
  with r repr_head [OF r] show ?thesis by (subst weed_loop.simps) auto
next
  case (Cons x ys)
  with r repr_head [OF r] weed_loop_from [of h filelist "[]" x ys bad] show ?thesis by auto
qed

end

lemma circ_next: "circ h head (as @ x # bs) \<Longrightarrow> load_next h x = Some (hd (bs @ as @ [x]))"
  using circ_split(7) [of h head as x bs] by (auto simp: links_def hd_append split: if_splits)

interpretation winx_list: dlist_adt circ winx_list_insert winx_list_remove winx_list_destroy 16
proof (unfold_locales, goal_cases)
  case (6 h head xs a junk)
  then show ?case by (intro winx_list_insert_head) (auto simp: sizeof_list_entry_def)
next
  case (7 h head as p bs a junk)
  then show ?case by (intro winx_list_insert_after) (auto simp: sizeof_list_entry_def)
next
  case (8 h head as x bs)
  then show ?case by (rule winx_list_remove_item)
qed (simp_all add: circ_dom circ_next winx_list_destroy_all circ_def split: if_splits)

subsection \<open>Any history of insertions and removals\<close>

datatype list_op = Insert_head addr list_entry | Insert_after addr addr list_entry | Remove_item addr

fun list_run :: "insert_op \<Rightarrow> remove_op \<Rightarrow> int \<Rightarrow> list_op list \<Rightarrow> heap \<Rightarrow> addr \<Rightarrow> (heap \<times> addr) option" where
  "list_run ins rem sz [] h head = Some (h, head)"
| "list_run ins rem sz (Insert_head a junk # ops) h head = do {
     (h, head, _) \<leftarrow> ins a junk h head 0 sz;
     list_run ins rem sz ops h head
   }"
| "list_run ins rem sz (Insert_after p a junk # ops) h head = do {
     (h, head, _) \<leftarrow> ins a junk h head p sz;
     list_run ins rem sz ops h head
   }"
| "list_run ins rem sz (Remove_item x # ops) h head = do {
     (h, head) \<leftarrow> rem h head x;
     list_run ins rem sz ops h head
   }"

text \<open>The same history on lists, \<open>None\<close> when the caller breaks the rules: a new item is not
  \<open>NULL\<close> and not in the list, the item an insertion follows and a removed item are in it.\<close>

fun put_after :: "addr \<Rightarrow> addr \<Rightarrow> addr list \<Rightarrow> addr list" where
  "put_after p a [] = []"
| "put_after p a (x # xs) = (if x = p then x # a # xs else x # put_after p a xs)"

fun list_spec :: "list_op list \<Rightarrow> addr list \<Rightarrow> addr list option" where
  "list_spec [] xs = Some xs"
| "list_spec (Insert_head a junk # ops) xs =
     (if a \<noteq> 0 \<and> a \<notin> set xs then list_spec ops (a # xs) else None)"
| "list_spec (Insert_after p a junk # ops) xs =
     (if a \<noteq> 0 \<and> a \<notin> set xs \<and> p \<in> set xs then list_spec ops (put_after p a xs) else None)"
| "list_spec (Remove_item x # ops) xs =
     (if x \<in> set xs then list_spec ops (remove1 x xs) else None)"

lemma put_after_split: "p \<notin> set as \<Longrightarrow> put_after p a (as @ p # bs) = as @ p # a # bs"
  by (induction as) auto

lemma dom_framed:
  assumes "set ys \<subseteq> dom h'" "\<forall>b. b \<notin> set ys \<longrightarrow> h' b = None"
  shows "dom h' = set ys"
  using assms by (auto simp: dom_def)

context dlist_adt
begin

lemma history_refines:
  assumes "repr h head xs" "dom h = set xs" "list_spec ops xs = Some ys"
  shows "\<exists>h' head'. list_run ins rem sz ops h head = Some (h', head') \<and> repr h' head' ys \<and> dom h' = set ys"
  using assms
proof (induction ops xs arbitrary: h head rule: list_spec.induct)
  case (2 a junk ops xs)
  then have a: "a \<noteq> 0" "h a = None" "list_spec ops (a # xs) = Some ys" by (auto split: if_splits)
  obtain h' where h': "ins a junk h head 0 sz = Some (h', a, a)" "repr h' a (a # xs)"
    "\<forall>b. b \<notin> set (a # xs) \<longrightarrow> h' b = h b"
    using ins_head [OF 2(2) a(2,1)] by blast
  have "dom h' = set (a # xs)" using repr_dom [OF h'(2)] h'(3) 2(3)
    by (intro dom_framed) (auto simp: dom_def)
  with 2 h'(1,2) a show ?case by (auto split: if_splits)
next
  case (3 p a junk ops xs)
  then have a: "a \<noteq> 0" "h a = None" "p \<in> set xs" "list_spec ops (put_after p a xs) = Some ys"
    by (auto split: if_splits)
  obtain as bs where xs: "xs = as @ p # bs" "p \<notin> set as" using split_list_first [OF a(3)] by blast
  obtain h' where h': "ins a junk h head p sz = Some (h', head, a)" "repr h' head (put_after p a xs)"
    "\<forall>b. b \<notin> set (put_after p a xs) \<longrightarrow> h' b = h b"
    using ins_after [OF 3(2) [unfolded xs(1)] a(2,1), of junk] put_after_split [OF xs(2), of a bs] xs(1)
    by auto
  have "dom h' = set (put_after p a xs)"
    using repr_dom [OF h'(2)] h'(3) 3(3) put_after_split [OF xs(2), of a bs] xs(1)
    by (intro dom_framed) (auto simp: dom_def)
  with 3 h'(1,2) a show ?case by (auto split: if_splits)
next
  case (4 x ops xs)
  then have x: "x \<in> set xs" "list_spec ops (remove1 x xs) = Some ys" by (auto split: if_splits)
  obtain as bs where xs: "xs = as @ x # bs" "x \<notin> set as" using split_list_first [OF x(1)] by blast
  then have r: "remove1 x xs = as @ bs" by (simp add: remove1_append)
  obtain h' head' where h': "rem h head x = Some (h', head')" "repr h' head' (as @ bs)" "h' x = None"
    "\<forall>b. b \<notin> set xs \<longrightarrow> h' b = h b"
    using rem_item [OF 4(2) [unfolded xs(1)]] xs(1) by auto
  have "dom h' = set (remove1 x xs)"
    unfolding r
  proof (intro dom_framed allI impI)
    fix b assume "b \<notin> set (as @ bs)"
    then show "h' b = None" using h'(3,4) 4(3) xs(1) by (cases "b = x") (auto simp: dom_def)
  qed (rule repr_dom [OF h'(2)])
  with 4 h'(1,2) x r show ?case by (auto split: if_splits)
qed simp

end

text \<open>
  C6: any history of \<open>winx_list_insert\<close> (at the head or after an item) and \<open>winx_list_remove\<close>
  calls that follows the caller's rules runs without a fault and leaves a well-formed doubly
  linked ring that holds the items in the order of the list history, and no other memory.
\<close>

theorem winx_list_history:
  assumes "circ h head xs" "dom h = set xs" "list_spec ops xs = Some ys"
  shows "\<exists>h' head'. list_run winx_list_insert winx_list_remove 16 ops h head = Some (h', head') \<and>
    circ h' head' ys \<and> dom h' = set ys"
  by (rule winx_list.history_refines [OF assms])

theorem winx_list_history_witness:
  "\<exists>h' head'. list_run winx_list_insert winx_list_remove 16
      [Insert_head 5 \<lparr>nxt = 0, prv = 0\<rparr>, Insert_after 5 7 \<lparr>nxt = 9, prv = 9\<rparr>,
       Insert_head 3 \<lparr>nxt = 0, prv = 1\<rparr>, Remove_item 3, Insert_after 5 3 \<lparr>nxt = 0, prv = 0\<rparr>] Map.empty 0 =
      Some (h', head') \<and> circ h' head' [5, 3, 7] \<and> dom h' = set [5, 3, 7]"
  by (rule winx_list_history [of _ _ "[]"]) simp_all

text \<open>
  C24: \<open>winx_list_destroy\<close> of a well-formed ring ends, frees every item of it and nothing else, and
  leaves the caller's list pointer \<open>NULL\<close>.
\<close>

theorem winx_list_destroy_frees_all:
  assumes "circ h head xs"
  shows "winx_list_destroy h head = Some (\<lambda>a. if a \<in> set xs then None else h a, 0)"
  by (rule winx_list_destroy_all [OF assms])

theorem winx_list_destroy_frees_all_witness:
  "winx_list_destroy [4 \<mapsto> \<lparr>nxt = 6, prv = 6\<rparr>, 6 \<mapsto> \<lparr>nxt = 4, prv = 4\<rparr>] 4 =
     Some (\<lambda>a. if a \<in> set [4, 6] then None else [4 \<mapsto> \<lparr>nxt = 6, prv = 6\<rparr>, 6 \<mapsto> \<lparr>nxt = 4, prv = 4\<rparr>] a, 0)"
  by (rule winx_list_destroy_frees_all) (simp add: circ_def links_def load_next_def load_prev_def)

end
