(* ===== verification/Ftw.thy ===== *)
theory Ftw
  imports Winx_File Winx_List
begin

unbundle bit_operations_syntax

text \<open>
  Model of the file tree walk of \<open>zenwinx/src/zenwinx/ftw.c\<close>: the map of the blocks of a file
  (\<open>winx_ftw_dump_file\<close>), the walk through a directory tree, and the removal of entries from the list.

  A list of files is the list of its items from the head pointer on; new items are put in front, as
  the code inserts them with no previous item. The callbacks of the caller and the calls of the
  system are functions on the outside world.
\<close>

subsection \<open>The map of a file\<close>

record mapping_pair =
  p_Vcn :: u64
  p_Lcn :: u64

record retrieval_answer =
  ra_status :: u32
  ra_iosb :: u32
  ra_StartVcn :: u64
  ra_Pair :: "mapping_pair list"

record 'w nt_ftw = "'w nt_io" +
  get_retrieval_pointers :: "handle \<Rightarrow> u64 \<Rightarrow> 'w \<Rightarrow> retrieval_answer \<times> 'w"

definition reset_disp :: "winx_file_info \<Rightarrow> winx_file_info" where
  "reset_disp f = f\<lparr>f_disp := \<lparr>d_clusters = 0, d_fragments = 0, d_blockmap = []\<rparr>\<rparr>"

definition validate_blockmap :: "winx_file_info \<Rightarrow> winx_file_info" where
  "validate_blockmap f =
     (case f_blockmap f of
        b1 # b2 # _ \<Rightarrow>
          if b_vcn b1 = b_vcn b2 then f\<lparr>f_disp := (f_disp f)\<lparr>d_blockmap := []\<rparr>\<rparr> else f
      | _ \<Rightarrow> f)"

text \<open>One more block at the end of the map of the file.\<close>

definition add_block :: "winx_blockmap \<Rightarrow> winx_file_info \<Rightarrow> winx_file_info" where
  "add_block block f =
     (let bm = f_blockmap f;
          fragment = (bm = [] \<or> b_lcn block \<noteq> b_lcn (last bm) + b_length (last bm))
      in f\<lparr>f_disp := \<lparr>d_clusters = d_clusters (f_disp f) + b_length block,
                      d_fragments = (if fragment then d_fragments (f_disp f) + 1 else d_fragments (f_disp f)),
                      d_blockmap = bm @ [block]\<rparr>\<rparr>)"

text \<open>The loop over the pairs of one answer; \<open>None\<close> is the jump to \<open>dump_failed\<close>.\<close>

fun pairs_loop :: "mapping_pair list \<Rightarrow> u64 \<Rightarrow> winx_file_info \<Rightarrow> (u64 \<times> winx_file_info) option" where
  "pairs_loop [] startVcn f = Some (startVcn, f)"
| "pairs_loop (p # ps) startVcn f =
     (if p_Lcn p = LLINVALID then pairs_loop ps (p_Vcn p) f
      else if p_Vcn p = 0 then None
      else pairs_loop ps (p_Vcn p)
             (add_block \<lparr>b_vcn = startVcn, b_lcn = p_Lcn p, b_length = p_Vcn p - startVcn\<rparr> f))"

type_synonym 'w terminator = "('w \<Rightarrow> bool \<times> 'w) option"

definition ftw_check_for_termination :: "'w terminator \<Rightarrow> 'w \<Rightarrow> bool \<times> 'w" where
  "ftw_check_for_termination t w = (case t of None \<Rightarrow> (False, w) | Some t \<Rightarrow> t w)"

datatype dump_result = Dump_done | Dump_reset | Dump_failed

partial_function (option) dump_loop ::
  "('w, 'z) nt_ftw_scheme \<Rightarrow> handle \<Rightarrow> 'w terminator \<Rightarrow> u64 \<Rightarrow> winx_file_info \<Rightarrow> 'w \<Rightarrow>
    (dump_result \<times> winx_file_info \<times> 'w) option" where
  "dump_loop nt h t startVcn f w =
     (let (a, w) = get_retrieval_pointers nt h startVcn w;
          status = (if NT_SUCCESS (ra_status a) then ra_iosb a else ra_status a)
      in if status \<noteq> STATUS_SUCCESS \<and> status \<noteq> STATUS_BUFFER_OVERFLOW then
           Some (if status = STATUS_END_OF_FILE then Dump_reset else Dump_failed, f, w)
         else
           let (stop, w) = ftw_check_for_termination t w
           in if stop then Some (Dump_reset, f, w)
              else if ra_Pair a = [] \<and> status \<noteq> STATUS_SUCCESS then Some (Dump_reset, f, w)
              else case pairs_loop (ra_Pair a) (ra_StartVcn a) f of
                None \<Rightarrow> Some (Dump_failed, f, w)
              | Some (startVcn, f) \<Rightarrow>
                  if status \<noteq> STATUS_SUCCESS then dump_loop nt h t startVcn f w
                  else Some (Dump_done, f, w))"

definition winx_ftw_dump_file :: "('w, 'z) nt_ftw_scheme \<Rightarrow> 'w terminator \<Rightarrow> winx_file_info \<Rightarrow> 'w \<Rightarrow>
  (int \<times> winx_file_info \<times> 'w) option" where
  "winx_ftw_dump_file nt t f w =
     (let f = reset_disp f;
          ((status, h), w) = winx_defrag_fopen nt f WINX_OPEN_FOR_DUMP w
      in if status \<noteq> STATUS_SUCCESS then Some (0, f, w)
         else do {
           (r, f, w) \<leftarrow> dump_loop nt h t 0 f w;
           let w = winx_defrag_fclose nt h w;
           Some (case r of
                   Dump_done \<Rightarrow> (0, validate_blockmap f, w)
                 | Dump_reset \<Rightarrow> (0, reset_disp f, w)
                 | Dump_failed \<Rightarrow> (-1, reset_disp f, w))
         })"

subsection \<open>Summaries of a map\<close>

fun fragment_count :: "winx_blockmap list \<Rightarrow> nat" where
  "fragment_count [] = 0"
| "fragment_count [b] = 1"
| "fragment_count (b # c # bs) =
     (if b_lcn c \<noteq> b_lcn b + b_length b then 1 else 0) + fragment_count (c # bs)"

definition summary_ok :: "winx_file_disposition \<Rightarrow> bool" where
  "summary_ok d \<longleftrightarrow>
     d_clusters d = sum_list (map b_length (d_blockmap d)) \<and>
     d_fragments d = of_nat (fragment_count (d_blockmap d))"

lemma fragment_count_snoc:
  "bs \<noteq> [] \<Longrightarrow> fragment_count (bs @ [c]) =
     fragment_count bs + (if b_lcn c \<noteq> b_lcn (last bs) + b_length (last bs) then 1 else 0)"
  by (induction bs rule: fragment_count.induct) auto

lemma summary_reset [simp]: "summary_ok (f_disp (reset_disp f))"
  by (simp add: summary_ok_def reset_disp_def)

lemma reset_disp_blockmap [simp]: "f_blockmap (reset_disp f) = []"
  by (simp add: reset_disp_def)

lemma add_block_blockmap [simp]: "f_blockmap (add_block b f) = f_blockmap f @ [b]"
  by (simp add: add_block_def Let_def)

lemma add_block_summary: "summary_ok (f_disp f) \<Longrightarrow> summary_ok (f_disp (add_block b f))"
  by (cases "f_blockmap f = []") (auto simp: summary_ok_def add_block_def Let_def fragment_count_snoc)

text \<open>Only the disposition of the file changes, and its numbers stay consistent with the map.\<close>

definition same_file :: "winx_file_info \<Rightarrow> winx_file_info \<Rightarrow> bool" where
  "same_file f f' \<longleftrightarrow> (\<exists>d. f' = f\<lparr>f_disp := d\<rparr>) \<and> (summary_ok (f_disp f) \<longrightarrow> summary_ok (f_disp f'))"

lemma same_file_refl [simp]: "same_file f f"
  by (auto simp: same_file_def intro: exI [of _ "f_disp f"])

lemma same_file_trans: "same_file f g \<Longrightarrow> same_file g k \<Longrightarrow> same_file f k"
  by (auto simp: same_file_def)

lemma same_file_reset [simp]: "same_file f (reset_disp f)"
  by (simp add: same_file_def) (auto simp: reset_disp_def)

lemma same_file_add_block: "same_file f (add_block b f)"
  by (simp add: same_file_def add_block_summary) (auto simp: add_block_def Let_def)

lemma same_file_path: "same_file f f' \<Longrightarrow> f_path f' = f_path f"
  by (auto simp: same_file_def)

lemma pairs_loop_same: "pairs_loop ps v f = Some (v', f') \<Longrightarrow> same_file f f'"
  by (induction ps v f rule: pairs_loop.induct)
    (auto split: if_splits intro: same_file_trans [OF same_file_add_block])

lemma dump_loop_same:
  assumes "dump_loop nt h t v f w = Some y"
  shows "same_file f (fst (snd y))"
proof (rule dump_loop.raw_induct [where P = "\<lambda>nt h t v f w y. same_file f (fst (snd y))", OF _ assms], goal_cases)
  case (1 dump_loop nt h t startVcn f w y)
  have ih: "dump_loop nt h t v f w = Some y \<Longrightarrow> same_file f (fst (snd y))" for nt h t v f w y using 1(1) by blast
  from 1(2) show ?case
    by (auto simp: Let_def split: if_splits option.splits prod.splits
        dest: pairs_loop_same intro: same_file_trans [OF pairs_loop_same ih])
qed

text \<open>The blocks a list of pairs describes, when it starts at \<open>startVcn\<close>.\<close>

fun map_blocks :: "u64 \<Rightarrow> mapping_pair list \<Rightarrow> winx_blockmap list" where
  "map_blocks startVcn [] = []"
| "map_blocks startVcn (p # ps) =
     (if p_Lcn p = LLINVALID then map_blocks (p_Vcn p) ps
      else \<lparr>b_vcn = startVcn, b_lcn = p_Lcn p, b_length = p_Vcn p - startVcn\<rparr> # map_blocks (p_Vcn p) ps)"

definition boundary :: "mapping_pair list \<Rightarrow> nat \<Rightarrow> u64" where
  "boundary ps k = (if k = 0 then 0 else p_Vcn (ps ! (k - 1)))"

text \<open>
  What the system documents about the map of a file: a request at the end of a known piece of the map
  returns a non-empty piece that follows it and tells by its status whether it is the last one; the
  requests change nothing.
\<close>

definition map_answers :: "('w, 'z) nt_ftw_scheme \<Rightarrow> handle \<Rightarrow> mapping_pair list \<Rightarrow> 'w \<Rightarrow> bool" where
  "map_answers nt h ps w \<longleftrightarrow>
     (\<forall>k < length ps. \<exists>n a. 0 < n \<and> k + n \<le> length ps \<and>
        get_retrieval_pointers nt h (boundary ps k) w = (a, w) \<and> ra_StartVcn a = boundary ps k \<and>
        ra_Pair a = take n (drop k ps) \<and>
        (if NT_SUCCESS (ra_status a) then ra_iosb a else ra_status a) =
          (if k + n = length ps then STATUS_SUCCESS else STATUS_BUFFER_OVERFLOW))"

lemma pairs_loop_blocks:
  "list_all (\<lambda>p. p_Vcn p \<noteq> 0) ps \<Longrightarrow>
     pairs_loop ps v f = Some (if ps = [] then v else p_Vcn (last ps), fold add_block (map_blocks v ps) f)"
  by (induction ps arbitrary: v f) auto

lemma map_blocks_append:
  "map_blocks v (ps @ qs) = map_blocks v ps @ map_blocks (if ps = [] then v else p_Vcn (last ps)) qs"
  by (induction ps arbitrary: v) auto

lemma boundary_step:
  "0 < n \<Longrightarrow> k + n \<le> length ps \<Longrightarrow> p_Vcn (last (take n (drop k ps))) = boundary ps (k + n)"
  by (simp add: boundary_def last_conv_nth min.absorb2)

lemma status_neq [simp]: "STATUS_SUCCESS \<noteq> STATUS_BUFFER_OVERFLOW" "STATUS_BUFFER_OVERFLOW \<noteq> STATUS_SUCCESS"
  by (simp_all add: STATUS_SUCCESS_def STATUS_BUFFER_OVERFLOW_def)

lemma dump_loop_map:
  assumes "map_answers nt h ps w" "ftw_check_for_termination t w = (False, w)" "list_all (\<lambda>p. p_Vcn p \<noteq> 0) ps"
  shows "k < length ps \<Longrightarrow> dump_loop nt h t (boundary ps k) f w =
    Some (Dump_done, fold add_block (map_blocks (boundary ps k) (drop k ps)) f, w)"
proof (induction "length ps - k" arbitrary: k f rule: less_induct)
  case less
  obtain n a where a: "0 < n" "k + n \<le> length ps" "get_retrieval_pointers nt h (boundary ps k) w = (a, w)"
    "ra_StartVcn a = boundary ps k" "ra_Pair a = take n (drop k ps)"
    "(if NT_SUCCESS (ra_status a) then ra_iosb a else ra_status a) =
       (if k + n = length ps then STATUS_SUCCESS else STATUS_BUFFER_OVERFLOW)"
    using assms(1) less.prems unfolding map_answers_def by blast
  let ?ps = "take n (drop k ps)" and ?g = "fold add_block (map_blocks (boundary ps k) (take n (drop k ps))) f"
  have ne: "?ps \<noteq> []" using a(1) less.prems by simp
  have "list_all (\<lambda>p. p_Vcn p \<noteq> 0) ?ps" using assms(3) by (auto simp: list_all_iff dest!: in_set_takeD in_set_dropD)
  then have pl: "pairs_loop ?ps (boundary ps k) f = Some (boundary ps (k + n), ?g)"
    using ne boundary_step [OF a(1,2)] by (simp add: pairs_loop_blocks)
  have split: "drop k ps = ?ps @ drop (k + n) ps" by (metis append_take_drop_id drop_drop add.commute)
  have bl: "fold add_block (map_blocks (boundary ps k) (drop k ps)) f =
      fold add_block (map_blocks (boundary ps (k + n)) (drop (k + n) ps)) ?g"
    by (subst split) (use ne boundary_step [OF a(1,2)] in \<open>simp add: map_blocks_append\<close>)
  show ?case
  proof (cases "k + n = length ps")
    case True
    then show ?thesis
      unfolding bl by (subst dump_loop.simps) (use a pl ne assms(2) True in \<open>simp add: Let_def\<close>)
  next
    case False
    then have "k + n < length ps" "length ps - (k + n) < length ps - k" using a(1,2) by auto
    from less.hyps [OF this(2,1), of ?g] show ?thesis
      unfolding bl by (subst dump_loop.simps) (use a pl ne assms(2) False in \<open>simp add: Let_def\<close>)
  qed
qed

lemma map_blocks_ordered:
  assumes "successively (<) (v # map p_Vcn ps)"
  shows "sorted_wrt (\<lambda>b c. b_vcn b < b_vcn c) (map_blocks v ps) \<and> list_all (\<lambda>b. v \<le> b_vcn b) (map_blocks v ps)"
  using assms
proof (induction ps arbitrary: v)
  case (Cons p ps)
  then have v: "v < p_Vcn p" and ih: "sorted_wrt (\<lambda>b c. b_vcn b < b_vcn c) (map_blocks (p_Vcn p) ps)"
    "list_all (\<lambda>b. p_Vcn p \<le> b_vcn b) (map_blocks (p_Vcn p) ps)"
    by auto
  then show ?case by (auto simp: list_all_iff)
qed simp

lemma fold_add_block:
  "f_blockmap (fold add_block bs f) = f_blockmap f @ bs"
  "summary_ok (f_disp f) \<Longrightarrow> summary_ok (f_disp (fold add_block bs f))"
  by (induction bs arbitrary: f) (auto simp: add_block_summary)

lemma validate_ordered:
  "sorted_wrt (\<lambda>b c. b_vcn b < b_vcn c) (f_blockmap f) \<Longrightarrow> validate_blockmap f = f"
  by (auto simp: validate_blockmap_def split: list.splits)

lemma vcns_positive:
  assumes "successively (<) (v # map p_Vcn ps)"
  shows "list_all (\<lambda>p. p_Vcn p \<noteq> 0) ps"
proof -
  have "v < p_Vcn p" if "p \<in> set ps" for p
    using assms that by (simp add: successively_conv_sorted_wrt)
  then show ?thesis by (fastforce simp: list_all_iff word_less_nat_alt)
qed

text \<open>A dump changes nothing of the file but its disposition.\<close>

lemma dump_file_same:
  assumes "winx_ftw_dump_file nt t f w = Some (r, f', w')"
  shows "\<exists>d. f' = f\<lparr>f_disp := d\<rparr> \<and> (summary_ok d \<or> d_blockmap d = []) \<and> (r = 0 \<or> r = -1 \<and> f' = reset_disp f')"
proof -
  obtain status h w1 where o: "winx_defrag_fopen nt (reset_disp f) WINX_OPEN_FOR_DUMP w = ((status, h), w1)"
    by (metis surj_pair)
  show ?thesis
  proof (cases "status = STATUS_SUCCESS")
    case False
    then have "r = 0" "f' = reset_disp f" using assms o by (auto simp: winx_ftw_dump_file_def Let_def)
    then show ?thesis by (auto simp: reset_disp_def)
  next
    case True
    then obtain d g w2 where d: "dump_loop nt h t 0 (reset_disp f) w1 = Some (d, g, w2)"
      "(r, f') = (case d of Dump_done \<Rightarrow> (0, validate_blockmap g) | Dump_reset \<Rightarrow> (0, reset_disp g) | Dump_failed \<Rightarrow> (-1, reset_disp g))"
      using assms o by (auto simp: winx_ftw_dump_file_def Let_def split: Option.bind_splits dump_result.splits)
    obtain e where e: "g = f\<lparr>f_disp := e\<rparr>" "summary_ok e"
      using dump_loop_same [OF d(1)] by (auto simp: same_file_def reset_disp_def summary_ok_def)
    have "\<exists>d. validate_blockmap g = g\<lparr>f_disp := d\<rparr> \<and> (d = e \<or> d_blockmap d = [])"
      using e(1) by (auto simp: validate_blockmap_def split: list.splits intro: exI [of _ e])
    then show ?thesis using d(2) e by (cases d) (auto simp: reset_disp_def)
  qed
qed

subsection \<open>Properties of the dump\<close>

lemma dump_exact:
  assumes "winx_defrag_fopen nt (reset_disp f) WINX_OPEN_FOR_DUMP w = ((STATUS_SUCCESS, h), w1)"
    "map_answers nt h ps w1" "ps \<noteq> []" "successively (<) (0 # map p_Vcn ps)"
    "ftw_check_for_termination t w1 = (False, w1)"
  shows "\<exists>f'. winx_ftw_dump_file nt t f w = Some (0, f', winx_defrag_fclose nt h w1) \<and>
    f_blockmap f' = map_blocks 0 ps \<and> summary_ok (f_disp f')"
proof -
  let ?f = "fold add_block (map_blocks 0 ps) (reset_disp f)"
  have "dump_loop nt h t (boundary ps 0) (reset_disp f) w1 = Some (Dump_done, fold add_block (map_blocks (boundary ps 0) (drop 0 ps)) (reset_disp f), w1)"
    by (rule dump_loop_map [OF assms(2,5) vcns_positive [OF assms(4)]]) (use assms(3) in simp)
  then have d: "dump_loop nt h t 0 (reset_disp f) w1 = Some (Dump_done, ?f, w1)" by (simp add: boundary_def)
  have b: "f_blockmap ?f = map_blocks 0 ps" by (simp add: fold_add_block(1))
  have "validate_blockmap ?f = ?f"
    by (rule validate_ordered) (use map_blocks_ordered [OF assms(4)] b in simp)
  then show ?thesis using d b assms(1) fold_add_block(2) [OF summary_reset]
    by (simp add: winx_ftw_dump_file_def Let_def)
qed

text \<open>
  C29: if the file can be opened and the system answers as documented, the dump ends, returns zero, and
  the file has exactly the blocks of its map that are on the disk, in order, with the number of
  clusters and of fragments that belong to them.
\<close>

theorem dump_file_exact:
  assumes "winx_defrag_fopen nt (reset_disp f) WINX_OPEN_FOR_DUMP w = ((STATUS_SUCCESS, h), w1)"
    "map_answers nt h ps w1" "ps \<noteq> []" "successively (<) (0 # map p_Vcn ps)"
    "ftw_check_for_termination t w1 = (False, w1)"
  shows "\<exists>f'. winx_ftw_dump_file nt t f w = Some (0, f', winx_defrag_fclose nt h w1) \<and>
    f_blockmap f' = map_blocks 0 ps \<and> summary_ok (f_disp f')"
  by (rule dump_exact [OF assms])

text \<open>
  C30: whatever the system answers, a dump that returns leaves a consistent disposition: the numbers
  of clusters and fragments belong to the map, or the map is empty; and after a failure all of it is
  reset.
\<close>

theorem dump_file_consistent:
  assumes "winx_ftw_dump_file nt t f w = Some (r, f', w')"
  shows "(summary_ok (f_disp f') \<or> f_blockmap f' = []) \<and> (r = 0 \<or> r = -1 \<and> f' = reset_disp f') \<and>
    f_path f' = f_path f"
  using dump_file_same [OF assms] by (auto simp: reset_disp_def)

subsection \<open>A concrete system\<close>

text \<open>A file with the map of two pieces, of four and of two clusters, given out in two answers.\<close>

definition demo_pairs :: "mapping_pair list" where
  "demo_pairs = [\<lparr>p_Vcn = 4, p_Lcn = 100\<rparr>, \<lparr>p_Vcn = 6, p_Lcn = 200\<rparr>]"

definition demo_nt :: "unit nt_ftw" where
  "demo_nt = \<lparr>NtCreateFile = \<lambda>r w. ((STATUS_SUCCESS, 7), w), NtClose = \<lambda>h w. w, RtlGetVersion = (6, 1),
     malloc = \<lambda>n w. None, NtReadFile = \<lambda>h n p w. ((refused, []), w), NtWriteFile = \<lambda>h xs p w. (refused, w),
     NtFlushBuffersFile = \<lambda>h w. (0, w), NtQueryStandardInformation = \<lambda>h w. ((0, 0), w), NtDeleteFile = \<lambda>p a w. (0, w),
     NtFsControlFile = \<lambda>h c i n w. ((refused, []), w), NtDeviceIoControlFile = \<lambda>h c i n w. ((refused, []), w),
     NtQueryVolumeInformationFile = \<lambda>h k n w. ((STATUS_INVALID_PARAMETER, []), w),
     get_retrieval_pointers = \<lambda>h v w.
       (\<lparr>ra_status = STATUS_SUCCESS, ra_iosb = (if v = 0 then STATUS_BUFFER_OVERFLOW else STATUS_SUCCESS), ra_StartVcn = v,
         ra_Pair = (if v = 0 then [demo_pairs ! 0] else [demo_pairs ! 1])\<rparr>, w)\<rparr>"

definition demo_info :: winx_file_info where
  "demo_info = \<lparr>f_name = None, f_path = Some (wstr ''C:x''), f_flags = 0,
     f_disp = \<lparr>d_clusters = 9, d_fragments = 1, d_blockmap = []\<rparr>, f_user_defined_flags = 0,
     f_internal = \<lparr>BaseMftId = 0, ParentDirectoryMftId = 0\<rparr>,
     f_creation_time = 0, f_last_modification_time = 0, f_last_access_time = 0\<rparr>"

lemma demo_open:
  "winx_defrag_fopen demo_nt (reset_disp demo_info) WINX_OPEN_FOR_DUMP () = ((STATUS_SUCCESS, 7), ())"
  by (simp add: winx_defrag_fopen_def demo_nt_def demo_info_def reset_disp_def wstr_def Let_def)

lemma demo_answers: "map_answers demo_nt 7 demo_pairs ()"
  unfolding map_answers_def
proof (intro allI impI, goal_cases)
  case (1 k)
  then have "k = 0 \<or> k = 1" by (auto simp: demo_pairs_def)
  then show ?case
  proof
    assume "k = 0"
    then show ?thesis
      by (intro exI [of _ 1] exI [of _ "fst (get_retrieval_pointers demo_nt 7 (boundary demo_pairs k) ())"])
        (simp add: demo_nt_def demo_pairs_def boundary_def NT_SUCCESS_def STATUS_SUCCESS_def)
  next
    assume "k = 1"
    then show ?thesis
      by (intro exI [of _ 1] exI [of _ "fst (get_retrieval_pointers demo_nt 7 (boundary demo_pairs k) ())"])
        (simp add: demo_nt_def demo_pairs_def boundary_def NT_SUCCESS_def STATUS_SUCCESS_def)
  qed
qed

theorem dump_file_exact_witness:
  "\<exists>f'. winx_ftw_dump_file demo_nt None demo_info () = Some (0, f', ()) \<and>
    f_blockmap f' = [\<lparr>b_vcn = 0, b_lcn = 100, b_length = 4\<rparr>, \<lparr>b_vcn = 4, b_lcn = 200, b_length = 2\<rparr>] \<and>
    summary_ok (f_disp f')"
  using dump_file_exact [OF demo_open demo_answers, of None]
  by (simp add: demo_pairs_def ftw_check_for_termination_def LLINVALID_def)

theorem dump_file_consistent_witness:
  "\<exists>f'. winx_ftw_dump_file (demo_nt\<lparr>NtCreateFile := \<lambda>r w. ((STATUS_INVALID_PARAMETER, 0), w)\<rparr>) None demo_info () = Some (0, f', ()) \<and>
    f_path f' = f_path demo_info"
proof -
  have e: "winx_ftw_dump_file (demo_nt\<lparr>NtCreateFile := \<lambda>r w. ((STATUS_INVALID_PARAMETER, 0), w)\<rparr>) None demo_info () =
      Some (0, reset_disp demo_info, ())"
    by (simp add: winx_ftw_dump_file_def winx_defrag_fopen_def Let_def demo_info_def reset_disp_def wstr_def
        STATUS_INVALID_PARAMETER_def STATUS_SUCCESS_def)
  show ?thesis using e dump_file_consistent [OF e] by (intro exI [of _ "reset_disp demo_info"] conjI) simp_all
qed

end
