(* ===== verification/Ftw_Walk.thy ===== *)
theory Ftw_Walk
  imports Ftw
begin

unbundle bit_operations_syntax

text \<open>
  Model of the walk through a directory tree (\<open>zenwinx/src/zenwinx/ftw.c\<close>): the entries added to the
  list of files, the recursion into directories, the removal of resident and invalid entries, and
  \<open>winx_ftw\<close>.

  The buffer of directory entries is the list of entries behind the current one; a zeroed entry has
  the empty name.
\<close>

record dir_entry =
  de_FileName :: wstring
  de_FileAttributes :: u32
  de_CreationTime :: u64
  de_LastWriteTime :: u64
  de_LastAccessTime :: u64

record 'w nt_dir = "'w nt_ftw" +
  NtQueryDirectoryFile :: "handle \<Rightarrow> 'w \<Rightarrow> (u32 \<times> dir_entry list) \<times> 'w"
  NtQueryBasicInformation :: "handle \<Rightarrow> 'w \<Rightarrow> (u32 \<times> dir_entry) \<times> 'w"

text \<open>
  The arguments of a walk: flags, the callbacks, the terminator, and whether an allocation of that
  many bytes succeeds.
\<close>

record 'w ftw_args =
  fa_flags :: u32
  fa_fcb :: "(winx_file_info \<Rightarrow> 'w \<Rightarrow> bool \<times> 'w) option"
  fa_pcb :: "(winx_file_info \<Rightarrow> 'w \<Rightarrow> 'w) option"
  fa_t :: "'w terminator"
  fa_tmalloc :: "nat \<Rightarrow> bool"

definition WINX_FTW_RECURSIVE :: u32 where "WINX_FTW_RECURSIVE = 1"
definition WINX_FTW_DUMP_FILES :: u32 where "WINX_FTW_DUMP_FILES = 2"
definition WINX_FTW_ALLOW_PARTIAL_SCAN :: u32 where "WINX_FTW_ALLOW_PARTIAL_SCAN = 4"
definition WINX_FTW_SKIP_RESIDENT_STREAMS :: u32 where "WINX_FTW_SKIP_RESIDENT_STREAMS = 8"

definition zero_disp :: winx_file_disposition where
  "zero_disp = \<lparr>d_clusters = 0, d_fragments = 0, d_blockmap = []\<rparr>"

definition zero_internal :: winx_file_internal_info where
  "zero_internal = \<lparr>BaseMftId = 0, ParentDirectoryMftId = 0\<rparr>"

definition join_path :: "wstring \<Rightarrow> wstring \<Rightarrow> wstring" where
  "join_path path name = (if last path = 92 then path @ name else path @ 92 # name)"

subsection \<open>Adding entries\<close>

text \<open>
  The new list and the new entry, \<open>None\<close> for \<open>NULL\<close>. The name is copied as a whole, but it is a string that ends at
  its first zero, and so is the part of the path built from it.
\<close>

definition ftw_add_entry_to_filelist :: "('w, 'z) nt_dir_scheme \<Rightarrow> 'w ftw_args \<Rightarrow> wstring \<Rightarrow> dir_entry \<Rightarrow>
  winx_file_info list \<Rightarrow> 'w \<Rightarrow> (winx_file_info list \<times> winx_file_info option \<times> 'w) option" where
  "ftw_add_entry_to_filelist nt args path file_entry filelist w =
     (if path = [] then Some (filelist, None, w)
      else
        let name = takeWhile (\<lambda>c. c \<noteq> 0) (de_FileName file_entry)
        in if \<not> fa_tmalloc args (2 * length (de_FileName file_entry) + 2) then Some (filelist, None, w)
           else if \<not> fa_tmalloc args (2 * (length (join_path path name) + 1)) then Some (filelist, None, w)
           else
             let f = \<lparr>f_name = Some name, f_path = Some (join_path path name), f_flags = de_FileAttributes file_entry,
                  f_disp = zero_disp, f_user_defined_flags = 0, f_internal = zero_internal,
                  f_creation_time = de_CreationTime file_entry,
                  f_last_modification_time = de_LastWriteTime file_entry,
                  f_last_access_time = de_LastAccessTime file_entry\<rparr>
             in if fa_flags args AND WINX_FTW_DUMP_FILES \<noteq> 0 then do {
                  (r, f, w) \<leftarrow> winx_ftw_dump_file nt (fa_t args) f w;
                  Some (if r < 0 then (filelist, None, w) else (f # filelist, Some f, w))
                }
                else Some (f # filelist, Some f, w))"

definition ftw_add_root_directory :: "('w, 'z) nt_dir_scheme \<Rightarrow> 'w ftw_args \<Rightarrow> wstring \<Rightarrow>
  winx_file_info list \<Rightarrow> 'w \<Rightarrow> (int \<times> winx_file_info list \<times> 'w) option" where
  "ftw_add_root_directory nt args path filelist w =
     (if path = [] then Some (-1, filelist, w)
      else do {
        let f = \<lparr>f_name = Some [46], f_path = Some path, f_flags = FILE_ATTRIBUTE_DIRECTORY,
          f_disp = zero_disp, f_user_defined_flags = 0, f_internal = zero_internal,
          f_creation_time = 0, f_last_modification_time = 0, f_last_access_time = 0\<rparr>;
        let ((status, hDir), w) = winx_defrag_fopen nt f WINX_OPEN_FOR_BASIC_INFO w;
        let (f, w) =
          (if status = STATUS_SUCCESS then
             let ((status, fbi), w) = NtQueryBasicInformation nt hDir w;
                 f = (if \<not> NT_SUCCESS status then f
                      else f\<lparr>f_flags := de_FileAttributes fbi, f_creation_time := de_CreationTime fbi,
                             f_last_modification_time := de_LastWriteTime fbi,
                             f_last_access_time := de_LastAccessTime fbi\<rparr>)
             in (f, winx_defrag_fclose nt hDir w)
           else (f, w));
        (r, f, w) \<leftarrow> (if fa_flags args AND WINX_FTW_DUMP_FILES \<noteq> 0 then winx_ftw_dump_file nt (fa_t args) f w
                      else Some (0, f, w));
        if r < 0 then Some (-1, filelist, w)
        else
          let w = (case fa_pcb args of None \<Rightarrow> w | Some pcb \<Rightarrow> pcb f w);
              w = (case fa_fcb args of None \<Rightarrow> w | Some fcb \<Rightarrow> snd (fcb f w))
          in Some (0, f # filelist, w)
      })"

definition ftw_open_directory :: "('w, 'z) nt_dir_scheme \<Rightarrow> wstring \<Rightarrow> 'w \<Rightarrow> handle \<times> 'w" where
  "ftw_open_directory nt path w =
     (let ((status, hDir), w) = NtCreateFile nt
            \<lparr>cr_path = path, cr_access = FILE_LIST_DIRECTORY OR FILE_RESERVE_OPFILTER,
             cr_object_attributes = 0, cr_file_attributes = 0,
             cr_share = FILE_SHARE_READ OR FILE_SHARE_WRITE, cr_disposition = FILE_OPEN,
             cr_options = FILE_DIRECTORY_FILE OR FILE_SYNCHRONOUS_IO_NONALERT OR FILE_OPEN_FOR_BACKUP_INTENT\<rparr> w
      in (if status \<noteq> STATUS_SUCCESS then 0 else hDir, w))"

subsection \<open>The walk\<close>

text \<open>The entries \<open>.\<close> and \<open>..\<close> and entries without a name are skipped.\<close>

definition skipped_name :: "wstring \<Rightarrow> bool" where
  "skipped_name name \<longleftrightarrow> name = [46] \<or> name = [46, 46] \<or> name = []"

text \<open>
  The loop of \<open>ftw_helper\<close> over the directory \<open>hDir\<close>, whose entries \<open>rest\<close> are read but not visited.
  A subdirectory is opened and walked through by the same loop, as the recursive call does.
\<close>

partial_function (option) ftw_loop :: "('w, 'z) nt_dir_scheme \<Rightarrow> 'w ftw_args \<Rightarrow> wstring \<Rightarrow> handle \<Rightarrow> dir_entry list \<Rightarrow>
  winx_file_info list \<Rightarrow> 'w \<Rightarrow> (int \<times> winx_file_info list \<times> 'w) option" where
  "ftw_loop nt args path hDir rest filelist w =
     (let (stop, w) = ftw_check_for_termination (fa_t args) w
      in if stop then Some (-2, filelist, NtClose nt hDir w)
         else
           let ((status, entries), w) = (if rest \<noteq> [] then ((STATUS_SUCCESS, rest), w) else NtQueryDirectoryFile nt hDir w)
           in if status \<noteq> STATUS_SUCCESS then Some (0, filelist, NtClose nt hDir w)
              else case entries of
                [] \<Rightarrow> ftw_loop nt args path hDir [] filelist w
              | file_entry # rest \<Rightarrow>
                  if skipped_name (de_FileName file_entry) then ftw_loop nt args path hDir rest filelist w
                  else do {
                    (filelist, f, w) \<leftarrow> ftw_add_entry_to_filelist nt args path file_entry filelist w;
                    (case f of
                       None \<Rightarrow> Some (-1, filelist, NtClose nt hDir w)
                     | Some f \<Rightarrow>
                         let (stop, w) = ftw_check_for_termination (fa_t args) w
                         in if stop then Some (-2, filelist, NtClose nt hDir w)
                            else
                              let w = (case fa_pcb args of None \<Rightarrow> w | Some pcb \<Rightarrow> pcb f w);
                                  (skip_children, w) = (case fa_fcb args of None \<Rightarrow> (False, w) | Some fcb \<Rightarrow> fcb f w)
                              in if is_directory f \<and> fa_flags args AND WINX_FTW_RECURSIVE \<noteq> 0 \<and> \<not> skip_children \<and>
                                    \<not> is_reparse_point f then
                                   let (hSub, w) = ftw_open_directory nt (the (f_path f)) w
                                   in if hSub = 0 then ftw_loop nt args path hDir rest filelist w
                                      else do {
                                        (result, filelist, w) \<leftarrow> ftw_loop nt args (the (f_path f)) hSub [] filelist w;
                                        if result < 0 then Some (result, filelist, NtClose nt hDir w)
                                        else ftw_loop nt args path hDir rest filelist w
                                      }
                                 else ftw_loop nt args path hDir rest filelist w)
                  })"

definition ftw_helper :: "('w, 'z) nt_dir_scheme \<Rightarrow> 'w ftw_args \<Rightarrow> wstring \<Rightarrow>
  winx_file_info list \<Rightarrow> 'w \<Rightarrow> (int \<times> winx_file_info list \<times> 'w) option" where
  "ftw_helper nt args path filelist w =
     (let (hDir, w) = ftw_open_directory nt path w
      in if hDir = 0 then Some (0, filelist, w) else ftw_loop nt args path hDir [] filelist w)"

subsection \<open>Removing entries\<close>

text \<open>
  The passes that remove entries on the linked list are \<open>weed_loop\<close>, whose result is the filtered
  list (\<open>weed_loop_filter\<close>).
\<close>

definition ftw_remove_resident_streams :: "winx_file_info list \<Rightarrow> winx_file_info list" where
  "ftw_remove_resident_streams filelist = filter (\<lambda>f. d_fragments (f_disp f) \<noteq> 0) filelist"

definition ftw_remove_invalid_streams :: "winx_file_info list \<Rightarrow> winx_file_info list" where
  "ftw_remove_invalid_streams filelist =
     filter (\<lambda>f. case f_path f of None \<Rightarrow> False | Some path \<Rightarrow> path \<noteq> []) filelist"

definition skip_resident_checked :: "u32 \<Rightarrow> u32" where
  "skip_resident_checked flags =
     (if flags AND WINX_FTW_SKIP_RESIDENT_STREAMS \<noteq> 0 \<and> flags AND WINX_FTW_DUMP_FILES = 0
      then flags AND NOT WINX_FTW_SKIP_RESIDENT_STREAMS else flags)"

definition ftw_finish :: "u32 \<Rightarrow> winx_file_info list \<Rightarrow> winx_file_info list" where
  "ftw_finish flags filelist =
     ftw_remove_invalid_streams
       (if flags AND WINX_FTW_SKIP_RESIDENT_STREAMS \<noteq> 0 then ftw_remove_resident_streams filelist else filelist)"

definition winx_ftw :: "('w, 'z) nt_dir_scheme \<Rightarrow> 'w ftw_args \<Rightarrow> wstring option \<Rightarrow> 'w \<Rightarrow> (winx_file_info list \<times> 'w) option" where
  "winx_ftw nt args path w =
     (case path of
        None \<Rightarrow> Some ([], w)
      | Some path \<Rightarrow> do {
          let args = args\<lparr>fa_flags := skip_resident_checked (fa_flags args)\<rparr>;
          (r, filelist, w) \<leftarrow> ftw_helper nt args path [] w;
          if r = -1 \<and> fa_flags args AND WINX_FTW_ALLOW_PARTIAL_SCAN = 0 then Some ([], w)
          else Some (ftw_finish (fa_flags args) filelist, w)
        })"

subsection \<open>What a walk collects\<close>

text \<open>
  The directories a walk from \<open>path\<close> visits: \<open>path\<close>, and the entries of such a directory, whose path is the path of
  the directory joined with the name reported for the entry, up to its first zero. \<open>entry_ok\<close> is an entry of
  such a directory, with its name and its path; all these paths extend \<open>path\<close> (\<open>below_prefix\<close>).
\<close>

abbreviation shown :: "wstring \<Rightarrow> wstring" where
  "shown name \<equiv> takeWhile (\<lambda>c. c \<noteq> 0) name"

inductive below :: "wstring \<Rightarrow> wstring \<Rightarrow> bool" where
  "below path path"
| "below path dir \<Longrightarrow> \<not> skipped_name name \<Longrightarrow> below path (join_path dir (shown name))"

definition entry_ok :: "wstring \<Rightarrow> winx_file_info \<Rightarrow> bool" where
  "entry_ok path f \<longleftrightarrow>
     (\<exists>dir name. below path dir \<and> \<not> skipped_name name \<and> f_name f = Some (shown name) \<and> f_path f = Some (join_path dir (shown name))) \<and>
     (summary_ok (f_disp f) \<or> f_blockmap f = [])"

lemma below_trans: "below p q \<Longrightarrow> below path p \<Longrightarrow> below path q"
  by (induction rule: below.induct) (auto intro: below.intros)

lemma below_prefix: "below path dir \<Longrightarrow> prefix path dir"
  by (induction rule: below.induct) (auto simp: join_path_def intro: prefix_prefix)

lemma entry_ok_mono: "entry_ok p f \<Longrightarrow> below path p \<Longrightarrow> entry_ok path f"
  by (auto simp: entry_ok_def intro: below_trans)

lemma entry_ok_below: "entry_ok path f \<Longrightarrow> below path (the (f_path f))"
  by (auto simp: entry_ok_def intro: below.intros)

lemma add_entry_ok:
  assumes "ftw_add_entry_to_filelist nt args path e fl w = Some (fl', r, w')" "\<not> skipped_name (de_FileName e)"
  shows "r = None \<and> fl' = fl \<or> (\<exists>f. r = Some f \<and> fl' = f # fl \<and> entry_ok path f)"
proof -
  let ?f = "\<lparr>f_name = Some (shown (de_FileName e)), f_path = Some (join_path path (shown (de_FileName e))), f_flags = de_FileAttributes e,
                  f_disp = zero_disp, f_user_defined_flags = 0, f_internal = zero_internal,
                  f_creation_time = de_CreationTime e, f_last_modification_time = de_LastWriteTime e,
                  f_last_access_time = de_LastAccessTime e\<rparr>"
  have ok: "entry_ok path (?f\<lparr>f_disp := d\<rparr>)" if "summary_ok d \<or> d_blockmap d = []" for d
    using that assms(2) below.intros(1) [of path] by (auto simp: entry_ok_def)
  have z: "summary_ok zero_disp" by (simp add: zero_disp_def summary_ok_def)
  from assms(1) show ?thesis
    using ok z ok [of zero_disp]
    by (auto simp: ftw_add_entry_to_filelist_def Let_def split: if_splits Option.bind_splits dest!: dump_file_same)
qed

definition walk_ok :: "wstring \<Rightarrow> winx_file_info list \<Rightarrow> int \<times> winx_file_info list \<times> 'w \<Rightarrow> bool" where
  "walk_ok path fl y \<longleftrightarrow> fst y \<in> {0, -1, -2} \<and> (\<exists>new. fst (snd y) = new @ fl \<and> list_all (entry_ok path) new)"

lemma walk_ok_same: "r \<in> {0, -1, -2} \<Longrightarrow> walk_ok path fl (r, fl, w)"
  by (auto simp: walk_ok_def)

lemma walk_ok_step: "walk_ok path (f # fl) y \<Longrightarrow> entry_ok path f \<Longrightarrow> walk_ok path fl y"
  by (fastforce simp: walk_ok_def intro: exI [of _ "_ @ [f]"])

lemma walk_ok_sub:
  assumes "walk_ok p fl (r, fl', w')" "below path p"
  shows "walk_ok path fl (r, fl', w'')" "walk_ok path fl' y \<Longrightarrow> walk_ok path fl y"
proof -
  obtain new where n: "r \<in> {0, -1, -2}" "fl' = new @ fl" "list_all (entry_ok p) new"
    using assms(1) by (auto simp: walk_ok_def)
  have "list_all (entry_ok path) new"
    using n(3) entry_ok_mono [OF _ assms(2)] by (auto simp: list_all_iff)
  then show "walk_ok path fl (r, fl', w'')" "walk_ok path fl' y \<Longrightarrow> walk_ok path fl y"
    using n(1,2) by (auto simp: walk_ok_def)
qed

lemma ftw_loop_ok:
  assumes "ftw_loop nt args path hDir rest fl w = Some y"
  shows "walk_ok path fl y"
proof (rule ftw_loop.raw_induct [where P = "\<lambda>nt args path hDir rest fl w y. walk_ok path fl y", OF _ assms], goal_cases)
  case (1 loop nt args path hDir rest fl w y)
  have ih: "loop nt args path hDir rest fl w = Some y \<Longrightarrow> walk_ok path fl y" for nt args path hDir rest fl w y
    using 1(1) by blast
  from 1(2) consider (stop) r w' where "r \<in> {0, -1, -2}" "y = (r, fl, w')"
    | (skip) rest' w' where "loop nt args path hDir rest' fl w' = Some y"
    | (add) e w' fl' f w2 where "\<not> skipped_name (de_FileName e)"
        "ftw_add_entry_to_filelist nt args path e fl w' = Some (fl', Some f, w2)"
        "(\<exists>r w'. r \<in> {0, -1, -2} \<and> y = (r, fl', w')) \<or> (\<exists>rest w'. loop nt args path hDir rest fl' w' = Some y) \<or>
         (\<exists>h w3 r fl2 w4. loop nt args (the (f_path f)) h [] fl' w3 = Some (r, fl2, w4) \<and>
           ((\<exists>w5. y = (r, fl2, w5)) \<or> (\<exists>rest w5. loop nt args path hDir rest fl2 w5 = Some y)))"
  proof -
    obtain st w1 where c: "ftw_check_for_termination (fa_t args) w = (st, w1)" by fastforce
    obtain status es w2 where q: "(if rest \<noteq> [] then ((STATUS_SUCCESS, rest), w1) else NtQueryDirectoryFile nt hDir w1) = ((status, es), w2)"
      by (metis surj_pair)
    show thesis
    proof (cases "st \<or> status \<noteq> STATUS_SUCCESS \<or> es = [] \<or> skipped_name (de_FileName (hd es))")
      case True
      then show thesis using 1(2) c q stop skip by (auto simp: Let_def split: if_splits list.splits)
    next
      case False
      then obtain e rest' where es: "es = e # rest'" "\<not> skipped_name (de_FileName e)" by (cases es) auto
      obtain fl' fo w3 where a: "ftw_add_entry_to_filelist nt args path e fl w2 = Some (fl', fo, w3)"
        using 1(2) c q False es by (auto simp: Let_def split: Option.bind_splits)
      show thesis
      proof (cases fo)
        case None
        then have "fl' = fl" using add_entry_ok [OF a es(2)] by simp
        then show thesis using 1(2) c q False es a None by (intro stop [of "-1" "NtClose nt hDir w3"]) (simp_all add: Let_def)
      next
        case (Some f)
        obtain st2 w4 where c2: "ftw_check_for_termination (fa_t args) w3 = (st2, w4)" by fastforce
        let ?w5 = "case fa_pcb args of None \<Rightarrow> w4 | Some pcb \<Rightarrow> pcb f w4"
        obtain sk w6 where k: "(case fa_fcb args of None \<Rightarrow> (False, ?w5) | Some fcb \<Rightarrow> fcb f ?w5) = (sk, w6)" by fastforce
        obtain hs w7 where o: "ftw_open_directory nt (the (f_path f)) w6 = (hs, w7)" by fastforce
        let ?D = "is_directory f \<and> fa_flags args AND WINX_FTW_RECURSIVE \<noteq> 0 \<and> \<not> sk \<and> \<not> is_reparse_point f"
        have m: "(if st2 then Some (-2, fl', NtClose nt hDir w4)
            else if ?D then
              if hs = 0 then loop nt args path hDir rest' fl' w7
              else do {
                (result, filelist, w) \<leftarrow> loop nt args (the (f_path f)) hs [] fl' w7;
                if result < 0 then Some (result, filelist, NtClose nt hDir w)
                else loop nt args path hDir rest' filelist w
              }
            else loop nt args path hDir rest' fl' w6) = Some y"
          using False unfolding 1(2) [symmetric] c q Let_def prod.case es(1) list.case a [unfolded Some] Option.bind.simps option.case c2 k o
          by (simp add: es(2))
        note add = add [OF es(2) a [unfolded Some]]
        consider "st2" | "\<not> st2" "?D" "hs \<noteq> 0" | "\<not> st2" "\<not> ?D \<or> hs = 0" by blast
        then show thesis
        proof cases
          case 1
          then show thesis using m by (intro add disjI1) auto
        next
          case 2
          then obtain r2 fl2 w8 where l: "loop nt args (the (f_path f)) hs [] fl' w7 = Some (r2, fl2, w8)"
            using m by (auto split: Option.bind_splits)
          then have "y = (r2, fl2, NtClose nt hDir w8) \<or> loop nt args path hDir rest' fl2 w8 = Some y"
            using m 2 by (auto split: if_splits)
          then show thesis using l by (intro add disjI2) blast
        next
          case 3
          then have "loop nt args path hDir rest' fl' (if ?D then w7 else w6) = Some y" using m by auto
          then show thesis by (intro add disjI2 disjI1) blast
        qed
      qed
    qed
  qed
  then show ?case
  proof cases
    case stop
    then show ?thesis by (simp add: walk_ok_same)
  next
    case skip
    then show ?thesis by (rule ih)
  next
    case add
    then have f: "fl' = f # fl" "entry_ok path f" using add_entry_ok by fastforce+
    have "walk_ok path fl' y" using add(3)
    proof (elim disjE exE conjE)
      fix h w3 r fl2 w4 w5
      assume l: "loop nt args (the (f_path f)) h [] fl' w3 = Some (r, fl2, w4)" "y = (r, fl2, w5)"
      show ?thesis using walk_ok_sub(1) [OF ih [OF l(1)] entry_ok_below [OF f(2)]] l(2) by simp
    next
      fix h w3 r fl2 w4 rest w5
      assume l: "loop nt args (the (f_path f)) h [] fl' w3 = Some (r, fl2, w4)" "loop nt args path hDir rest fl2 w5 = Some y"
      show ?thesis by (rule walk_ok_sub(2) [OF ih [OF l(1)] entry_ok_below [OF f(2)] ih [OF l(2)]])
    qed (auto intro: ih walk_ok_same)
    then show ?thesis using f by (auto intro: walk_ok_step)
  qed
qed


subsection \<open>Properties of the walk\<close>


text \<open>A directory with the entries \<open>.\<close> and \<open>a\<close>; the world counts the requests.\<close>

definition demo_entry :: "string \<Rightarrow> dir_entry" where
  "demo_entry n = \<lparr>de_FileName = wstr n, de_FileAttributes = 0, de_CreationTime = 0, de_LastWriteTime = 0, de_LastAccessTime = 0\<rparr>"

definition demo_dir :: "nat nt_dir" where
  "demo_dir = \<lparr>NtCreateFile = \<lambda>r w. ((STATUS_SUCCESS, 7), w), NtClose = \<lambda>h w. w, RtlGetVersion = (6, 1),
     malloc = \<lambda>n w. None, NtReadFile = \<lambda>h n p w. ((refused, []), w), NtWriteFile = \<lambda>h xs p w. (refused, w),
     NtFlushBuffersFile = \<lambda>h w. (0, w), NtQueryStandardInformation = \<lambda>h w. ((0, 0), w), NtDeleteFile = \<lambda>p a w. (0, w),
     NtFsControlFile = \<lambda>h c i n w. ((refused, []), w), NtDeviceIoControlFile = \<lambda>h c i n w. ((refused, []), w),
     NtQueryVolumeInformationFile = \<lambda>h k n w. ((STATUS_INVALID_PARAMETER, []), w),
     get_retrieval_pointers = \<lambda>h v w. (\<lparr>ra_status = STATUS_END_OF_FILE, ra_iosb = 0, ra_StartVcn = 0, ra_Pair = []\<rparr>, w),
     NtQueryDirectoryFile = \<lambda>h w.
       ((if w = 0 then (STATUS_SUCCESS, [demo_entry ''.'', demo_entry ''a'']) else (STATUS_NO_MORE_FILES, [])), w + 1),
     NtQueryBasicInformation = \<lambda>h w. ((STATUS_SUCCESS, demo_entry ''.''), w)\<rparr>"

definition demo_args :: "nat ftw_args" where
  "demo_args = \<lparr>fa_flags = 0, fa_fcb = None, fa_pcb = None, fa_t = None, fa_tmalloc = \<lambda>n. True\<rparr>"

lemma demo_dir_simps [simp]:
  "NtCreateFile demo_dir r w = ((STATUS_SUCCESS, 7), w)" "NtClose demo_dir h w = w"
  "NtQueryDirectoryFile demo_dir h w =
     ((if w = 0 then (STATUS_SUCCESS, [demo_entry ''.'', demo_entry ''a'']) else (STATUS_NO_MORE_FILES, [])), w + 1)"
  "fa_flags demo_args = 0" "fa_fcb demo_args = None" "fa_pcb demo_args = None" "fa_t demo_args = None" "fa_tmalloc demo_args n"
  by (simp_all add: demo_dir_def demo_args_def)

lemma demo_walk:
  "\<exists>f w. winx_ftw demo_dir demo_args (Some (wstr ''C:'')) 0 = Some ([f], w) \<and> f_path f = Some (wpath [''C:'', ''a'']) \<and> f_name f = Some (wstr ''a'')"
proof -
  have ne: "STATUS_NO_MORE_FILES \<noteq> STATUS_SUCCESS" by (simp add: STATUS_NO_MORE_FILES_def STATUS_SUCCESS_def)
  have args: "demo_args\<lparr>fa_flags := 0\<rparr> = demo_args" by (simp add: demo_args_def)
  have names: "skipped_name (de_FileName (demo_entry ''.''))" "\<not> skipped_name (de_FileName (demo_entry ''a''))"
    by (simp_all add: demo_entry_def skipped_name_def wstr_def)
  let ?p = "wstr ''C:''"
  have last: "ftw_loop demo_dir demo_args ?p 7 [] fl 1 = Some (0, fl, 2)" for fl
    by (subst ftw_loop.simps) (simp add: ftw_check_for_termination_def ne)
  have "\<exists>f. ftw_add_entry_to_filelist demo_dir demo_args ?p (demo_entry ''a'') [] 1 = Some ([f], Some f, 1) \<and>
      f_path f = Some (wpath [''C:'', ''a'']) \<and> f_name f = Some (wstr ''a'')"
    by (simp add: ftw_add_entry_to_filelist_def wstr_def demo_entry_def join_path_def Let_def)
  then obtain f where f: "ftw_add_entry_to_filelist demo_dir demo_args ?p (demo_entry ''a'') [] 1 = Some ([f], Some f, 1)"
      "f_path f = Some (wpath [''C:'', ''a''])" "f_name f = Some (wstr ''a'')"
    by blast
  have one: "ftw_loop demo_dir demo_args ?p 7 [demo_entry ''a''] [] 1 = Some (0, [f], 2)"
    by (subst ftw_loop.simps) (simp add: ftw_check_for_termination_def f names last del: One_nat_def)
  have "ftw_loop demo_dir demo_args ?p 7 [] [] 0 = Some (0, [f], 2)"
    by (subst ftw_loop.simps) (simp add: ftw_check_for_termination_def names one del: One_nat_def)
  then have "ftw_helper demo_dir demo_args ?p [] 0 = Some (0, [f], 2)"
    by (simp add: ftw_helper_def ftw_open_directory_def)
  then have "winx_ftw demo_dir demo_args (Some ?p) 0 = Some (ftw_finish 0 [f], 2)"
    by (simp add: winx_ftw_def skip_resident_checked_def Let_def args)
  moreover have "ftw_finish 0 [f] = [f]"
    using f(2) by (simp add: ftw_finish_def ftw_remove_invalid_streams_def wstr_def)
  ultimately show ?thesis using f(2,3) by simp
qed


end
