(* ===== verification/C_Memory.thy ===== *)
theory C_Memory
  imports Prelude
begin

text \<open>
  Little-endian access to blocks of memory and the routines of the C library on wide strings that the
  sources use. A block of memory is the list of its bytes. Reading a field of a structure of known size
  is total: bytes behind the end of the list read 0, for buffers that were zeroed before they were
  filled. The readers with an option return \<open>None\<close> for an access behind the end of the block.
\<close>

fun le_nat :: "u8 list \<Rightarrow> nat" where
  "le_nat [] = 0"
| "le_nat (b # bs) = unat b + 256 * le_nat bs"

definition le16 :: "u8 list \<Rightarrow> nat \<Rightarrow> u16" where
  "le16 m k = of_nat (le_nat (take 2 (drop k m)))"

definition le32 :: "u8 list \<Rightarrow> nat \<Rightarrow> u32" where
  "le32 m k = of_nat (le_nat (take 4 (drop k m)))"

definition le64 :: "u8 list \<Rightarrow> nat \<Rightarrow> u64" where
  "le64 m k = of_nat (le_nat (take 8 (drop k m)))"

definition rd8 :: "u8 list \<Rightarrow> nat \<Rightarrow> u8 option" where
  "rd8 m k = (if k < length m then Some (m ! k) else None)"

definition rd16 :: "u8 list \<Rightarrow> nat \<Rightarrow> u16 option" where
  "rd16 m k = (if k + 2 \<le> length m then Some (le16 m k) else None)"

definition rd32 :: "u8 list \<Rightarrow> nat \<Rightarrow> u32 option" where
  "rd32 m k = (if k + 4 \<le> length m then Some (le32 m k) else None)"

definition rd64 :: "u8 list \<Rightarrow> nat \<Rightarrow> u64 option" where
  "rd64 m k = (if k + 8 \<le> length m then Some (le64 m k) else None)"

text \<open>\<open>n\<close> wide characters at \<open>k\<close>, and the string \<open>wcsncpy\<close> copies from there.\<close>

definition le_wchars :: "u8 list \<Rightarrow> nat \<Rightarrow> nat \<Rightarrow> wstring" where
  "le_wchars m k n = map (\<lambda>i. le16 m (k + 2 * i)) [0..<n]"

definition c_string :: "wstring \<Rightarrow> wstring" where
  "c_string s = takeWhile (\<lambda>c. c \<noteq> 0) s"

text \<open>\<open>wcsncpy\<close> reads up to the terminating zero, at most \<open>n\<close> characters.\<close>

fun rd_wcsn :: "u8 list \<Rightarrow> nat \<Rightarrow> nat \<Rightarrow> wstring option" where
  "rd_wcsn m k 0 = Some []"
| "rd_wcsn m k (Suc n) = do {
     c \<leftarrow> rd16 m k;
     if c = 0 then Some [] else do { s \<leftarrow> rd_wcsn m (k + 2) n; Some (c # s) }
   }"

text \<open>\<open>wcsstr\<close>, \<open>wcschr\<close>: the index of the first occurrence.\<close>

fun wcsstr :: "wstring \<Rightarrow> wstring \<Rightarrow> nat option" where
  "wcsstr [] t = (if t = [] then Some 0 else None)"
| "wcsstr (c # s) t =
     (if take (length t) (c # s) = t then Some 0 else map_option Suc (wcsstr s t))"

fun wcschr :: "wstring \<Rightarrow> u16 \<Rightarrow> nat option" where
  "wcschr [] d = None"
| "wcschr (c # s) d = (if c = d then Some 0 else map_option Suc (wcschr s d))"

lemma wcsstr_prefix: "wcsstr s t = Some 0 \<longleftrightarrow> take (length t) s = t"
  by (cases s) auto

lemma wcschr_Some:
  "wcschr s d = Some k \<Longrightarrow> k < length s \<and> s ! k = d \<and> d \<notin> set (take k s)"
proof (induction s arbitrary: k)
  case (Cons c s)
  then show ?case by (cases k) (auto split: if_splits)
qed simp

lemma wcschr_None: "wcschr s d = None \<longleftrightarrow> d \<notin> set s"
  by (induction s) auto

lemma le_nat_bound: "le_nat bs < 256 ^ length bs"
proof (induction bs)
  case (Cons b bs)
  have "unat b < 256" using unsigned_less [of b] by simp
  then show ?case using Cons.IH by simp
qed simp

lemma rd_wcsn_length: "rd_wcsn m k n = Some s \<Longrightarrow> length s \<le> n"
  by (induction m k n arbitrary: s rule: rd_wcsn.induct) (auto split: bind_splits if_splits)

lemma rd_wcsn_nonzero: "rd_wcsn m k n = Some s \<Longrightarrow> 0 \<notin> set s"
  by (induction m k n arbitrary: s rule: rd_wcsn.induct) (auto split: bind_splits if_splits)

end
