(* ===== verification/Volume_Info.thy ===== *)
theory Volume_Info
  imports Winx_File C_Memory
begin

unbundle bit_operations_syntax

text \<open>
  Model of the volume queries of \<open>zenwinx/src/zenwinx/volume.c\<close> and of \<open>winx_query_symbolic_link\<close>
  (\<open>misc.c\<close>). Answers of the system are the bytes of the documented structures; the code zeroes the
  buffers before each request. The letter of a volume is a \<open>char\<close>.
\<close>

record 'w nt_vol = "'w nt_io" +
  NtOpenSymbolicLinkObject :: "wstring \<Rightarrow> u32 \<Rightarrow> 'w \<Rightarrow> (u32 \<times> handle) \<times> 'w"
  NtQuerySymbolicLinkObject :: "handle \<Rightarrow> nat \<Rightarrow> 'w \<Rightarrow> (u32 \<times> wstring) \<times> 'w"
  NtQueryDeviceMap :: "'w \<Rightarrow> (u32 \<times> u8 list) \<times> 'w"

definition FileFsVolumeInformation :: nat where "FileFsVolumeInformation = 1"
definition FileFsSizeInformation :: nat where "FileFsSizeInformation = 3"
definition FileFsDeviceInformation :: nat where "FileFsDeviceInformation = 4"
definition FileFsAttributeInformation :: nat where "FileFsAttributeInformation = 5"

definition CTL_CODE :: "u32 \<Rightarrow> u32 \<Rightarrow> u32 \<Rightarrow> u32 \<Rightarrow> u32" where
  "CTL_CODE t f m a = push_bit 16 t OR push_bit 14 a OR push_bit 2 f OR m"

definition FILE_DEVICE_DISK :: u32 where "FILE_DEVICE_DISK = 7"
definition IOCTL_DISK_GET_DRIVE_GEOMETRY :: u32 where "IOCTL_DISK_GET_DRIVE_GEOMETRY = CTL_CODE FILE_DEVICE_DISK 0 0 0"
definition FSCTL_GET_NTFS_VOLUME_DATA :: u32 where
  "FSCTL_GET_NTFS_VOLUME_DATA = CTL_CODE FILE_DEVICE_FILE_SYSTEM 25 0 0"
definition FSCTL_IS_VOLUME_DIRTY :: u32 where "FSCTL_IS_VOLUME_DIRTY = CTL_CODE FILE_DEVICE_FILE_SYSTEM 30 0 0"
definition VOLUME_IS_DIRTY :: u32 where "VOLUME_IS_DIRTY = 1"
definition MAX_FS_NAME_LENGTH :: nat where "MAX_FS_NAME_LENGTH = 31"
definition sizeof_NTFS_DATA :: nat where "sizeof_NTFS_DATA = 96"

text \<open>The name of the file system is kept as the C string it is; \<open>ntfs_data\<close> as the bytes of \<open>NTFS_DATA\<close>.\<close>

record winx_volume_information =
  v_volume_letter :: char
  v_fs_name :: string
  v_label :: wstring
  v_total_bytes :: u64
  v_free_bytes :: u64
  v_total_clusters :: u64
  v_bytes_per_cluster :: u64
  v_sectors_per_cluster :: u32
  v_bytes_per_sector :: u32
  v_ntfs_data :: "u8 list"
  v_is_dirty :: int
  v_device_capacity :: u64

subsection \<open>Opening\<close>

definition is_letter :: "char \<Rightarrow> bool" where
  "is_letter c \<longleftrightarrow> of_char (CHR ''A'') \<le> (of_char c :: nat) \<and> (of_char c :: nat) \<le> of_char (CHR ''Z'')"

definition volume_path :: "char \<Rightarrow> wstring" where
  "volume_path c = (wpath ['''', ''??'', ''A:''])[4 := of_char (winx_toupper c)]"

definition root_path :: "char \<Rightarrow> wstring" where
  "root_path c = (wpath ['''', ''??'', ''A:'', ''''])[4 := of_char (winx_toupper c)]"

definition OpenRootDirectory :: "('w, 'z) nt_io_scheme \<Rightarrow> char \<Rightarrow> 'w \<Rightarrow> handle \<times> 'w" where
  "OpenRootDirectory nt volume_letter w =
     (let ((status, h), w) = NtCreateFile nt
            \<lparr>cr_path = root_path volume_letter, cr_access = FILE_GENERIC_READ,
             cr_object_attributes = FILE_READ_ATTRIBUTES, cr_file_attributes = 0,
             cr_share = FILE_SHARE_READ OR FILE_SHARE_WRITE, cr_disposition = FILE_OPEN, cr_options = 0\<rparr> w
      in if \<not> NT_SUCCESS status then (0, w) else (h, w))"

definition winx_vopen :: "('w, 'z) nt_io_scheme \<Rightarrow> char \<Rightarrow> 'w \<Rightarrow> WINX_FILE option \<times> 'w" where
  "winx_vopen nt volume_letter w = winx_fopen nt (Some (volume_path volume_letter)) (Some ''r'') w"

definition winx_vflush :: "('w, 'z) nt_io_scheme \<Rightarrow> char \<Rightarrow> 'w \<Rightarrow> int \<times> 'w" where
  "winx_vflush nt volume_letter w =
     (let (f, w) = winx_fopen nt (Some (volume_path volume_letter)) (Some ''r+'') w
      in case f of
           None \<Rightarrow> (-1, w)
         | Some _ \<Rightarrow> let (result, w) = winx_fflush nt f w in (result, winx_fclose nt f w))"

subsection \<open>Queries\<close>

definition get_drive_geometry :: "('w, 'z) nt_io_scheme \<Rightarrow> handle \<Rightarrow> winx_volume_information \<Rightarrow> 'w \<Rightarrow>
  int \<times> winx_volume_information \<times> 'w" where
  "get_drive_geometry nt hRoot v w =
     (let ((status, ffs), w) = NtQueryVolumeInformationFile nt hRoot FileFsSizeInformation 24 w;
          ffs = zero_filled 24 ffs
      in if \<not> NT_SUCCESS status then (-1, v, w)
         else
           let TotalAllocationUnits = le64 ffs 0;
               AvailableAllocationUnits = le64 ffs 8;
               SectorsPerAllocationUnit = le32 ffs 16;
               BytesPerSector = le32 ffs 20;
               v = v\<lparr>v_total_bytes := TotalAllocationUnits * ucast SectorsPerAllocationUnit * ucast BytesPerSector,
                     v_free_bytes := AvailableAllocationUnits * ucast SectorsPerAllocationUnit * ucast BytesPerSector,
                     v_total_clusters := TotalAllocationUnits,
                     v_bytes_per_cluster := ucast (SectorsPerAllocationUnit * BytesPerSector),
                     v_sectors_per_cluster := SectorsPerAllocationUnit,
                     v_bytes_per_sector := BytesPerSector,
                     v_device_capacity := 0\<rparr>;
               (f, w) = winx_vopen nt (v_volume_letter v) w
           in if f = None then (0, v, w)
              else
                let (result, dg, _, w) = winx_ioctl nt f IOCTL_DISK_GET_DRIVE_GEOMETRY [] 24 w;
                    v = (if result \<ge> 0 then
                           v\<lparr>v_device_capacity := le64 dg 0 * ucast (le32 dg 12) * ucast (le32 dg 16) * ucast (le32 dg 20)\<rparr>
                         else v)
                in (0, v, winx_fclose nt f w))"

text \<open>
  \<open>_snprintf\<close> with \<open>%ws\<close> in the C locale converts units below 256 and stops at any other.
\<close>

definition narrow :: "wstring \<Rightarrow> string" where
  "narrow s = map (\<lambda>c. char_of (unat c)) (takeWhile (\<lambda>c. c < 256) s)"

definition get_filesystem_name :: "('w, 'z) nt_io_scheme \<Rightarrow> handle \<Rightarrow> winx_volume_information \<Rightarrow> 'w \<Rightarrow>
  int \<times> winx_volume_information \<times> 'w" where
  "get_filesystem_name nt hRoot v w =
     (let fs_attr_info_size = MAX_PATH * 2 + 16;
          ((status, pfa), w) = NtQueryVolumeInformationFile nt hRoot FileFsAttributeInformation fs_attr_info_size w;
          pfa = zero_filled fs_attr_info_size pfa
      in if \<not> NT_SUCCESS status then (-1, v, w)
         else
           let length = min MAX_FS_NAME_LENGTH (unat (le32 pfa 8) div 2);
               fs_name = c_string (le_wchars pfa 12 length)
           in (0, v\<lparr>v_fs_name := take MAX_FS_NAME_LENGTH (narrow fs_name)\<rparr>, w))"

definition get_ntfs_data :: "('w, 'z) nt_io_scheme \<Rightarrow> winx_volume_information \<Rightarrow> 'w \<Rightarrow>
  int \<times> winx_volume_information \<times> 'w" where
  "get_ntfs_data nt v w =
     (let (f, w) = winx_vopen nt (v_volume_letter v) w
      in if f = None then (-1, v, w)
         else
           let (result, data, _, w) = winx_ioctl nt f FSCTL_GET_NTFS_VOLUME_DATA [] sizeof_NTFS_DATA w
           in (result, v\<lparr>v_ntfs_data := data\<rparr>, winx_fclose nt f w))"

definition get_volume_label :: "('w, 'z) nt_io_scheme \<Rightarrow> handle \<Rightarrow> winx_volume_information \<Rightarrow> 'w \<Rightarrow>
  winx_volume_information \<times> 'w" where
  "get_volume_label nt hRoot v w =
     (let v = v\<lparr>v_label := []\<rparr>;
          buffer_size = (24 - 2) + (MAX_PATH + 1) * 2;
          ((status, ffvi), w) = NtQueryVolumeInformationFile nt hRoot FileFsVolumeInformation buffer_size w;
          ffvi = zero_filled buffer_size ffvi
      in if \<not> NT_SUCCESS status then (v, w)
         else (v\<lparr>v_label := c_string (le_wchars ffvi 18 MAX_PATH)\<rparr>, w))"

definition get_volume_dirty_flag :: "('w, 'z) nt_io_scheme \<Rightarrow> winx_volume_information \<Rightarrow> 'w \<Rightarrow>
  winx_volume_information \<times> 'w" where
  "get_volume_dirty_flag nt v w =
     (let (f, w) = winx_vopen nt (v_volume_letter v) w
      in if f = None then (v, w)
         else
           let (result, dirty_flag, _, w) = winx_ioctl nt f FSCTL_IS_VOLUME_DIRTY [] 4 w;
               w = winx_fclose nt f w
           in if result \<ge> 0 \<and> le32 dirty_flag 0 AND VOLUME_IS_DIRTY \<noteq> 0 then (v\<lparr>v_is_dirty := 1\<rparr>, w)
              else (v, w))"

definition zero_volume_information :: "char \<Rightarrow> winx_volume_information" where
  "zero_volume_information c =
     \<lparr>v_volume_letter = c, v_fs_name = [], v_label = [], v_total_bytes = 0, v_free_bytes = 0, v_total_clusters = 0,
      v_bytes_per_cluster = 0, v_sectors_per_cluster = 0, v_bytes_per_sector = 0,
      v_ntfs_data = replicate sizeof_NTFS_DATA 0, v_is_dirty = 0, v_device_capacity = 0\<rparr>"

definition winx_get_volume_information :: "('w, 'z) nt_io_scheme \<Rightarrow> char \<Rightarrow> 'w \<Rightarrow>
  int \<times> winx_volume_information \<times> 'w" where
  "winx_get_volume_information nt volume_letter w =
     (let volume_letter = winx_toupper volume_letter;
          v = zero_volume_information volume_letter
      in if \<not> is_letter volume_letter then (-1, v, w)
         else
           let (hRoot, w) = OpenRootDirectory nt volume_letter w
           in if hRoot = 0 then (-1, v, w)
              else
                let (r, v, w) = get_drive_geometry nt hRoot v w
                in if r < 0 then (-1, v, NtClose nt hRoot w)
                   else
                     let (r, v, w) = get_filesystem_name nt hRoot v w
                     in if r < 0 then (-1, v, NtClose nt hRoot w)
                        else
                          let (v, w) = get_volume_label nt hRoot v w;
                              v = v\<lparr>v_ntfs_data := replicate sizeof_NTFS_DATA 0\<rparr>;
                              (v, w) = (if v_fs_name v = ''NTFS'' then snd (get_ntfs_data nt v w) else (v, w));
                              (v, w) = get_volume_dirty_flag nt v w
                          in (0, v, NtClose nt hRoot w))"

subsection \<open>The type of a drive\<close>

definition SYMBOLIC_LINK_QUERY :: u32 where "SYMBOLIC_LINK_QUERY = 1"

text \<open>
  The answer of \<open>NtQuerySymbolicLinkObject\<close> holds what the buffer contains afterwards. The result is
  the string the buffer holds when the call succeeded.
\<close>

definition winx_query_symbolic_link :: "('w, 'z) nt_vol_scheme \<Rightarrow> wstring \<Rightarrow> nat \<Rightarrow> 'w \<Rightarrow> wstring option \<times> 'w" where
  "winx_query_symbolic_link nt name len w =
     (if len = 0 then (None, w)
      else
        let ((status, hLink), w) = NtOpenSymbolicLinkObject nt name SYMBOLIC_LINK_QUERY w
        in if \<not> NT_SUCCESS status then (None, w)
           else
             let ((status, buffer), w) = NtQuerySymbolicLinkObject nt hLink (len * 2) w;
                 w = NtClose nt hLink w
             in if \<not> NT_SUCCESS status then (None, w)
                else (Some (c_string (take (len - 1) buffer)), w))"

definition DRIVE_UNKNOWN :: int where "DRIVE_UNKNOWN = 0"
definition DRIVE_NO_ROOT_DIR :: int where "DRIVE_NO_ROOT_DIR = 1"
definition DRIVE_REMOVABLE :: int where "DRIVE_REMOVABLE = 2"
definition DRIVE_FIXED :: int where "DRIVE_FIXED = 3"
definition DRIVE_REMOTE :: int where "DRIVE_REMOTE = 4"
definition DRIVE_CDROM :: int where "DRIVE_CDROM = 5"
definition DRIVE_ASSIGNED_BY_SUBST_COMMAND :: int where "DRIVE_ASSIGNED_BY_SUBST_COMMAND = 1200"
definition FILE_REMOVABLE_MEDIA :: u32 where "FILE_REMOVABLE_MEDIA = 1"
definition FILE_REMOTE_DEVICE :: u32 where "FILE_REMOTE_DEVICE = 0x10"
definition MAX_TARGET_LENGTH :: nat where "MAX_TARGET_LENGTH = 256"

text \<open>The classification of the device type and characteristics at the end of \<open>winx_get_drive_type\<close>.\<close>

definition device_drive_type :: "u32 \<Rightarrow> u32 \<Rightarrow> int" where
  "device_drive_type DeviceType Characteristics =
     (if Characteristics AND FILE_REMOTE_DEVICE \<noteq> 0 then DRIVE_REMOTE
      else if DeviceType \<in> {0x02, 0x03, 0x33} then DRIVE_CDROM
      else if DeviceType \<in> {0x14, 0x12, 0x13, 0x35, 0x36, 0x06} then DRIVE_REMOTE
      else if DeviceType = 0x22 then DRIVE_UNKNOWN
      else if Characteristics AND FILE_REMOVABLE_MEDIA \<noteq> 0 then DRIVE_REMOVABLE
      else if DeviceType \<in> {0x07, 0x09, 0x08} then DRIVE_FIXED
      else DRIVE_UNKNOWN)"

definition winx_get_drive_type :: "('w, 'z) nt_vol_scheme \<Rightarrow> char \<Rightarrow> 'w \<Rightarrow> int \<times> 'w" where
  "winx_get_drive_type nt letter w =
     (let letter = winx_toupper letter
      in if \<not> is_letter letter then (-1, w)
         else
           let (link_target, w) =
                 winx_query_symbolic_link nt ((wpath ['''', ''??'', ''A:''])[4 := of_char letter]) MAX_TARGET_LENGTH w
           in case link_target of
                None \<Rightarrow> (-1, w)
              | Some link_target \<Rightarrow>
                  if wcsstr link_target (wpath ['''', ''??'', '''']) = Some 0 then (DRIVE_ASSIGNED_BY_SUBST_COMMAND, w)
                  else if wcsstr link_target (wstr ''Floppy'') \<noteq> None then (DRIVE_REMOVABLE, w)
                  else
                    let ((status, pdi), w) = NtQueryDeviceMap nt w;
                        pdi = zero_filled 36 pdi;
                        drive_type = uint (pdi ! (4 + (of_char letter - of_char (CHR ''A''))))
                    in if \<not> NT_SUCCESS status then (-1, w)
                       else if drive_type \<noteq> DRIVE_NO_ROOT_DIR then (drive_type, w)
                       else
                         let (hRoot, w) = OpenRootDirectory nt letter w
                         in if hRoot = 0 then (-1, w)
                            else
                              let ((status, ffdi), w) = NtQueryVolumeInformationFile nt hRoot FileFsDeviceInformation 8 w;
                                  ffdi = zero_filled 8 ffdi;
                                  w = NtClose nt hRoot w
                              in if \<not> NT_SUCCESS status then (-1, w)
                                 else (device_drive_type (le32 ffdi 0) (le32 ffdi 4), w))"

subsection \<open>No handle is left open\<close>

text \<open>
  What the documentation says about handles: a successful \<open>NtCreateFile\<close> returns a new handle that is
  not \<open>NULL\<close>, a failed one opens nothing, \<open>NtClose\<close> closes, and the queries open and close nothing.
  \<open>hs\<close> reads the set of open handles off the state of the world.
\<close>

definition handles_tracked :: "('w, 'z) nt_io_scheme \<Rightarrow> ('w \<Rightarrow> handle set) \<Rightarrow> bool" where
  "handles_tracked nt hs \<longleftrightarrow>
     (\<forall>r w s h w'. NtCreateFile nt r w = ((s, h), w') \<longrightarrow>
        (if s = STATUS_SUCCESS then h \<noteq> 0 \<and> h \<notin> hs w \<and> hs w' = insert h (hs w)
         else \<not> NT_SUCCESS s \<and> hs w' = hs w)) \<and>
     (\<forall>h w. hs (NtClose nt h w) = hs w - {h}) \<and>
     (\<forall>h k n w. hs (snd (NtQueryVolumeInformationFile nt h k n w)) = hs w) \<and>
     (\<forall>h c i n w. hs (snd (NtFsControlFile nt h c i n w)) = hs w) \<and>
     (\<forall>h c i n w. hs (snd (NtDeviceIoControlFile nt h c i n w)) = hs w)"

lemma handle_created:
  assumes "handles_tracked nt hs" "NtCreateFile nt r w = ((s, h), w')"
  shows "if s = STATUS_SUCCESS then h \<noteq> 0 \<and> h \<notin> hs w \<and> hs w' = insert h (hs w) else \<not> NT_SUCCESS s \<and> hs w' = hs w"
  using assms(1) [unfolded handles_tracked_def, THEN conjunct1, rule_format, OF assms(2)] .

lemma handles_kept:
  assumes "handles_tracked nt hs"
  shows "hs (NtClose nt h w) = hs w - {h}" "hs (snd (NtQueryVolumeInformationFile nt h k n w)) = hs w"
    "hs (snd (NtFsControlFile nt h c i n w)) = hs w" "hs (snd (NtDeviceIoControlFile nt h c i n w)) = hs w"
  using assms by (simp_all add: handles_tracked_def)

definition opened :: "('w \<Rightarrow> handle set) \<Rightarrow> 'w \<Rightarrow> WINX_FILE option \<Rightarrow> 'w \<Rightarrow> bool" where
  "opened hs w f w' \<longleftrightarrow>
     (case f of
        None \<Rightarrow> hs w' = hs w
      | Some g \<Rightarrow> hFile g \<noteq> 0 \<and> io_buffer g = None \<and> hFile g \<notin> hs w \<and> hs w' = insert (hFile g) (hs w))"

lemma fopen_handle:
  assumes "handles_tracked nt hs" "winx_fopen nt p m w = (f, w')"
  shows "opened hs w f w'"
proof (cases "p = None \<or> m = None")
  case True
  then have "winx_fopen nt p m w = (None, w)" by (cases p; cases m) (simp_all add: winx_fopen_def)
  then show ?thesis using assms(2) by (auto simp: opened_def)
next
  case False
  then obtain q n where q: "p = Some q" "m = Some n" by auto
  define r where "r = \<lparr>cr_path = q, cr_access = fst (fopen_mode n) OR SYNCHRONIZE, cr_object_attributes = OBJ_CASE_INSENSITIVE,
    cr_file_attributes = FILE_ATTRIBUTE_NORMAL, cr_share = FILE_SHARE_READ OR FILE_SHARE_WRITE,
    cr_disposition = snd (fopen_mode n), cr_options = FILE_SYNCHRONOUS_IO_NONALERT\<rparr>"
  obtain s h w1 where c: "NtCreateFile nt r w = ((s, h), w1)" by (metis prod.exhaust)
  have eq: "winx_fopen nt p m w =
      (if s \<noteq> STATUS_SUCCESS then (None, w1)
       else case winx_tmalloc nt sizeof_WINX_FILE w1 of
           None \<Rightarrow> (None, NtClose nt h w1)
         | Some _ \<Rightarrow> (Some \<lparr>hFile = h, roffset = 0, woffset = 0, io_buffer = None, io_buffer_size = 0,
                          io_buffer_offset = 0, wboffset = 0\<rparr>, w1))"
    using c by (simp add: winx_fopen_def q r_def split_beta Let_def split: option.split)
  have h: "if s = STATUS_SUCCESS then h \<noteq> 0 \<and> h \<notin> hs w \<and> hs w1 = insert h (hs w) else \<not> NT_SUCCESS s \<and> hs w1 = hs w"
    using handle_created [OF assms(1) c] .
  show ?thesis
  proof (cases "s = STATUS_SUCCESS")
    case True
    then have "h \<noteq> 0 \<and> h \<notin> hs w \<and> hs w1 = insert h (hs w)" "hs (NtClose nt h w1) = hs w1 - {h}"
      using h handles_kept(1) [OF assms(1)] by simp_all
    then show ?thesis
      using eq assms(2) True by (cases "winx_tmalloc nt sizeof_WINX_FILE w1") (auto simp: opened_def)
  next
    case False
    then show ?thesis using eq assms(2) h by (auto simp: opened_def)
  qed
qed


lemma fclose_handle: "handles_tracked nt hs \<Longrightarrow> io_buffer g = None \<Longrightarrow> hs (winx_fclose nt (Some g) w) = hs w - {hFile g} \<or> hFile g = 0"
  by (simp add: winx_fclose_def handles_kept)

lemma ioctl_handle: "handles_tracked nt hs \<Longrightarrow> winx_ioctl nt f c i n w = (r, d, k, w') \<Longrightarrow> hs w' = hs w"
  by (auto simp: winx_ioctl_def split_beta Let_def handles_kept split: option.splits if_splits)

text \<open>A control request on a volume that is opened for it and closed again leaves no handle open.\<close>

lemma volume_request_handle:
  assumes "handles_tracked nt hs" "winx_vopen nt c w = (f, w1)" "winx_ioctl nt f code i n w1 = (r, d, k, w2)"
  shows "hs (winx_fclose nt f w2) = hs w"
proof -
  have o: "opened hs w f w1" using fopen_handle [OF assms(1) assms(2) [unfolded winx_vopen_def]] .
  have h: "hs w2 = hs w1" using ioctl_handle [OF assms(1,3)] .
  show ?thesis
  proof (cases f)
    case None
    then show ?thesis using o h by (simp add: opened_def winx_fclose_def)
  next
    case (Some g)
    then show ?thesis using o h fclose_handle [OF assms(1), of g w2] by (auto simp: opened_def)
  qed
qed

lemma unopened_handle:
  assumes "handles_tracked nt hs" "winx_vopen nt c w = (None, w1)"
  shows "hs w1 = hs w"
  using fopen_handle [OF assms(1), of _ _ w None w1] assms(2) by (auto simp: winx_vopen_def opened_def)

lemma get_drive_geometry_handle:
  assumes "handles_tracked nt hs" "get_drive_geometry nt h v w = (r, v', w')"
  shows "hs w' = hs w"
proof -
  obtain s ffs w1 where q: "NtQueryVolumeInformationFile nt h FileFsSizeInformation 24 w = ((s, ffs), w1)"
    by (metis prod.exhaust)
  have w1: "hs w1 = hs w" using handles_kept(2) [OF assms(1), of h FileFsSizeInformation 24 w] q by simp
  obtain f w2 where o: "winx_vopen nt (v_volume_letter v) w1 = (f, w2)" by (metis prod.exhaust)
  obtain r' d k w3 where i: "winx_ioctl nt f IOCTL_DISK_GET_DRIVE_GEOMETRY [] 24 w2 = (r', d, k, w3)" by (metis prod.exhaust)
  have "w' = w1 \<or> f = None \<and> w' = w2 \<or> w' = winx_fclose nt f w3"
    using assms(2) q o i by (auto simp: get_drive_geometry_def Let_def split: if_splits)
  then show ?thesis
    using w1 unopened_handle [OF assms(1), of _ w1 w2] o volume_request_handle [OF assms(1) o i] by auto
qed

lemma get_ntfs_data_handle:
  assumes "handles_tracked nt hs" "get_ntfs_data nt v w = (r, v', w')"
  shows "hs w' = hs w"
proof -
  obtain f w2 where o: "winx_vopen nt (v_volume_letter v) w = (f, w2)" by (metis prod.exhaust)
  obtain r' d k w3 where i: "winx_ioctl nt f FSCTL_GET_NTFS_VOLUME_DATA [] sizeof_NTFS_DATA w2 = (r', d, k, w3)"
    by (metis prod.exhaust)
  have "f = None \<and> w' = w2 \<or> w' = winx_fclose nt f w3"
    using assms(2) o i by (auto simp: get_ntfs_data_def Let_def split: if_splits)
  then show ?thesis using unopened_handle [OF assms(1), of _ w w2] o volume_request_handle [OF assms(1) o i] by auto
qed

lemma get_volume_dirty_flag_handle:
  assumes "handles_tracked nt hs" "get_volume_dirty_flag nt v w = (v', w')"
  shows "hs w' = hs w"
proof -
  obtain f w2 where o: "winx_vopen nt (v_volume_letter v) w = (f, w2)" by (metis prod.exhaust)
  obtain r' d k w3 where i: "winx_ioctl nt f FSCTL_IS_VOLUME_DIRTY [] 4 w2 = (r', d, k, w3)" by (metis prod.exhaust)
  have "f = None \<and> w' = w2 \<or> w' = winx_fclose nt f w3"
    using assms(2) o i by (auto simp: get_volume_dirty_flag_def Let_def split: if_splits)
  then show ?thesis using unopened_handle [OF assms(1), of _ w w2] o volume_request_handle [OF assms(1) o i] by auto
qed

lemma get_names_handle:
  assumes "handles_tracked nt hs"
  shows "hs (snd (snd (get_filesystem_name nt h v w))) = hs w" "hs (snd (get_volume_label nt h v w)) = hs w"
  by (simp_all add: get_filesystem_name_def get_volume_label_def split_beta Let_def handles_kept [OF assms])

lemma open_root_handle:
  assumes "handles_tracked nt hs" "OpenRootDirectory nt c w = (h, w')"
  shows "if h = 0 then hs w' = hs w else h \<notin> hs w \<and> hs w' = insert h (hs w)"
proof -
  define r where "r = \<lparr>cr_path = root_path c, cr_access = FILE_GENERIC_READ,
    cr_object_attributes = FILE_READ_ATTRIBUTES, cr_file_attributes = 0,
    cr_share = FILE_SHARE_READ OR FILE_SHARE_WRITE, cr_disposition = FILE_OPEN, cr_options = 0\<rparr>"
  obtain s k w1 where c: "NtCreateFile nt r w = ((s, k), w1)" by (metis prod.exhaust)
  have "(h, w') = (if \<not> NT_SUCCESS s then (0, w1) else (k, w1))"
    using assms(2) c by (auto simp: OpenRootDirectory_def r_def)
  then show ?thesis using handle_created [OF assms(1) c] by (auto simp: NT_SUCCESS_def STATUS_SUCCESS_def split: if_splits)
qed


lemma unat_ucast_u64: "unat (ucast x :: u64) = unat (x :: u32)"
proof -
  have "unat x < 2 ^ 32" using unsigned_less [of x] by simp
  then have "take_bit 64 (unat x) = unat x" by (intro take_bit_nat_eq_self) simp
  then show ?thesis by (simp add: unsigned_ucast_eq)
qed

lemma geometry_exact:
  assumes "get_drive_geometry nt h v w = (0, v', w')"
    "unat (v_sectors_per_cluster v') * unat (v_bytes_per_sector v') < 2 ^ 32"
  shows "v_total_bytes v' = v_total_clusters v' * v_bytes_per_cluster v'"
proof -
  obtain s ffs w1 where q: "NtQueryVolumeInformationFile nt h FileFsSizeInformation 24 w = ((s, ffs), w1)"
    by (metis prod.exhaust)
  define m where "m = zero_filled 24 ffs"
  have v: "v_total_bytes v' = le64 m 0 * ucast (le32 m 16) * ucast (le32 m 20)" "v_total_clusters v' = le64 m 0"
      "v_bytes_per_cluster v' = ucast (le32 m 16 * le32 m 20)" "v_sectors_per_cluster v' = le32 m 16"
      "v_bytes_per_sector v' = le32 m 20"
    using assms(1) q unfolding m_def
    by (auto simp: get_drive_geometry_def Let_def split_beta split: if_splits)
  have "ucast (le32 m 16 * le32 m 20) = (ucast (le32 m 16) * ucast (le32 m 20) :: u64)"
  proof (rule word_unat_eq_iff [THEN iffD2])
    have "unat (le32 m 16 * le32 m 20) = unat (le32 m 16) * unat (le32 m 20)"
      using assms(2) v(4,5) by (simp add: unat_word_ariths)
    then show "unat (ucast (le32 m 16 * le32 m 20) :: u64) = unat (ucast (le32 m 16) * ucast (le32 m 20) :: u64)"
      using assms(2) v(4,5) by (simp add: unat_word_ariths unat_ucast_u64)
  qed
  then show ?thesis using v(1-3) by (simp add: mult.assoc)
qed

text \<open>
  C33: \<open>winx_get_volume_information\<close> closes every handle it opens, on success and on every failure, if
  the system keeps its documented behaviour for handles.
\<close>

theorem volume_information_no_leak:
  assumes "handles_tracked nt hs" "winx_get_volume_information nt c w = (r, v, w')"
  shows "hs w' = hs w"
proof (cases "is_letter (winx_toupper c)")
  case True
  let ?v = "zero_volume_information (winx_toupper c)"
  obtain h w1 where o: "OpenRootDirectory nt (winx_toupper c) w = (h, w1)" by (metis prod.exhaust)
  note open_root = open_root_handle [OF assms(1) o]
  obtain r2 v2 w2 where g: "get_drive_geometry nt h ?v w1 = (r2, v2, w2)" by (metis prod.exhaust)
  obtain r3 v3 w3 where f: "get_filesystem_name nt h v2 w2 = (r3, v3, w3)" by (metis prod.exhaust)
  obtain v4 w4 where l: "get_volume_label nt h v3 w3 = (v4, w4)" by (metis prod.exhaust)
  let ?v4 = "v4\<lparr>v_ntfs_data := replicate sizeof_NTFS_DATA 0\<rparr>"
  obtain v5 w5 where n: "(if v_fs_name ?v4 = ''NTFS'' then snd (get_ntfs_data nt ?v4 w4) else (?v4, w4)) = (v5, w5)"
    by (metis prod.exhaust)
  obtain v6 w6 where d: "get_volume_dirty_flag nt v5 w5 = (v6, w6)" by (metis prod.exhaust)
  have same: "hs w2 = hs w1" "hs w3 = hs w2" "hs w4 = hs w3" "hs w5 = hs w4" "hs w6 = hs w5"
    using get_drive_geometry_handle [OF assms(1) g] get_names_handle [OF assms(1)] f l
      get_volume_dirty_flag_handle [OF assms(1) d] get_ntfs_data_handle [OF assms(1), of ?v4 w4] n
    by (metis snd_conv, metis snd_conv, metis snd_conv, metis prod.exhaust snd_conv, simp)
  have "h = 0 \<and> w' = w1 \<or> h \<noteq> 0 \<and> (w' = NtClose nt h w2 \<or> w' = NtClose nt h w3 \<or> w' = NtClose nt h w6)"
    using assms(2) True o g f l n d unfolding winx_get_volume_information_def Let_def by (auto split: if_splits)
  then show ?thesis using open_root same handles_kept(1) [OF assms(1)] by auto
qed (use assms(2) in \<open>auto simp: winx_get_volume_information_def Let_def\<close>)


text \<open>A system whose state is the list of open handles, with a volume of 1000 clusters of 8 sectors.\<close>

definition demo_size_information :: "u8 list" where
  "demo_size_information = [232, 3, 0, 0, 0, 0, 0, 0] @ [100, 0, 0, 0, 0, 0, 0, 0] @ [8, 0, 0, 0] @ [0, 2, 0, 0]"

definition demo_volume :: "handle list nt_io" where
  "demo_volume = \<lparr>NtCreateFile = \<lambda>r w. ((STATUS_SUCCESS, Suc (sum_list w)), Suc (sum_list w) # w),
     NtClose = \<lambda>h w. removeAll h w, RtlGetVersion = (6, 1), malloc = \<lambda>n w. Some [],
     NtReadFile = \<lambda>h n p w. ((refused, []), w), NtWriteFile = \<lambda>h xs p w. (refused, w),
     NtFlushBuffersFile = \<lambda>h w. (0, w), NtQueryStandardInformation = \<lambda>h w. ((0, 0), w), NtDeleteFile = \<lambda>p a w. (0, w),
     NtFsControlFile = \<lambda>h c i n w. ((refused, []), w), NtDeviceIoControlFile = \<lambda>h c i n w. ((refused, []), w),
     NtQueryVolumeInformationFile = \<lambda>h k n w. ((STATUS_SUCCESS, if k = FileFsSizeInformation then demo_size_information else []), w)\<rparr>"

lemma demo_volume_tracked: "handles_tracked demo_volume set"
proof -
  have "Suc (sum_list w) \<notin> set w" for w using member_le_sum_list [of "Suc (sum_list w)" w] by fastforce
  then show ?thesis by (auto simp: handles_tracked_def demo_volume_def)
qed

lemma demo_volume_simps [simp]:
  "NtCreateFile demo_volume r w = ((STATUS_SUCCESS, Suc (sum_list w)), Suc (sum_list w) # w)"
  "NtClose demo_volume h w = removeAll h w" "malloc demo_volume sz w = Some []"
  "NtDeviceIoControlFile demo_volume h c i n w = ((refused, []), w)" "NtFsControlFile demo_volume h c i n w = ((refused, []), w)"
  "NtQueryVolumeInformationFile demo_volume h k n w =
     ((STATUS_SUCCESS, if k = FileFsSizeInformation then demo_size_information else []), w)"
  by (simp_all add: demo_volume_def)

lemma demo_vopen:
  "winx_vopen demo_volume c w = (Some \<lparr>hFile = Suc (sum_list w), roffset = 0, woffset = 0, io_buffer = None,
     io_buffer_size = 0, io_buffer_offset = 0, wboffset = 0\<rparr>, Suc (sum_list w) # w)"
  by (simp add: winx_vopen_def winx_fopen_def fopen_mode_def winx_tmalloc_def)

lemma demo_refused: "winx_ioctl demo_volume (Some f) c i n w = (-1, zero_filled n [], 0, w)"
  by (simp add: winx_ioctl_def refused_def final_status_def NT_SUCCESS_def STATUS_INVALID_PARAMETER_def)

lemma demo_volume_result:
  "fst (winx_get_volume_information demo_volume CHR ''C'' [3]) = 0"
proof -
  have up: "winx_toupper CHR ''C'' = CHR ''C''" by (simp add: winx_toupper_def ascii_uppercase_def char_of_def bit_0)
  have l: "is_letter CHR ''C''" by (simp add: is_letter_def)
  show ?thesis
    by (simp add: winx_get_volume_information_def up l OpenRootDirectory_def get_drive_geometry_def get_filesystem_name_def
        get_volume_label_def get_ntfs_data_def get_volume_dirty_flag_def demo_vopen demo_refused NT_SUCCESS_def STATUS_SUCCESS_def
        Let_def split_beta)
qed

theorem volume_information_no_leak_witness:
  "\<exists>v w. winx_get_volume_information demo_volume CHR ''C'' [3] = (0, v, w) \<and> set w = {3}"
proof -
  obtain r v w where e: "winx_get_volume_information demo_volume CHR ''C'' [3] = (r, v, w)" by (metis prod_cases3)
  then have "r = 0" using demo_volume_result by simp
  then show ?thesis using volume_information_no_leak [OF demo_volume_tracked e] e by simp
qed

end
