(* ===== verification/Ntfs_Record.thy ===== *)
theory Ntfs_Record
  imports Ftw_Walk Volume_Info
begin

unbundle bit_operations_syntax

text \<open>
  Model of the scanner of the NTFS master file table (\<open>zenwinx/src/zenwinx/ftw_ntfs.c\<close>, structures of
  \<open>ntfs.h\<close>), first part: reading file records, walking through the attributes of a record, the names
  of attributes, the layout of the table, and the decoding of runs.

  A file record is the block of bytes behind the \<open>FILE_RECORD_HEADER\<close> pointer, up to the end of the
  buffer it was read into; a pointer into it is an offset. The packed structures are read at their
  offsets by \<open>rd8\<close>, \<open>rd16\<close>, \<open>rd32\<close> and \<open>rd64\<close>, so \<open>None\<close> is an access outside the buffer. The members of
  \<open>mft_scan_parameters\<close> that never change, the flags and the callbacks, are in \<open>ftw_args\<close>; the list
  of files is the list of its entries from the head on. \<open>size_t\<close> has 64 bits.
\<close>

record mft_layout =
  file_record_size :: u32
  file_record_buffer_size :: u32
  number_of_file_records :: u64
  total_clusters :: u64
  cluster_size :: u64
  sectors_per_cluster :: u32
  sector_size :: u32

datatype mft_scan_direction = MFT_SCAN_RTL | MFT_SCAN_LTR

record my_file_information =
  mfi_BaseMftId :: u64
  mfi_ParentDirectoryMftId :: u64
  mfi_Flags :: u32
  mfi_NameType :: u8
  mfi_Name :: wstring
  mfi_CreationTime :: u64
  mfi_LastWriteTime :: u64
  mfi_LastAccessTime :: u64

record mft_scan_parameters =
  sp_direction :: mft_scan_direction
  sp_ml :: mft_layout
  sp_volume_letter :: char
  sp_f_volume :: WINX_FILE
  sp_mfi :: my_file_information
  sp_processed_attr_list_entries :: u32
  sp_errors :: u32
  sp_filelist :: "winx_file_info list"

abbreviation more_errors :: "mft_scan_parameters \<Rightarrow> mft_scan_parameters" where
  "more_errors sp \<equiv> sp\<lparr>sp_errors := sp_errors sp + 1\<rparr>"

definition FILE_MFT :: u64 where "FILE_MFT = 0"
definition FILE_root :: u64 where "FILE_root = 5"

definition AttributeStandardInformation :: u32 where "AttributeStandardInformation = 0x10"
definition AttributeAttributeList :: u32 where "AttributeAttributeList = 0x20"
definition AttributeFileName :: u32 where "AttributeFileName = 0x30"
definition AttributeSecurityDescriptor :: u32 where "AttributeSecurityDescriptor = 0x50"
definition AttributeData :: u32 where "AttributeData = 0x80"
definition AttributeIndexRoot :: u32 where "AttributeIndexRoot = 0x90"
definition AttributeIndexAllocation :: u32 where "AttributeIndexAllocation = 0xA0"
definition AttributeBitmap :: u32 where "AttributeBitmap = 0xB0"
definition AttributeReparsePoint :: u32 where "AttributeReparsePoint = 0xC0"
definition AttributeEAInformation :: u32 where "AttributeEAInformation = 0xD0"
definition AttributeEA :: u32 where "AttributeEA = 0xE0"
definition AttributeLoggedUtulityStream :: u32 where "AttributeLoggedUtulityStream = 0x100"

definition GetMftIdFromFRN :: "u64 \<Rightarrow> u64" where
  "GetMftIdFromFRN n = n AND 0xffffffffffff"

text \<open>The members of \<open>FILE_RECORD_HEADER\<close>, \<open>ATTRIBUTE\<close>, \<open>RESIDENT_ATTRIBUTE\<close> and \<open>NONRESIDENT_ATTRIBUTE\<close> that are used.\<close>

definition frh_Type :: "u8 list \<Rightarrow> u32 option" where "frh_Type m = rd32 m 0"
definition frh_AttributeOffset :: "u8 list \<Rightarrow> u16 option" where "frh_AttributeOffset m = rd16 m 20"
definition frh_Flags :: "u8 list \<Rightarrow> u16 option" where "frh_Flags m = rd16 m 22"
definition frh_BytesInUse :: "u8 list \<Rightarrow> u32 option" where "frh_BytesInUse m = rd32 m 24"
definition frh_BaseFileRecord :: "u8 list \<Rightarrow> u64 option" where "frh_BaseFileRecord m = rd64 m 32"

definition attr_AttributeType :: "u8 list \<Rightarrow> nat \<Rightarrow> u32 option" where "attr_AttributeType m a = rd32 m a"
definition attr_Length :: "u8 list \<Rightarrow> nat \<Rightarrow> u32 option" where "attr_Length m a = rd32 m (a + 4)"
definition attr_Nonresident :: "u8 list \<Rightarrow> nat \<Rightarrow> bool option" where "attr_Nonresident m a = map_option (\<lambda>b. b \<noteq> 0) (rd8 m (a + 8))"
definition attr_NameLength :: "u8 list \<Rightarrow> nat \<Rightarrow> u8 option" where "attr_NameLength m a = rd8 m (a + 9)"
definition attr_NameOffset :: "u8 list \<Rightarrow> nat \<Rightarrow> u16 option" where "attr_NameOffset m a = rd16 m (a + 10)"
definition attr_Flags :: "u8 list \<Rightarrow> nat \<Rightarrow> u16 option" where "attr_Flags m a = rd16 m (a + 12)"
definition attr_AttributeNumber :: "u8 list \<Rightarrow> nat \<Rightarrow> u16 option" where "attr_AttributeNumber m a = rd16 m (a + 14)"
definition sizeof_ATTRIBUTE :: nat where "sizeof_ATTRIBUTE = 16"

definition ra_ValueLength :: "u8 list \<Rightarrow> nat \<Rightarrow> u32 option" where "ra_ValueLength m a = rd32 m (a + 16)"
definition ra_ValueOffset :: "u8 list \<Rightarrow> nat \<Rightarrow> u16 option" where "ra_ValueOffset m a = rd16 m (a + 20)"
definition sizeof_RESIDENT_ATTRIBUTE :: nat where "sizeof_RESIDENT_ATTRIBUTE = 24"

definition nra_LowVcn :: "u8 list \<Rightarrow> nat \<Rightarrow> u64 option" where "nra_LowVcn m a = rd64 m (a + 16)"
definition nra_RunArrayOffset :: "u8 list \<Rightarrow> nat \<Rightarrow> u16 option" where "nra_RunArrayOffset m a = rd16 m (a + 32)"
definition nra_DataSize :: "u8 list \<Rightarrow> nat \<Rightarrow> u64 option" where "nra_DataSize m a = rd64 m (a + 48)"
definition nra_InitializedSize :: "u8 list \<Rightarrow> nat \<Rightarrow> u64 option" where "nra_InitializedSize m a = rd64 m (a + 56)"
definition sizeof_NONRESIDENT_ATTRIBUTE :: nat where "sizeof_NONRESIDENT_ATTRIBUTE = 72"

definition is_file_record :: "u8 list \<Rightarrow> bool option" where
  "is_file_record m = map_option (\<lambda>t. t = 0x454C4946) (frh_Type m)"

subsection \<open>Reading\<close>

definition ftw_ntfs_check_for_termination :: "'w ftw_args \<Rightarrow> mft_scan_parameters \<Rightarrow> 'w \<Rightarrow> bool \<times> 'w" where
  "ftw_ntfs_check_for_termination args sp w =
     (if fa_flags args AND WINX_FTW_ALLOW_PARTIAL_SCAN = 0 \<and> sp_errors sp \<noteq> 0 then (True, w)
      else ftw_check_for_termination (fa_t args) w)"

text \<open>The status, and the bytes stored to the buffer.\<close>

definition read_sectors :: "('w, 'z) nt_io_scheme \<Rightarrow> u64 \<Rightarrow> u32 \<Rightarrow> mft_scan_parameters \<Rightarrow> 'w \<Rightarrow> (u32 \<times> u8 list) \<times> 'w" where
  "read_sectors nt lsn len sp w =
     (let ((r, bytes), w) = NtReadFile nt (hFile (sp_f_volume sp)) (ucast len) (lsn * ucast (sector_size (sp_ml sp))) w
      in ((final_status r, take (unat len) bytes), w))"

definition FSCTL_GET_NTFS_FILE_RECORD :: u32 where "FSCTL_GET_NTFS_FILE_RECORD = 0x90068"

text \<open>The bytes of a 64-bit integer, the lowest first.\<close>

definition u64_bytes :: "u64 \<Rightarrow> u8 list" where
  "u64_bytes n = map (\<lambda>i. ucast (drop_bit (8 * i) n)) [0..<8]"

text \<open>
  The status, and the contents of the \<open>NTFS_FILE_RECORD_OUTPUT_BUFFER\<close>, which is zeroed before: the
  file reference number, the length at 8, the record at 12.
\<close>

definition get_file_record :: "('w, 'z) nt_io_scheme \<Rightarrow> u64 \<Rightarrow> mft_scan_parameters \<Rightarrow> 'w \<Rightarrow> (u32 \<times> u8 list) \<times> 'w" where
  "get_file_record nt mft_id sp w =
     (let size = unat (file_record_buffer_size (sp_ml sp));
          ((r, bytes), w) = NtFsControlFile nt (hFile (sp_f_volume sp)) FSCTL_GET_NTFS_FILE_RECORD (u64_bytes mft_id) size w
      in ((if NT_SUCCESS (io_status r) then io_iosb r else io_status r, zero_filled size bytes), w))"

definition nfrob_FileReferenceNumber :: "u8 list \<Rightarrow> u64 option" where "nfrob_FileReferenceNumber m = rd64 m 0"
definition nfrob_FileRecordBuffer :: "u8 list \<Rightarrow> u8 list" where "nfrob_FileRecordBuffer m = drop 12 m"
definition sizeof_NTFS_FILE_RECORD_OUTPUT_BUFFER :: u32 where "sizeof_NTFS_FILE_RECORD_OUTPUT_BUFFER = 16"

subsection \<open>Attributes\<close>

text \<open>
  The checks of the attribute at \<open>a\<close>, shared by the two loops over attributes; \<open>Some False\<close> ends the loop.
  The sum of \<open>attr_offset\<close> and the length has 32 bits.
\<close>

definition attribute_valid :: "u8 list \<Rightarrow> mft_layout \<Rightarrow> u16 \<Rightarrow> nat \<Rightarrow> bool option" where
  "attribute_valid m ml attr_offset a = do {
     used \<leftarrow> frh_BytesInUse m;
     if unat attr_offset + sizeof_ATTRIBUTE > unat used \<or> unat attr_offset + sizeof_ATTRIBUTE > unat (file_record_size ml)
     then Some False
     else do {
       ty \<leftarrow> attr_AttributeType m a;
       len \<leftarrow> attr_Length m a;
       if ty = 0xffffffff \<or> ty = 0 \<or> len = 0 then Some False
       else if ucast attr_offset + len > used \<or> ucast attr_offset + len > file_record_size ml then Some False
       else do {
         nonresident \<leftarrow> attr_Nonresident m a;
         Some (if nonresident then \<not> unat len < sizeof_NONRESIDENT_ATTRIBUTE - 8 else \<not> unat len < sizeof_RESIDENT_ATTRIBUTE)
       }
     }
   }"

lemma attribute_valid_Length:
  assumes "attribute_valid m ml off a = Some True" "attr_Length m a = Some len"
  shows "length m - (a + unat len) < length m - a"
  using assms by (auto simp: attribute_valid_def attr_Length_def rd32_def word_unat_eq_iff split: bind_splits if_splits)

function attributes_loop :: "'w ftw_args \<Rightarrow> (nat \<Rightarrow> mft_scan_parameters \<Rightarrow> 'w \<Rightarrow> (mft_scan_parameters \<times> 'w) option) \<Rightarrow>
  u8 list \<Rightarrow> u16 \<Rightarrow> nat \<Rightarrow> mft_scan_parameters \<Rightarrow> 'w \<Rightarrow> (mft_scan_parameters \<times> 'w) option" where
  "attributes_loop args ah m attr_offset a sp w =
     (let (stop, w) = ftw_ntfs_check_for_termination args sp w
      in if stop then Some (sp, w)
         else case attribute_valid m (sp_ml sp) attr_offset a of
           None \<Rightarrow> None
         | Some False \<Rightarrow> Some (sp, w)
         | Some True \<Rightarrow> do {
             (sp, w) \<leftarrow> ah a sp w;
             attr_length \<leftarrow> attr_Length m a;
             attributes_loop args ah m (attr_offset + ucast attr_length) (a + unat attr_length) sp w
           })"
  by pat_completeness auto
termination
  by (relation "measure (\<lambda>(args, ah, m, attr_offset, a, sp, w). length m - a)") (auto intro: attribute_valid_Length)

declare attributes_loop.simps [simp del]

definition enumerate_attributes :: "'w ftw_args \<Rightarrow> (u8 list \<Rightarrow> nat \<Rightarrow> mft_scan_parameters \<Rightarrow> 'w \<Rightarrow> (mft_scan_parameters \<times> 'w) option) \<Rightarrow>
  u8 list \<Rightarrow> mft_scan_parameters \<Rightarrow> 'w \<Rightarrow> (mft_scan_parameters \<times> 'w) option" where
  "enumerate_attributes args ah m sp w = do {
     attr_offset \<leftarrow> frh_AttributeOffset m;
     attributes_loop args (ah m) m attr_offset (unat attr_offset) sp w
   }"

definition default_attribute_names :: "(u32 \<times> wstring) list" where
  "default_attribute_names =
     [(AttributeAttributeList, wstr '':$ATTRIBUTE_LIST''), (AttributeEA, wstr '':$EA''),
      (AttributeEAInformation, wstr '':$EA_INFORMATION''), (AttributeSecurityDescriptor, wstr '':$SECURITY_DESCRIPTOR''),
      (AttributeData, wstr '':$DATA''), (AttributeIndexRoot, wstr '':$INDEX_ROOT''),
      (AttributeIndexAllocation, wstr '':$INDEX_ALLOCATION''), (AttributeBitmap, wstr '':$BITMAP''),
      (AttributeReparsePoint, wstr '':$REPARSE_POINT''), (AttributeLoggedUtulityStream, wstr '':$LOGGED_UTILITY_STREAM'')]"

definition get_default_attribute_name :: "u32 \<Rightarrow> wstring option" where
  "get_default_attribute_name attr_type = map_of default_attribute_names attr_type"

text \<open>The outer option is an access outside the buffer, the inner one \<open>NULL\<close>.\<close>

definition get_attribute_name :: "u8 list \<Rightarrow> nat \<Rightarrow> wstring option option" where
  "get_attribute_name m a = do {
     attr_type \<leftarrow> attr_AttributeType m a;
     (case get_default_attribute_name attr_type of
        None \<Rightarrow> Some None
      | Some default_attr_name \<Rightarrow> do {
          n \<leftarrow> attr_NameLength m a;
          attr_name \<leftarrow> (if n \<noteq> 0 then do { off \<leftarrow> attr_NameOffset m a; rd_wcsn m (a + unat off) (unat n) } else Some []);
          let attr_name = (if attr_name = [] then default_attr_name else attr_name);
          Some (Some (if attr_name \<in> {wstr ''$DATA'', wstr '':$DATA'', wstr ''$I30'', wstr '':$I30'',
                        wstr ''$INDEX_ALLOCATION'', wstr '':$INDEX_ALLOCATION''} then [] else attr_name))
        })
   }"

subsection \<open>The layout of the table\<close>

definition get_number_of_file_records_callback :: "u8 list \<Rightarrow> nat \<Rightarrow> mft_scan_parameters \<Rightarrow> 'w \<Rightarrow> (mft_scan_parameters \<times> 'w) option" where
  "get_number_of_file_records_callback m a sp w = do {
     nonresident \<leftarrow> attr_Nonresident m a;
     attr_type \<leftarrow> attr_AttributeType m a;
     if nonresident \<and> attr_type = AttributeData \<and> file_record_size (sp_ml sp) \<noteq> 0 then do {
       data_size \<leftarrow> nra_DataSize m a;
       Some (sp\<lparr>sp_ml := (sp_ml sp)\<lparr>number_of_file_records := data_size div ucast (file_record_size (sp_ml sp))\<rparr>\<rparr>, w)
     }
     else Some (sp, w)
   }"

definition get_number_of_file_records :: "('w, 'z) nt_io_scheme \<Rightarrow> 'w ftw_args \<Rightarrow> mft_scan_parameters \<Rightarrow> 'w \<Rightarrow>
  (int \<times> mft_scan_parameters \<times> 'w) option" where
  "get_number_of_file_records nt args sp w =
     (let sp = sp\<lparr>sp_ml := (sp_ml sp)\<lparr>number_of_file_records := 0\<rparr>\<rparr>
      in if winx_tmalloc nt (ucast (file_record_buffer_size (sp_ml sp))) w = None then Some (-1, sp, w)
         else
           let ((status, nfrob), w) = get_file_record nt FILE_MFT sp w
           in if \<not> NT_SUCCESS status then Some (-1, sp, w)
              else do {
                frn \<leftarrow> nfrob_FileReferenceNumber nfrob;
                if GetMftIdFromFRN frn \<noteq> FILE_MFT then Some (-1, sp, w)
                else do {
                  let frh = nfrob_FileRecordBuffer nfrob;
                  ok \<leftarrow> is_file_record frh;
                  if \<not> ok then Some (-1, sp, w)
                  else do {
                    flags \<leftarrow> frh_Flags frh;
                    if flags AND 1 = 0 then Some (-1, sp, w)
                    else do {
                      (sp, w) \<leftarrow> enumerate_attributes args get_number_of_file_records_callback frh sp w;
                      Some (if number_of_file_records (sp_ml sp) = 0 then -1 else 0, sp, w)
                    }
                  }
                }
              })"

definition get_mft_layout :: "('w, 'z) nt_io_scheme \<Rightarrow> 'w ftw_args \<Rightarrow> mft_scan_parameters \<Rightarrow> 'w \<Rightarrow>
  (int \<times> mft_scan_parameters \<times> 'w) option" where
  "get_mft_layout nt args sp w =
     (let sp = sp\<lparr>sp_ml := \<lparr>file_record_size = 0, file_record_buffer_size = 0, number_of_file_records = 0, total_clusters = 0,
            cluster_size = 0, sectors_per_cluster = 0, sector_size = 0\<rparr>\<rparr>;
          (result, ntfs_data, _, w) = winx_ioctl nt (Some (sp_f_volume sp)) FSCTL_GET_NTFS_VOLUME_DATA [] sizeof_NTFS_DATA w
      in if result < 0 then Some (-1, sp, w)
         else
           let ml = \<lparr>file_record_size = le32 ntfs_data 48,
                 file_record_buffer_size = sizeof_NTFS_FILE_RECORD_OUTPUT_BUFFER + le32 ntfs_data 48 - 1,
                 number_of_file_records = 0, total_clusters = le64 ntfs_data 16, cluster_size = ucast (le32 ntfs_data 44),
                 sectors_per_cluster = (if le32 ntfs_data 40 = 0 then 0 else le32 ntfs_data 44 div le32 ntfs_data 40),
                 sector_size = le32 ntfs_data 40\<rparr>;
               sp = sp\<lparr>sp_ml := ml\<rparr>
           in if sector_size ml = 0 \<or> file_record_size ml = 0 \<or> cluster_size ml = 0 \<or> sectors_per_cluster ml = 0
              then Some (-1, sp, w)
              else do {
                (result, sp, w) \<leftarrow> get_number_of_file_records nt args sp w;
                Some (if result < 0 then -1 else 0, sp, w)
              })"

end
