(* ===== verification/Ntfs_Runs.thy ===== *)
theory Ntfs_Runs
  imports Ntfs_Record
begin

unbundle bit_operations_syntax

text \<open>
  Model of the scanner of the NTFS master file table, second part: the runs of a nonresident
  attribute. A run is a byte with the sizes of its two numbers, the number of clusters and the signed
  distance from the previous run, both with the lowest byte first; a zero byte ends the list.
\<close>

definition RunLength :: "u8 list \<Rightarrow> nat \<Rightarrow> nat option" where
  "RunLength m run = map_option (\<lambda>b. unat (b AND 0xf) + unat (drop_bit 4 b AND 0xf) + 1) (rd8 m run)"

text \<open>The bytes \<open>run[lo + n]\<close> down to \<open>run[lo + 1]\<close> are shifted into \<open>acc\<close>.\<close>

fun shift_bytes :: "u8 list \<Rightarrow> nat \<Rightarrow> nat \<Rightarrow> u64 \<Rightarrow> u64 option" where
  "shift_bytes m lo 0 acc = Some acc"
| "shift_bytes m lo (Suc n) acc = do { b \<leftarrow> rd8 m (lo + Suc n); shift_bytes m lo n (push_bit 8 acc + ucast b) }"

definition RunLCN :: "u8 list \<Rightarrow> nat \<Rightarrow> u64 option" where
  "RunLCN m run = do {
     b \<leftarrow> rd8 m run;
     let n1 = unat (b AND 0xf);
     let n2 = unat (drop_bit 4 b AND 0xf);
     lcn \<leftarrow> (if n2 = 0 then Some 0 else map_option scast (rd8 m (run + (n1 + n2))));
     shift_bytes m (run + n1) (n2 - 1) lcn
   }"

definition RunCount :: "u8 list \<Rightarrow> nat \<Rightarrow> u64 option" where
  "RunCount m run = do {
     b \<leftarrow> rd8 m run;
     shift_bytes m run (unat (b AND 0xf)) 0
   }"

definition check_run :: "mft_layout \<Rightarrow> u64 \<Rightarrow> u64 \<Rightarrow> bool" where
  "check_run ml lcn len \<longleftrightarrow> lcn < total_clusters ml \<and> lcn + len \<le> total_clusters ml"

definition process_run :: "winx_file_info \<Rightarrow> u64 \<Rightarrow> u64 \<Rightarrow> u64 \<Rightarrow> winx_file_info" where
  "process_run f vcn lcn len = add_block \<lparr>b_vcn = vcn, b_lcn = lcn, b_length = len\<rparr> f"

text \<open>The loop of \<open>process_run_list\<close>.\<close>

function runs_loop :: "mft_layout \<Rightarrow> u8 list \<Rightarrow> nat \<Rightarrow> u64 \<Rightarrow> u64 \<Rightarrow> winx_file_info \<Rightarrow> winx_file_info option" where
  "runs_loop ml m run lcn vcn f = do {
     b \<leftarrow> rd8 m run;
     if b = 0 then Some f
     else do {
       delta \<leftarrow> RunLCN m run;
       len \<leftarrow> RunCount m run;
       if delta \<noteq> 0 \<and> \<not> check_run ml (lcn + delta) len then Some f
       else do {
         n \<leftarrow> RunLength m run;
         runs_loop ml m (run + n) (lcn + delta) (vcn + len) (if delta \<noteq> 0 then process_run f vcn (lcn + delta) len else f)
       }
     }
   }"
  by pat_completeness auto
termination
  by (relation "measure (\<lambda>(ml, m, run, lcn, vcn, f). length m - run)") (auto simp: RunLength_def rd8_def split: if_splits)

declare runs_loop.simps [simp del]

subsection \<open>Encoded runs\<close>

text \<open>
  A run with the sizes of its numbers, its length and its distance, how it is written, and the
  blocks a list of runs stands for. A run without bytes for the distance is virtual; the distance of another
  run may be zero, as that of the first run of a file at cluster 0 is.
\<close>

record ntfs_run =
  len_bytes :: nat
  lcn_bytes :: nat
  run_count :: u64
  run_delta :: u64

definition le_bytes :: "nat \<Rightarrow> u64 \<Rightarrow> u8 list" where
  "le_bytes n x = map (\<lambda>i. ucast (drop_bit (8 * i) x)) [0..<n]"

definition run_header :: "ntfs_run \<Rightarrow> u8" where
  "run_header r = of_nat (len_bytes r + 16 * lcn_bytes r)"

definition encode_run :: "ntfs_run \<Rightarrow> u8 list" where
  "encode_run r = run_header r # le_bytes (len_bytes r) (run_count r) @ le_bytes (lcn_bytes r) (run_delta r)"

definition encodable :: "ntfs_run \<Rightarrow> bool" where
  "encodable r \<longleftrightarrow> 0 < len_bytes r \<and> len_bytes r \<le> 8 \<and> lcn_bytes r \<le> 8 \<and>
     take_bit (8 * len_bytes r) (run_count r) = run_count r \<and>
     (if lcn_bytes r = 0 then run_delta r = 0 else signed_take_bit (8 * lcn_bytes r - 1) (run_delta r) = run_delta r)"

fun run_blocks :: "u64 \<Rightarrow> u64 \<Rightarrow> ntfs_run list \<Rightarrow> winx_blockmap list" where
  "run_blocks lcn vcn [] = []"
| "run_blocks lcn vcn (r # rs) =
     (if lcn_bytes r \<noteq> 0 then [\<lparr>b_vcn = vcn, b_lcn = lcn + run_delta r, b_length = run_count r\<rparr>] else []) @
     run_blocks (lcn + run_delta r) (vcn + run_count r) rs"

text \<open>The decoder takes every run of distance zero as virtual, so that the other runs have to be displaced.\<close>

definition displaced :: "ntfs_run \<Rightarrow> bool" where
  "displaced r \<longleftrightarrow> lcn_bytes r \<noteq> 0 \<longrightarrow> run_delta r \<noteq> 0"

lemma rd8_skip: "rd8 (pre @ m) (length pre + k) = rd8 m k"
  by (simp add: rd8_def nth_append)

lemma byte_of_word: "(ucast (ucast x :: u8) :: u64) = take_bit 8 x"
  by (rule bit_word_eqI) (auto simp: bit_ucast_iff bit_take_bit_iff)

lemma take_bit_byte: "take_bit (8 * Suc n) x = push_bit (8 * n) (take_bit 8 (drop_bit (8 * n) x)) + take_bit (8 * n) (x :: u64)"
proof -
  have "take_bit (8 * Suc n) x = push_bit (8 * n) (drop_bit (8 * n) (take_bit (8 * Suc n) x)) + take_bit (8 * n) (take_bit (8 * Suc n) x)"
    by (rule bits_ident [symmetric])
  then show ?thesis by (simp add: drop_bit_take_bit min_def)
qed

lemma shift_bytes_le:
  assumes "\<forall>i < n. rd8 m (lo + Suc i) = Some (ucast (drop_bit (8 * i) x))"
  shows "shift_bytes m lo n acc = Some (push_bit (8 * n) acc + take_bit (8 * n) x)"
  using assms
proof (induction n arbitrary: acc)
  case (Suc n)
  have "shift_bytes m lo (Suc n) acc = shift_bytes m lo n (push_bit 8 acc + take_bit 8 (drop_bit (8 * n) x))"
    using Suc.prems by (simp add: byte_of_word)
  also have "\<dots> = Some (push_bit (8 * n) (push_bit 8 acc + take_bit 8 (drop_bit (8 * n) x)) + take_bit (8 * n) x)"
    by (rule Suc.IH) (use Suc.prems in auto)
  also have "\<dots> = Some (push_bit (8 * Suc n) acc + take_bit (8 * Suc n) x)"
    unfolding take_bit_byte push_bit_add by (simp add: ac_simps)
  finally show ?case .
qed simp

lemma signed_bytes:
  assumes "0 < n" "n \<le> 8" "signed_take_bit (8 * n - 1) x = x"
  shows "push_bit (8 * (n - 1)) (scast (ucast (drop_bit (8 * (n - 1)) x) :: u8)) + take_bit (8 * (n - 1)) x = (x :: u64)"
proof -
  have top: "bit x i = bit x (8 * n - 1)" if "8 * n - 1 \<le> i" "i < 64" for i
    using arg_cong [OF assms(3), of "\<lambda>y. bit y i"] that by (simp add: bit_signed_take_bit_iff min_def)
  have sign: "8 * (n - 1) + 7 = 8 * n - 1" using assms(1) by simp
  show ?thesis
  proof (subst disjunctive_add)
    show "push_bit (8 * (n - 1)) (scast (ucast (drop_bit (8 * (n - 1)) x) :: u8)) OR take_bit (8 * (n - 1)) x = x"
    proof (rule bit_word_eqI)
      fix i assume i: "i < LENGTH(64)"
      show "bit (push_bit (8 * (n - 1)) (scast (ucast (drop_bit (8 * (n - 1)) x) :: u8)) OR take_bit (8 * (n - 1)) x) i = bit x i"
        using i assms(1,2) top [of i] sign
        by (auto simp: bit_or_iff bit_push_bit_iff bit_take_bit_iff bit_signed_iff bit_unsigned_iff bit_drop_bit_eq min_def)
    qed
  qed (auto simp: bit_push_bit_iff bit_take_bit_iff)
qed

lemma header_byte:
  assumes "encodable r"
  shows "run_header r \<noteq> 0" "unat (run_header r AND 0xf) = len_bytes r" "unat (drop_bit 4 (run_header r) AND 0xf) = lcn_bytes r"
proof -
  have e: "0 < len_bytes r" "len_bytes r \<le> 8" "lcn_bytes r \<le> 8" using assms by (simp_all add: encodable_def)
  have u: "unat (run_header r) = len_bytes r + 16 * lcn_bytes r"
    unfolding run_header_def by (subst unat_of_nat) (use e in simp)
  then show "run_header r \<noteq> 0" using e by (auto simp: word_unat_eq_iff)
  have "run_header r AND 0xf = take_bit 4 (run_header r)" by (simp add: take_bit_eq_mask mask_eq_exp_minus_1)
  then show "unat (run_header r AND 0xf) = len_bytes r" using u e by (simp add: take_bit_eq_mod unat_mod)
  have "drop_bit 4 (run_header r) AND 0xf = take_bit 4 (drop_bit 4 (run_header r))"
    by (simp add: take_bit_eq_mask mask_eq_exp_minus_1)
  then show "unat (drop_bit 4 (run_header r) AND 0xf) = lcn_bytes r"
    using u e by (simp add: take_bit_eq_mod drop_bit_eq_div unat_mod unat_div)
qed

lemma length_encode_run: "length (encode_run r) = Suc (len_bytes r + lcn_bytes r)"
  by (simp add: encode_run_def le_bytes_def)

lemma nth_le_bytes: "i < n \<Longrightarrow> le_bytes n x ! i = ucast (drop_bit (8 * i) x)"
  by (simp add: le_bytes_def)

lemma rd8_encoded:
  "rd8 (encode_run r @ post) 0 = Some (run_header r)"
  "i < len_bytes r \<Longrightarrow> rd8 (encode_run r @ post) (Suc i) = Some (ucast (drop_bit (8 * i) (run_count r)))"
  "i < lcn_bytes r \<Longrightarrow> rd8 (encode_run r @ post) (len_bytes r + Suc i) = Some (ucast (drop_bit (8 * i) (run_delta r)))"
  by (auto simp: rd8_def encode_run_def nth_append nth_Cons nth_le_bytes le_bytes_def split: nat.split)

lemma decode_run:
  assumes "encodable r"
  shows "rd8 (pre @ encode_run r @ post) (length pre) = Some (run_header r)"
    "RunCount (pre @ encode_run r @ post) (length pre) = Some (run_count r)"
    "RunLCN (pre @ encode_run r @ post) (length pre) = Some (run_delta r)"
    "RunLength (pre @ encode_run r @ post) (length pre) = Some (length (encode_run r))"
proof -
  let ?m = "pre @ encode_run r @ post" and ?n1 = "len_bytes r" and ?n2 = "lcn_bytes r"
  have e: "0 < ?n1" "?n1 \<le> 8" "?n2 \<le> 8" "take_bit (8 * ?n1) (run_count r) = run_count r"
      "if ?n2 = 0 then run_delta r = 0 else signed_take_bit (8 * ?n2 - 1) (run_delta r) = run_delta r"
    using assms by (auto simp: encodable_def)
  show h: "rd8 ?m (length pre) = Some (run_header r)"
    using rd8_skip [of pre "encode_run r @ post" 0] rd8_encoded(1) by simp
  have c: "rd8 ?m (length pre + Suc i) = Some (ucast (drop_bit (8 * i) (run_count r)))" if "i < ?n1" for i
    using rd8_skip [of pre "encode_run r @ post" "Suc i"] rd8_encoded(2) [OF that] by simp
  have d: "rd8 ?m (length pre + ?n1 + Suc i) = Some (ucast (drop_bit (8 * i) (run_delta r)))" if "i < ?n2" for i
    using rd8_skip [of pre "encode_run r @ post" "?n1 + Suc i"] rd8_encoded(3) [OF that] by (simp add: add.assoc)
  note b = header_byte(2,3) [OF assms]
  show "RunCount ?m (length pre) = Some (run_count r)"
    using shift_bytes_le [of ?n1 ?m "length pre" "run_count r" 0] c e(4) by (simp add: RunCount_def h b)
  show "RunLength ?m (length pre) = Some (length (encode_run r))" by (simp add: RunLength_def h b length_encode_run)
  show "RunLCN ?m (length pre) = Some (run_delta r)"
  proof (cases "?n2 = 0")
    case False
    then have s: "rd8 ?m (length pre + (?n1 + ?n2)) = Some (ucast (drop_bit (8 * (?n2 - 1)) (run_delta r)))"
      using d [of "?n2 - 1"] by (simp add: add.assoc)
    have "shift_bytes ?m (length pre + ?n1) (?n2 - 1) (scast (ucast (drop_bit (8 * (?n2 - 1)) (run_delta r)) :: u8)) = Some (run_delta r)"
      using shift_bytes_le [of "?n2 - 1" ?m "length pre + ?n1" "run_delta r"] d False signed_bytes [of ?n2 "run_delta r"] e(3,5)
      by simp
    then show ?thesis using False s by (simp add: RunLCN_def h b)
  qed (use e(5) in \<open>simp add: RunLCN_def h b\<close>)
qed

lemma runs_loop_decodes:
  assumes "list_all encodable rs" "list_all displaced rs" "\<forall>b \<in> set (run_blocks lcn vcn rs). check_run ml (b_lcn b) (b_length b)"
  shows "runs_loop ml (pre @ concat (map encode_run rs) @ 0 # post) (length pre) lcn vcn f = Some (fold add_block (run_blocks lcn vcn rs) f)"
  using assms
proof (induction rs arbitrary: pre lcn vcn f)
  case Nil
  then show ?case by (subst runs_loop.simps) (simp add: rd8_def)
next
  case (Cons r rs)
  let ?rest = "concat (map encode_run rs) @ 0 # post"
  let ?m = "pre @ encode_run r @ ?rest"
  have e: "encodable r" "list_all encodable rs" "displaced r" "list_all displaced rs" using Cons.prems(1,2) by simp_all
  have v: "lcn_bytes r \<noteq> 0 \<longleftrightarrow> run_delta r \<noteq> 0" using e(1,3) by (auto simp: encodable_def displaced_def split: if_splits)
  note d = decode_run [OF e(1), of pre ?rest]
  have ok: "run_delta r \<noteq> 0 \<Longrightarrow> check_run ml (lcn + run_delta r) (run_count r)" using Cons.prems(3) v by simp
  have "runs_loop ml ?m (length pre) lcn vcn f =
      runs_loop ml ?m (length pre + length (encode_run r)) (lcn + run_delta r) (vcn + run_count r)
        (if run_delta r \<noteq> 0 then process_run f vcn (lcn + run_delta r) (run_count r) else f)"
    using ok by (subst runs_loop.simps) (auto simp: d header_byte(1) [OF e(1)])
  also have "\<dots> = Some (fold add_block (run_blocks (lcn + run_delta r) (vcn + run_count r) rs)
        (if run_delta r \<noteq> 0 then process_run f vcn (lcn + run_delta r) (run_count r) else f))"
    using Cons.IH [OF e(2,4), of "lcn + run_delta r" "vcn + run_count r" "pre @ encode_run r"] Cons.prems(3) by simp
  finally show ?case using v by (cases "run_delta r = 0") (simp_all add: process_run_def)
qed

text \<open>
  C11: decoding a written list of runs, wherever it lies in the record, ends and gives the file
  exactly the blocks the runs stand for, in order, with positive and negative distances, if no run but the virtual
  ones has distance zero and every block passes \<open>check_run\<close>; virtual runs only advance the virtual cluster number.
\<close>

theorem run_list_roundtrip:
  assumes "list_all encodable rs" "list_all displaced rs" "\<forall>b \<in> set (run_blocks lcn vcn rs). check_run ml (b_lcn b) (b_length b)"
  shows "\<exists>f'. runs_loop ml (pre @ concat (map encode_run rs) @ 0 # post) (length pre) lcn vcn f = Some f' \<and>
    f_blockmap f' = f_blockmap f @ run_blocks lcn vcn rs"
  using runs_loop_decodes [OF assms] by (simp add: fold_add_block(1))

theorem run_list_roundtrip_witness:
  "\<exists>f'. runs_loop \<lparr>file_record_size = 1024, file_record_buffer_size = 1039, number_of_file_records = 16, total_clusters = 5000,
        cluster_size = 4096, sectors_per_cluster = 8, sector_size = 512\<rparr>
      ([7] @ [0x21, 0x18, 0x34, 0x02, 0x01, 0x20, 0x11, 0x08, 0xF0] @ 0 # [9]) (length [7 :: u8]) 0 0 demo_info = Some f' \<and>
    f_blockmap f' = [\<lparr>b_vcn = 0, b_lcn = 0x234, b_length = 0x18\<rparr>, \<lparr>b_vcn = 0x38, b_lcn = 0x224, b_length = 8\<rparr>]"
    (is "\<exists>f'. runs_loop ?ml _ _ _ _ _ = _ \<and> _")
proof -
  let ?rs = "[\<lparr>len_bytes = 1, lcn_bytes = 2, run_count = 0x18, run_delta = 0x234\<rparr>, \<lparr>len_bytes = 1, lcn_bytes = 0, run_count = 0x20, run_delta = 0\<rparr>,
    \<lparr>len_bytes = 1, lcn_bytes = 1, run_count = 8, run_delta = - 16\<rparr>]"
  have e: "list_all encodable ?rs" by (simp add: encodable_def signed_take_bit_eq_take_bit_shift)
  have d: "list_all displaced ?rs" by (simp add: displaced_def)
  have b: "run_blocks 0 0 ?rs = [\<lparr>b_vcn = 0, b_lcn = 0x234, b_length = 0x18\<rparr>, \<lparr>b_vcn = 0x38, b_lcn = 0x224, b_length = 8\<rparr>]" by simp
  have w: "concat (map encode_run ?rs) = [0x21, 0x18, 0x34, 0x02, 0x01, 0x20, 0x11, 0x08, 0xF0]"
    by (simp add: encode_run_def run_header_def le_bytes_def upt_rec)
  have "\<forall>b \<in> set (run_blocks 0 0 ?rs). check_run ?ml (b_lcn b) (b_length b)" unfolding b by (simp add: check_run_def)
  from run_list_roundtrip [OF e d this, of "[7]" "[9]" demo_info] show ?thesis
    unfolding w b by (simp add: demo_info_def)
qed

text \<open>
  A first run of 16 clusters at cluster 0, the place of \<open>$Boot\<close>, is left out of the map.
\<close>

lemma boot_run_dropped:
  "run_blocks 0 0 [\<lparr>len_bytes = 1, lcn_bytes = 1, run_count = 16, run_delta = 0\<rparr>] = [\<lparr>b_vcn = 0, b_lcn = 0, b_length = 16\<rparr>]"
  "encode_run \<lparr>len_bytes = 1, lcn_bytes = 1, run_count = 16, run_delta = 0\<rparr> = [0x11, 0x10, 0x00]"
  "runs_loop ml [0x11, 0x10, 0x00, 0] 0 0 0 f = Some f"
proof -
  let ?r = "\<lparr>len_bytes = 1, lcn_bytes = 1, run_count = 16, run_delta = 0\<rparr> :: ntfs_run"
  show w: "encode_run ?r = [0x11, 0x10, 0x00]"
    by (simp add: encode_run_def run_header_def le_bytes_def upt_rec)
  have e: "encodable ?r" by (simp add: encodable_def)
  note d = decode_run [OF e, of "[]" "[0]", unfolded w, simplified]
  show "runs_loop ml [0x11, 0x10, 0x00, 0] 0 0 0 f = Some f"
    by (subst runs_loop.simps, simp add: d rd8_def, subst runs_loop.simps, simp add: rd8_def)
qed simp

text \<open>
  Whatever the bytes are, every block that is added has passed \<open>check_run\<close>.
\<close>

lemma runs_loop_checked:
  "runs_loop ml m run lcn vcn f = Some f' \<Longrightarrow>
     \<exists>bs. f' = fold add_block bs f \<and> list_all (\<lambda>b. check_run ml (b_lcn b) (b_length b)) bs"
proof (induction ml m run lcn vcn f rule: runs_loop.induct)
  case (1 ml m run lcn vcn f)
  obtain b where b: "rd8 m run = Some b" using "1.prems" by (subst (asm) runs_loop.simps) (auto split: bind_splits)
  show ?case
  proof (cases "b = 0")
    case True
    then have "f' = f" using "1.prems" b by (subst (asm) runs_loop.simps) simp
    then show ?thesis by (intro exI [of _ "[]"]) simp
  next
    case False
    then obtain delta len where d: "RunLCN m run = Some delta" "RunCount m run = Some len"
      using "1.prems" b by (subst (asm) runs_loop.simps) (auto split: bind_splits)
    show ?thesis
    proof (cases "delta \<noteq> 0 \<and> \<not> check_run ml (lcn + delta) len")
      case True
      then have "f' = f" using "1.prems" b False d by (subst (asm) runs_loop.simps) simp
      then show ?thesis by (intro exI [of _ "[]"]) simp
    next
      case ok: False
      obtain n where n: "RunLength m run = Some n" using b by (auto simp: RunLength_def)
      let ?f = "if delta \<noteq> 0 then process_run f vcn (lcn + delta) len else f"
      have "runs_loop ml m (run + n) (lcn + delta) (vcn + len) ?f = Some f'"
        using "1.prems" b False d n unfolding runs_loop.simps [of ml m run lcn vcn f] by (simp only: bind.simps if_not_P [OF ok] if_False)
      then obtain bs where bs: "f' = fold add_block bs ?f" "list_all (\<lambda>b. check_run ml (b_lcn b) (b_length b)) bs"
        using "1.IH" [OF b False d ok n] by blast
      show ?thesis
        by (rule exI [of _ "(if delta \<noteq> 0 then [\<lparr>b_vcn = vcn, b_lcn = lcn + delta, b_length = len\<rparr>] else []) @ bs"])
          (use bs ok in \<open>auto simp: process_run_def\<close>)
    qed
  qed
qed

text \<open>
  C34: whatever the bytes of a record are, decoding its runs ends, and every block that it adds to a
  file starts inside the volume, and lies inside it unless its end overflows 64 bits.
\<close>

theorem run_blocks_inside_volume:
  assumes "runs_loop ml m run lcn vcn f = Some f'"
  shows "\<exists>bs. f_blockmap f' = f_blockmap f @ bs \<and>
    list_all (\<lambda>b. b_lcn b < total_clusters ml \<and>
      (unat (b_lcn b) + unat (b_length b) < 2 ^ 64 \<longrightarrow> extent (b_lcn b) (b_length b) \<subseteq> {..<unat (total_clusters ml)})) bs"
proof -
  obtain bs where bs: "f' = fold add_block bs f" "list_all (\<lambda>b. check_run ml (b_lcn b) (b_length b)) bs"
    using runs_loop_checked [OF assms] by blast
  have "b_lcn b < total_clusters ml \<and>
      (unat (b_lcn b) + unat (b_length b) < 2 ^ 64 \<longrightarrow> extent (b_lcn b) (b_length b) \<subseteq> {..<unat (total_clusters ml)})"
    if "check_run ml (b_lcn b) (b_length b)" for b
    using that by (auto simp: check_run_def in_extent word_le_nat_alt unat_add_nowrap)
  then show ?thesis using bs by (intro exI [of _ bs]) (auto simp: fold_add_block(1) list_all_iff)
qed

text \<open>
  C38: the sum in \<open>check_run\<close> overflows: on a volume of 100 clusters a run of nearly \<open>2 ^ 64\<close> clusters
  is accepted.
\<close>

theorem run_check_overflows:
  "\<exists>f'. runs_loop \<lparr>file_record_size = 1024, file_record_buffer_size = 1039, number_of_file_records = 16, total_clusters = 100,
        cluster_size = 4096, sectors_per_cluster = 8, sector_size = 512\<rparr>
      [0x18, 0xCE, 0xFF, 0xFF, 0xFF, 0xFF, 0xFF, 0xFF, 0xFF, 0x32, 0] 0 0 0 demo_info = Some f' \<and>
    f_blockmap f' = [\<lparr>b_vcn = 0, b_lcn = 50, b_length = - 50\<rparr>]"
    (is "\<exists>f'. runs_loop ?ml _ _ _ _ _ = _ \<and> _")
proof -
  let ?r = "\<lparr>len_bytes = 8, lcn_bytes = 1, run_count = - 50, run_delta = 50\<rparr>"
  have e: "list_all encodable [?r]" "list_all displaced [?r]"
    by (simp_all add: encodable_def displaced_def signed_take_bit_eq_take_bit_shift)
  have w: "concat (map encode_run [?r]) = [0x18, 0xCE, 0xFF, 0xFF, 0xFF, 0xFF, 0xFF, 0xFF, 0xFF, 0x32]"
    by (simp add: encode_run_def run_header_def le_bytes_def upt_rec)
  have "\<forall>b \<in> set (run_blocks 0 0 [?r]). check_run ?ml (b_lcn b) (b_length b)" by (simp add: check_run_def)
  from runs_loop_decodes [OF e this, of "[]" "[]" demo_info] show ?thesis
    unfolding w by (simp add: demo_info_def add_block_def Let_def)
qed

theorem run_blocks_inside_volume_witness:
  "\<exists>f' bs. runs_loop \<lparr>file_record_size = 1024, file_record_buffer_size = 1039, number_of_file_records = 16, total_clusters = 100,
        cluster_size = 4096, sectors_per_cluster = 8, sector_size = 512\<rparr>
      [0x11, 0x05, 0x32, 0] 0 0 0 demo_info = Some f' \<and> f_blockmap f' = bs \<and> list_all (\<lambda>b. b_lcn b < 100) bs"
    (is "\<exists>f' bs. runs_loop ?ml ?m _ _ _ _ = _ \<and> _")
proof -
  let ?r = "\<lparr>len_bytes = 1, lcn_bytes = 1, run_count = 5, run_delta = 50\<rparr>"
  have e: "list_all encodable [?r]" "list_all displaced [?r]"
    by (simp_all add: encodable_def displaced_def signed_take_bit_eq_take_bit_shift)
  have w: "concat (map encode_run [?r]) = [0x11, 0x05, 0x32]"
    by (simp add: encode_run_def run_header_def le_bytes_def upt_rec)
  have "\<forall>b \<in> set (run_blocks 0 0 [?r]). check_run ?ml (b_lcn b) (b_length b)" by (simp add: check_run_def)
  from runs_loop_decodes [OF e this, of "[]" "[]" demo_info] obtain f' where f: "runs_loop ?ml ?m 0 0 0 demo_info = Some f'"
    unfolding w by simp
  show ?thesis using run_blocks_inside_volume [OF f] f by (auto simp: demo_info_def list_all_iff)
qed

end
