(* ===== verification/Ntfs_Streams.thy ===== *)
theory Ntfs_Streams
  imports Ntfs_Runs
begin

unbundle bit_operations_syntax

text \<open>
  Model of the scanner of the NTFS master file table, third part: the streams of a file. Resident
  streams, nonresident streams and lists of attributes call each other; the definitions below take the
  analysis of the streams found by way of a list of attributes as an argument, and
  \<open>analyze_attribute\<close> closes the circle, with a bound for the depth of the calls. \<open>None\<close> is an access
  outside a buffer or a stack overflow. Reading a reparse tag or a volume version only to trace
  them is left out.
\<close>

type_synonym 'w analysis = "u8 list \<Rightarrow> nat \<Rightarrow> mft_scan_parameters \<Rightarrow> 'w \<Rightarrow> (mft_scan_parameters \<times> 'w) option"

definition FILE_ATTRIBUTE_COMPRESSED :: u32 where "FILE_ATTRIBUTE_COMPRESSED = 0x800"

abbreviation mft_base :: "winx_file_info \<Rightarrow> u64" where
  "mft_base f \<equiv> BaseMftId (f_internal f)"

subsection \<open>Entries of the list of files\<close>

text \<open>In the direction of the scan, the entries of other files follow those of the current one.\<close>

definition behind_current :: "mft_scan_parameters \<Rightarrow> winx_file_info \<Rightarrow> bool" where
  "behind_current sp f \<longleftrightarrow>
     (case sp_direction sp of
        MFT_SCAN_RTL \<Rightarrow> mft_base f > mfi_BaseMftId (sp_mfi sp)
      | MFT_SCAN_LTR \<Rightarrow> mft_base f < mfi_BaseMftId (sp_mfi sp))"

fun find_entry :: "mft_scan_parameters \<Rightarrow> wstring \<Rightarrow> winx_file_info list \<Rightarrow> nat option" where
  "find_entry sp attr_name [] = None"
| "find_entry sp attr_name (f # fs) =
     (if behind_current sp f then None
      else if f_name f = Some attr_name \<and> mft_base f = mfi_BaseMftId (sp_mfi sp) then Some 0
      else map_option Suc (find_entry sp attr_name fs))"

text \<open>The position of the entry; a new one is the first.\<close>

definition find_filelist_entry :: "('w, 'z) nt_io_scheme \<Rightarrow> wstring \<Rightarrow> mft_scan_parameters \<Rightarrow> 'w \<Rightarrow> nat option \<times> mft_scan_parameters" where
  "find_filelist_entry nt attr_name sp w =
     (case find_entry sp attr_name (sp_filelist sp) of
        Some i \<Rightarrow> (Some i, sp)
      | None \<Rightarrow>
          (case winx_wcsdup (\<lambda>n. winx_tmalloc nt (of_nat n) w \<noteq> None) (Some attr_name) of
             None \<Rightarrow> (None, more_errors sp)
           | Some name \<Rightarrow>
               (Some 0, sp\<lparr>sp_filelist := \<lparr>f_name = Some name, f_path = None, f_flags = 0, f_disp = zero_disp, f_user_defined_flags = 0,
                  f_internal = \<lparr>BaseMftId = mfi_BaseMftId (sp_mfi sp), ParentDirectoryMftId = FILE_root\<rparr>,
                  f_creation_time = 0, f_last_modification_time = 0, f_last_access_time = 0\<rparr> # sp_filelist sp\<rparr>)))"

definition update_entry :: "nat \<Rightarrow> (winx_file_info \<Rightarrow> winx_file_info) \<Rightarrow> mft_scan_parameters \<Rightarrow> mft_scan_parameters" where
  "update_entry i g sp = sp\<lparr>sp_filelist := (sp_filelist sp)[i := g (sp_filelist sp ! i)]\<rparr>"

subsection \<open>Lists of attributes\<close>

text \<open>\<open>memcmp\<close> of the wide characters at \<open>p\<close> with a string.\<close>

definition same_wchars :: "u8 list \<Rightarrow> nat \<Rightarrow> wstring \<Rightarrow> bool option" where
  "same_wchars m p s = (if p + 2 * length s \<le> length m then Some (le_wchars m p (length s) = s) else None)"

text \<open>
  Whether the attribute at \<open>a\<close> is the one looked for; \<open>name\<close> is the pointer to the name found last, which
  is not reset from one attribute to the next.
\<close>

definition attribute_found :: "u8 list \<Rightarrow> nat \<Rightarrow> wstring option \<Rightarrow> u16 \<Rightarrow> nat option \<Rightarrow> bool option" where
  "attribute_found m a attr_name attr_number name =
     (case attr_name of
        None \<Rightarrow> if name = None then map_option (\<lambda>n. n = attr_number) (attr_AttributeNumber m a) else Some False
      | Some s \<Rightarrow>
          (case name of
             None \<Rightarrow> Some False
           | Some p \<Rightarrow> do {
               name_length \<leftarrow> attr_NameLength m a;
               if length s \<noteq> unat name_length then Some False
               else do {
                 same \<leftarrow> same_wchars m p s;
                 if same then map_option (\<lambda>n. n = attr_number) (attr_AttributeNumber m a) else Some False
               }
             }))"

definition attribute_name_at :: "u8 list \<Rightarrow> nat \<Rightarrow> nat option \<Rightarrow> nat option option" where
  "attribute_name_at m a name = do {
     off \<leftarrow> attr_NameOffset m a;
     n \<leftarrow> attr_NameLength m a;
     if off \<noteq> 0 \<and> n \<noteq> 0 then do {
       c \<leftarrow> rd16 m (a + unat off);
       Some (if c = 0 then None else Some (a + unat off))
     }
     else Some name
   }"

function single_loop :: "'w ftw_args \<Rightarrow> 'w analysis \<Rightarrow> u8 list \<Rightarrow> u32 \<Rightarrow> wstring option \<Rightarrow> u16 \<Rightarrow> u16 \<Rightarrow> nat \<Rightarrow> nat option \<Rightarrow>
  mft_scan_parameters \<Rightarrow> 'w \<Rightarrow> (mft_scan_parameters \<times> 'w) option" where
  "single_loop args stream m attr_type attr_name attr_number attr_offset a name sp w =
     (let (stop, w) = ftw_ntfs_check_for_termination args sp w
      in if stop then Some (sp, w)
         else case attribute_valid m (sp_ml sp) attr_offset a of
           None \<Rightarrow> None
         | Some False \<Rightarrow> Some (sp, w)
         | Some True \<Rightarrow> do {
             ty \<leftarrow> attr_AttributeType m a;
             name \<leftarrow> (if ty = attr_type then attribute_name_at m a name else Some name);
             found \<leftarrow> (if ty = attr_type then attribute_found m a attr_name attr_number name else Some False);
             if found then do {
               (sp, w) \<leftarrow> stream m a sp w;
               Some (sp\<lparr>sp_processed_attr_list_entries := sp_processed_attr_list_entries sp + 1\<rparr>, w)
             }
             else do {
               attr_length \<leftarrow> attr_Length m a;
               single_loop args stream m attr_type attr_name attr_number (attr_offset + ucast attr_length) (a + unat attr_length) name sp w
             }
           })"
  by pat_completeness auto
termination
  by (relation "measure (\<lambda>(args, stream, m, attr_type, attr_name, attr_number, attr_offset, a, name, sp, w). length m - a)")
    (auto intro: attribute_valid_Length)

declare single_loop.simps [simp del]

definition analyze_single_attribute :: "'w ftw_args \<Rightarrow> 'w analysis \<Rightarrow> u8 list \<Rightarrow> u32 \<Rightarrow> wstring option \<Rightarrow> u16 \<Rightarrow>
  mft_scan_parameters \<Rightarrow> 'w \<Rightarrow> (mft_scan_parameters \<times> 'w) option" where
  "analyze_single_attribute args stream m attr_type attr_name attr_number sp w = do {
     attr_offset \<leftarrow> frh_AttributeOffset m;
     single_loop args stream m attr_type attr_name attr_number attr_offset (unat attr_offset) None sp w
   }"

definition analyze_attribute_from_mft_record :: "('w, 'z) nt_io_scheme \<Rightarrow> 'w ftw_args \<Rightarrow> 'w analysis \<Rightarrow> u64 \<Rightarrow> u32 \<Rightarrow> wstring option \<Rightarrow> u16 \<Rightarrow>
  mft_scan_parameters \<Rightarrow> 'w \<Rightarrow> (mft_scan_parameters \<times> 'w) option" where
  "analyze_attribute_from_mft_record nt args stream mft_id attr_type attr_name attr_number sp w =
     (if mft_id = mfi_BaseMftId (sp_mfi sp) then Some (sp, w)
      else if winx_tmalloc nt (ucast (file_record_buffer_size (sp_ml sp))) w = None then Some (more_errors sp, w)
      else
        let ((status, nfrob), w) = get_file_record nt mft_id sp w
        in if \<not> NT_SUCCESS status then Some (sp, w)
           else do {
             frn \<leftarrow> nfrob_FileReferenceNumber nfrob;
             if GetMftIdFromFRN frn \<noteq> mft_id then Some (sp, w)
             else do {
               let frh = nfrob_FileRecordBuffer nfrob;
               ok \<leftarrow> is_file_record frh;
               if \<not> ok then Some (sp, w)
               else do {
                 flags \<leftarrow> frh_Flags frh;
                 if flags AND 1 = 0 then Some (sp, w)
                 else do {
                   base \<leftarrow> frh_BaseFileRecord frh;
                   if base = 0 then Some (sp, w)
                   else analyze_single_attribute args stream frh attr_type attr_name attr_number sp w
                 }
               }
             }
           })"

text \<open>An \<open>ATTRIBUTE_LIST\<close> entry has its name's length and offset at 6 and 7, the record at 16 and the number at 24.\<close>

definition analyze_attribute_from_attribute_list :: "('w, 'z) nt_io_scheme \<Rightarrow> 'w ftw_args \<Rightarrow> 'w analysis \<Rightarrow> u8 list \<Rightarrow> nat \<Rightarrow>
  mft_scan_parameters \<Rightarrow> 'w \<Rightarrow> (mft_scan_parameters \<times> 'w) option" where
  "analyze_attribute_from_attribute_list nt args stream m e sp w = do {
     len \<leftarrow> rd8 m (e + 6);
     off \<leftarrow> rd8 m (e + 7);
     attr_name \<leftarrow> (if len = 0 \<or> off = 0 then Some None
                  else do {
                    c \<leftarrow> rd16 m (e + unat off);
                    if c = 0 then Some None else map_option Some (rd_wcsn m (e + unat off) (unat len))
                  });
     attr_type \<leftarrow> rd32 m e;
     frn \<leftarrow> rd64 m (e + 16);
     attr_number \<leftarrow> rd16 m (e + 24);
     analyze_attribute_from_mft_record nt args stream (GetMftIdFromFRN frn) attr_type attr_name attr_number sp w
   }"

definition sizeof_ATTRIBUTE_LIST :: nat where "sizeof_ATTRIBUTE_LIST = 32"

text \<open>The loop over the entries from \<open>e\<close> up to \<open>limit\<close>, the same for resident and nonresident lists.\<close>

function attribute_list_loop :: "('w, 'z) nt_io_scheme \<Rightarrow> 'w ftw_args \<Rightarrow> 'w analysis \<Rightarrow> u8 list \<Rightarrow> nat \<Rightarrow> nat \<Rightarrow>
  mft_scan_parameters \<Rightarrow> 'w \<Rightarrow> (mft_scan_parameters \<times> 'w) option" where
  "attribute_list_loop nt args stream m e limit sp w =
     (let (stop, w) = ftw_ntfs_check_for_termination args sp w
      in if stop \<or> e + sizeof_ATTRIBUTE_LIST - 6 > limit then Some (sp, w)
         else do {
           ty \<leftarrow> rd32 m e;
           if ty = 0xffffffff \<or> ty = 0 then Some (sp, w)
           else do {
             len \<leftarrow> rd16 m (e + 4);
             if len = 0 then Some (sp, w)
             else do {
               (sp, w) \<leftarrow> analyze_attribute_from_attribute_list nt args stream m e sp w;
               attribute_list_loop nt args stream m (e + unat len) limit sp w
             }
           }
         })"
  by pat_completeness auto
termination
  by (relation "measure (\<lambda>(nt, args, stream, m, e, limit, sp, w). length m - e)")
    (auto simp: rd16_def word_unat_eq_iff split: if_splits)

declare attribute_list_loop.simps [simp del]

definition analyze_resident_attribute_list :: "('w, 'z) nt_io_scheme \<Rightarrow> 'w ftw_args \<Rightarrow> 'w analysis \<Rightarrow> 'w analysis" where
  "analyze_resident_attribute_list nt args stream m a sp w = do {
     off \<leftarrow> ra_ValueOffset m a;
     len \<leftarrow> ra_ValueLength m a;
     attribute_list_loop nt args stream m (a + unat off) (a + unat off + unat len) sp w
   }"

subsection \<open>Resident streams\<close>

definition get_file_flags :: "u8 list \<Rightarrow> nat \<Rightarrow> mft_scan_parameters \<Rightarrow> mft_scan_parameters option" where
  "get_file_flags m a sp = do {
     off \<leftarrow> ra_ValueOffset m a;
     len \<leftarrow> ra_ValueLength m a;
     if len < 48 then Some sp
     else do {
       attributes \<leftarrow> rd32 m (a + unat off + 32);
       Some (sp\<lparr>sp_mfi := (sp_mfi sp)\<lparr>mfi_Flags := mfi_Flags (sp_mfi sp) OR attributes\<rparr>\<rparr>)
     }
   }"

definition get_file_access_times :: "u8 list \<Rightarrow> nat \<Rightarrow> mft_scan_parameters \<Rightarrow> mft_scan_parameters option" where
  "get_file_access_times m a sp = do {
     off \<leftarrow> ra_ValueOffset m a;
     len \<leftarrow> ra_ValueLength m a;
     if len < 48 then Some sp
     else do {
       creation \<leftarrow> rd64 m (a + unat off);
       write \<leftarrow> rd64 m (a + unat off + 16);
       access \<leftarrow> rd64 m (a + unat off + 24);
       Some (sp\<lparr>sp_mfi := (sp_mfi sp)\<lparr>mfi_CreationTime := creation, mfi_LastWriteTime := write, mfi_LastAccessTime := access\<rparr>\<rparr>)
     }
   }"

definition FILENAME_POSIX :: u8 where "FILENAME_POSIX = 0"
definition FILENAME_WIN32 :: u8 where "FILENAME_WIN32 = 1"
definition FILENAME_DOS :: u8 where "FILENAME_DOS = 2"
definition sizeof_FILENAME_ATTRIBUTE :: nat where "sizeof_FILENAME_ATTRIBUTE = 68"

text \<open>
  A \<open>FILENAME_ATTRIBUTE\<close> has the length of the name at 64, its type at 65 and the name at 66. The length
  has 8 bits, so the name fits into \<open>MAX_PATH\<close>.
\<close>

definition update_file_name :: "u8 list \<Rightarrow> nat \<Rightarrow> mft_scan_parameters \<Rightarrow> mft_scan_parameters option" where
  "update_file_name m a sp = do {
     off \<leftarrow> ra_ValueOffset m a;
     len \<leftarrow> ra_ValueLength m a;
     let fn = a + unat off;
     if unat len < sizeof_FILENAME_ATTRIBUTE then Some sp
     else do {
       name_length \<leftarrow> rd8 m (fn + 64);
       if name_length = 0 then Some sp
       else do {
         c \<leftarrow> rd16 m (fn + 66);
         if c = 0 then Some sp
         else do {
           frn \<leftarrow> rd64 m fn;
           let parent_mft_id = GetMftIdFromFRN frn;
           let base = mfi_BaseMftId (sp_mfi sp);
           if parent_mft_id = base \<and> base \<noteq> FILE_root then Some sp
           else do {
             let mfi = (sp_mfi sp)\<lparr>mfi_ParentDirectoryMftId := parent_mft_id\<rparr>;
             name_type \<leftarrow> rd8 m (fn + 65);
             if mfi_Name mfi = [] \<or> mfi_NameType mfi = FILENAME_DOS \<or>
                mfi_NameType mfi = FILENAME_WIN32 \<and> name_type = FILENAME_POSIX
             then do {
               name \<leftarrow> rd_wcsn m (fn + 66) (unat name_length);
               Some (sp\<lparr>sp_mfi := mfi\<lparr>mfi_NameType := name_type, mfi_Name := name\<rparr>\<rparr>)
             }
             else Some (sp\<lparr>sp_mfi := mfi\<rparr>)
           }
         }
       }
     }
   }"

definition handle_reparse_point :: "mft_scan_parameters \<Rightarrow> mft_scan_parameters" where
  "handle_reparse_point sp = sp\<lparr>sp_mfi := (sp_mfi sp)\<lparr>mfi_Flags := mfi_Flags (sp_mfi sp) OR FILE_ATTRIBUTE_REPARSE_POINT\<rparr>\<rparr>"

definition analyze_resident_stream :: "('w, 'z) nt_io_scheme \<Rightarrow> 'w ftw_args \<Rightarrow> 'w analysis \<Rightarrow> 'w analysis" where
  "analyze_resident_stream nt args stream m a sp w = do {
     attr_name \<leftarrow> get_attribute_name m a;
     let sp = (case attr_name of None \<Rightarrow> sp | Some attr_name \<Rightarrow> snd (find_filelist_entry nt attr_name sp w));
     off \<leftarrow> ra_ValueOffset m a;
     len \<leftarrow> ra_ValueLength m a;
     if off = 0 \<or> len = 0 then Some (sp, w)
     else do {
       attr_type \<leftarrow> attr_AttributeType m a;
       if attr_type = AttributeStandardInformation then do {
         sp \<leftarrow> get_file_flags m a sp;
         sp \<leftarrow> get_file_access_times m a sp;
         Some (sp, w)
       }
       else if attr_type = AttributeFileName then do {
         sp \<leftarrow> update_file_name m a sp;
         Some (sp, w)
       }
       else if attr_type = AttributeAttributeList then analyze_resident_attribute_list nt args stream m a sp w
       else if attr_type = AttributeReparsePoint then Some (handle_reparse_point sp, w)
       else Some (sp, w)
     }
   }"

subsection \<open>Nonresident streams\<close>

text \<open>
  The clusters of a list are read one by one, the \<open>i\<close>th of the first block next, to the offset \<open>cur\<close> of the
  buffer. The result is the buffer with the number of clusters that are left, or nothing after a failure.
\<close>

function read_list :: "('w, 'z) nt_io_scheme \<Rightarrow> mft_scan_parameters \<Rightarrow> winx_blockmap list \<Rightarrow> u64 \<Rightarrow> nat \<Rightarrow> nat \<Rightarrow> u8 list \<Rightarrow> 'w \<Rightarrow>
  ((u8 list \<times> nat) option \<times> 'w) option" where
  "read_list nt sp [] i clusters_to_read cur buf w = Some (Some (buf, clusters_to_read), w)"
| "read_list nt sp (b # bs) i clusters_to_read cur buf w =
     (if i < b_length b then
        let lsn = (b_lcn b + i) * ucast (sectors_per_cluster (sp_ml sp));
            ((status, bytes), w) = read_sectors nt lsn (ucast (cluster_size (sp_ml sp))) sp w
        in if \<not> NT_SUCCESS status then Some (None, w)
           else if cur + length bytes > length buf then None
           else if clusters_to_read - 1 = 0 then Some (Some (memcpy buf cur bytes, 0), w)
           else read_list nt sp (b # bs) (i + 1) (clusters_to_read - 1) (cur + unat (cluster_size (sp_ml sp))) (memcpy buf cur bytes) w
      else read_list nt sp bs 0 clusters_to_read cur buf w)"
  by pat_completeness auto
termination
  by (relation "measures [\<lambda>(nt, sp, bs, i, n, cur, buf, w). n, \<lambda>(nt, sp, bs, i, n, cur, buf, w). length bs]") auto

definition analyze_non_resident_attribute_list :: "('w, 'z) nt_io_scheme \<Rightarrow> 'w ftw_args \<Rightarrow> 'w analysis \<Rightarrow> winx_file_info \<Rightarrow> u64 \<Rightarrow>
  mft_scan_parameters \<Rightarrow> 'w \<Rightarrow> (mft_scan_parameters \<times> 'w) option" where
  "analyze_non_resident_attribute_list nt args stream f list_size sp w =
     (if list_size = 0 then Some (sp, w)
      else
        let clusters = list_size div cluster_size (sp_ml sp) + (if list_size mod cluster_size (sp_ml sp) \<noteq> 0 then 1 else 0)
        in case winx_tmalloc nt (cluster_size (sp_ml sp) * clusters) w of
             None \<Rightarrow> Some (more_errors sp, w)
           | Some cluster \<Rightarrow> do {
               (r, w) \<leftarrow> read_list nt sp (f_blockmap f) 0 (unat clusters) 0 cluster w;
               (case r of
                  None \<Rightarrow> Some (sp, w)
                | Some (buf, left) \<Rightarrow>
                    if left \<noteq> 0 then Some (sp, w)
                    else attribute_list_loop nt args stream buf 0 (unat list_size) sp w)
             })"

definition process_run_list :: "('w, 'z) nt_io_scheme \<Rightarrow> 'w ftw_args \<Rightarrow> 'w analysis \<Rightarrow> wstring \<Rightarrow> u8 list \<Rightarrow> nat \<Rightarrow> bool \<Rightarrow>
  mft_scan_parameters \<Rightarrow> 'w \<Rightarrow> (mft_scan_parameters \<times> 'w) option" where
  "process_run_list nt args stream attr_name m a is_attr_list sp w =
     (case find_filelist_entry nt attr_name sp w of
        (None, sp) \<Rightarrow> Some (sp, w)
      | (Some i, sp) \<Rightarrow> do {
          flags \<leftarrow> attr_Flags m a;
          let sp = (if flags AND 1 \<noteq> 0 then update_entry i (\<lambda>f. f\<lparr>f_flags := f_flags f OR FILE_ATTRIBUTE_COMPRESSED\<rparr>) sp else sp);
          if winx_wcsistr (Some (mfi_Name (sp_mfi sp))) (Some (wstr ''$BadClus'')) \<noteq> None then Some (sp, w)
          else do {
            sp \<leftarrow> (if is_attr_list \<or> fa_flags args AND WINX_FTW_DUMP_FILES \<noteq> 0 then do {
                      vcn \<leftarrow> nra_LowVcn m a;
                      off \<leftarrow> nra_RunArrayOffset m a;
                      f \<leftarrow> runs_loop (sp_ml sp) m (a + unat off) 0 vcn (sp_filelist sp ! i);
                      Some (update_entry i (\<lambda>_. f) sp)
                    }
                    else Some sp);
            if is_attr_list then do {
              size \<leftarrow> nra_InitializedSize m a;
              analyze_non_resident_attribute_list nt args stream (sp_filelist sp ! i) size sp w
            }
            else Some (sp, w)
          }
        })"

definition analyze_non_resident_stream :: "('w, 'z) nt_io_scheme \<Rightarrow> 'w ftw_args \<Rightarrow> 'w analysis \<Rightarrow> 'w analysis" where
  "analyze_non_resident_stream nt args stream m a sp w = do {
     attr_type \<leftarrow> attr_AttributeType m a;
     let sp = (if attr_type = AttributeReparsePoint then handle_reparse_point sp else sp);
     attr_name \<leftarrow> get_attribute_name m a;
     (case attr_name of
        None \<Rightarrow> Some (sp, w)
      | Some attr_name \<Rightarrow> process_run_list nt args stream attr_name m a (attr_type = AttributeAttributeList) sp w)
   }"

subsection \<open>A single file\<close>

text \<open>The first argument bounds the depth to which lists of attributes are nested.\<close>

primrec analyze_attribute :: "nat \<Rightarrow> ('w, 'z) nt_io_scheme \<Rightarrow> 'w ftw_args \<Rightarrow> 'w analysis" where
  "analyze_attribute 0 nt args = (\<lambda>m a sp w. None)"
| "analyze_attribute (Suc depth) nt args =
     (\<lambda>m a sp w. do {
        nonresident \<leftarrow> attr_Nonresident m a;
        if nonresident then analyze_non_resident_stream nt args (analyze_attribute depth nt args) m a sp w
        else analyze_resident_stream nt args (analyze_attribute depth nt args) m a sp w
      })"

definition analyze_attribute_callback :: "nat \<Rightarrow> ('w, 'z) nt_io_scheme \<Rightarrow> 'w ftw_args \<Rightarrow> 'w analysis" where
  "analyze_attribute_callback depth nt args m a sp w = do {
     attr_type \<leftarrow> attr_AttributeType m a;
     if attr_type \<noteq> AttributeAttributeList then analyze_attribute depth nt args m a sp w else Some (sp, w)
   }"

definition analyze_attribute_list_callback :: "nat \<Rightarrow> ('w, 'z) nt_io_scheme \<Rightarrow> 'w ftw_args \<Rightarrow> 'w analysis" where
  "analyze_attribute_list_callback depth nt args m a sp w = do {
     attr_type \<leftarrow> attr_AttributeType m a;
     if attr_type = AttributeAttributeList then analyze_attribute depth nt args m a sp w else Some (sp, w)
   }"

definition update_stream_name :: "my_file_information \<Rightarrow> winx_file_info \<Rightarrow> winx_file_info" where
  "update_stream_name mfi f =
     (case f_name f of
        None \<Rightarrow> f
      | Some name \<Rightarrow> f\<lparr>f_name := Some (if name \<noteq> [] then mfi_Name mfi @ 58 # name else mfi_Name mfi)\<rparr>)"

definition update_stream :: "my_file_information \<Rightarrow> winx_file_info \<Rightarrow> winx_file_info" where
  "update_stream mfi f = update_stream_name mfi
     (f\<lparr>f_flags := mfi_Flags mfi, f_creation_time := mfi_CreationTime mfi, f_last_modification_time := mfi_LastWriteTime mfi,
        f_last_access_time := mfi_LastAccessTime mfi,
        f_internal := (f_internal f)\<lparr>ParentDirectoryMftId := mfi_ParentDirectoryMftId mfi\<rparr>\<rparr>)"

fun update_streams :: "'w ftw_args \<Rightarrow> mft_scan_parameters \<Rightarrow> winx_file_info list \<Rightarrow> 'w \<Rightarrow> winx_file_info list \<times> 'w" where
  "update_streams args sp [] w = ([], w)"
| "update_streams args sp (f # fs) w =
     (if behind_current sp f then (f # fs, w)
      else if mft_base f = mfi_BaseMftId (sp_mfi sp) then
        let f = update_stream (sp_mfi sp) f;
            w = (case fa_pcb args of None \<Rightarrow> w | Some pcb \<Rightarrow> pcb f w);
            (fs, w) = update_streams args sp fs w
        in (f # fs, w)
      else let (fs, w) = update_streams args sp fs w in (f # fs, w))"

text \<open>The half of the name buffer that is not cleared lies behind a terminating zero.\<close>

definition analyze_file_record :: "nat \<Rightarrow> ('w, 'z) nt_io_scheme \<Rightarrow> 'w ftw_args \<Rightarrow> u8 list \<Rightarrow> mft_scan_parameters \<Rightarrow> 'w \<Rightarrow>
  (mft_scan_parameters \<times> 'w) option" where
  "analyze_file_record depth nt args nfrob sp w = do {
     let frh = nfrob_FileRecordBuffer nfrob;
     ok \<leftarrow> is_file_record frh;
     if \<not> ok then Some (sp, w)
     else do {
       flags \<leftarrow> frh_Flags frh;
       if flags AND 1 = 0 then Some (sp, w)
       else do {
         base \<leftarrow> frh_BaseFileRecord frh;
         if base \<noteq> 0 then Some (sp, w)
         else do {
           frn \<leftarrow> nfrob_FileReferenceNumber nfrob;
           let sp = sp\<lparr>sp_mfi := \<lparr>mfi_BaseMftId = GetMftIdFromFRN frn, mfi_ParentDirectoryMftId = FILE_root,
             mfi_Flags = (if flags AND 2 \<noteq> 0 then FILE_ATTRIBUTE_DIRECTORY else 0), mfi_NameType = 0, mfi_Name = [],
             mfi_CreationTime = 0, mfi_LastWriteTime = 0, mfi_LastAccessTime = 0\<rparr>\<rparr>;
           (sp, w) \<leftarrow> enumerate_attributes args (analyze_attribute_callback depth nt args) frh sp w;
           (sp, w) \<leftarrow> enumerate_attributes args (analyze_attribute_list_callback depth nt args) frh sp w;
           let (fs, w) = update_streams args sp (sp_filelist sp) w;
           Some (sp\<lparr>sp_filelist := fs\<rparr>, w)
         }
       }
     }
   }"

end
