(* ===== verification/Ntfs_Scan.thy ===== *)
theory Ntfs_Scan
  imports Ntfs_Streams
begin

unbundle bit_operations_syntax

text \<open>
  Model of the scanner of the NTFS master file table, last part: the search for directories, the
  paths of the files, and the scan of the table.

  The array for the binary search holds for each entry of the list its table index; a pointer to an
  entry is its position. \<open>None\<close> is an access outside a buffer, a stack
  overflow, or, for the loop over parent directories, that it does not end.
\<close>

subsection \<open>Searching for directories\<close>

definition is_plain_name :: "winx_file_info \<Rightarrow> bool" where
  "is_plain_name f \<longleftrightarrow> (case f_name f of None \<Rightarrow> False | Some name \<Rightarrow> wcsstr name (wstr '':$'') = None)"

fun linear_search :: "u64 \<Rightarrow> nat \<Rightarrow> winx_file_info list \<Rightarrow> nat option" where
  "linear_search mft_id i [] = None"
| "linear_search mft_id i (f # fs) =
     (if mft_base f = mft_id \<and> is_plain_name f then Some i else linear_search mft_id (Suc i) fs)"

text \<open>The position of the first item with the index among the items before \<open>k\<close> that have it.\<close>

fun leftmost :: "u64 \<Rightarrow> u64 list \<Rightarrow> nat \<Rightarrow> nat" where
  "leftmost mft_id f_array 0 = 0"
| "leftmost mft_id f_array (Suc k) = (if f_array ! k \<noteq> mft_id then Suc k else leftmost mft_id f_array k)"

function rightwards :: "u64 \<Rightarrow> u64 list \<Rightarrow> winx_file_info list \<Rightarrow> nat \<Rightarrow> nat option" where
  "rightwards mft_id f_array filelist m =
     (if m < length f_array \<and> f_array ! m = mft_id then
        if is_plain_name (filelist ! m) then Some m else rightwards mft_id f_array filelist (Suc m)
      else None)"
  by pat_completeness auto
termination
  by (relation "measure (\<lambda>(mft_id, f_array, filelist, m). length f_array - m)") auto

declare rightwards.simps [simp del]

lemma half_u32: "unat (drop_bit 1 (x :: u32)) = unat x div 2"
  by (simp add: drop_bit_eq_div unat_div)

text \<open>
  \<open>i\<close>, \<open>k\<close> and \<open>lim\<close> have 32 bits. \<open>m\<close> is signed: the loop to the left does not run if \<open>k\<close> is negative as such a number.
\<close>

function binary_search :: "bool \<Rightarrow> u64 \<Rightarrow> u64 list \<Rightarrow> winx_file_info list \<Rightarrow> u32 \<Rightarrow> u32 \<Rightarrow> nat option" where
  "binary_search ascending_order mft_id f_array filelist i lim =
     (if lim = 0 then None
      else
        let k = i + drop_bit 1 lim
        in if f_array ! unat k = mft_id then
             rightwards mft_id f_array filelist
               (if 0 \<le> sint k then leftmost mft_id f_array (Suc (unat k)) else unat (k + 1))
           else if (if ascending_order then mft_id > f_array ! unat k else mft_id < f_array ! unat k)
           then binary_search ascending_order mft_id f_array filelist (k + 1) (drop_bit 1 (lim - 1))
           else binary_search ascending_order mft_id f_array filelist i (drop_bit 1 lim))"
  by pat_completeness auto
termination
  by (relation "measure (\<lambda>(ascending_order, mft_id, f_array, filelist, i, lim). unat lim)")
    (auto simp: half_u32 unat_minus_one unat_gt_0 simp del: One_nat_def intro: div_less_dividend le_less_trans [OF div_le_dividend])

declare binary_search.simps [simp del]

definition find_directory_by_mft_id :: "u64 \<Rightarrow> u64 list option \<Rightarrow> mft_scan_parameters \<Rightarrow> nat option" where
  "find_directory_by_mft_id mft_id f_array sp =
     (case f_array of
        None \<Rightarrow> linear_search mft_id 0 (sp_filelist sp)
      | Some f_array \<Rightarrow> binary_search (sp_direction sp = MFT_SCAN_RTL) mft_id f_array (sp_filelist sp) 0 (of_nat (length f_array)))"

text \<open>Whether the path is complete, the path or name, the parent, and the parameters.\<close>

definition get_directory_information :: "u64 \<Rightarrow> u64 list option \<Rightarrow> mft_scan_parameters \<Rightarrow>
  bool \<times> wstring option \<times> u64 \<times> mft_scan_parameters" where
  "get_directory_information mft_id f_array sp =
     (case find_directory_by_mft_id mft_id f_array sp of
        None \<Rightarrow> (False, None, FILE_root, more_errors sp)
      | Some i \<Rightarrow>
          let f = sp_filelist sp ! i; parent = ParentDirectoryMftId (f_internal f)
          in case f_path f of
               Some path \<Rightarrow> (True, Some path, parent, sp)
             | None \<Rightarrow> (False, f_name f, parent, sp))"

subsection \<open>Paths\<close>

text \<open>What \<open>_snwprintf\<close> and the zero behind it leave of a string in a buffer of \<open>MAX_PATH\<close> characters.\<close>

definition cut_path :: "wstring \<Rightarrow> wstring" where
  "cut_path s = take (MAX_PATH - 1) s"

partial_function (option) parents_loop :: "'w ftw_args \<Rightarrow> u64 list option \<Rightarrow> u64 \<Rightarrow> bool \<Rightarrow> wstring \<Rightarrow> mft_scan_parameters \<Rightarrow> 'w \<Rightarrow>
  (wstring option \<times> mft_scan_parameters \<times> 'w) option" where
  "parents_loop args f_array parent_mft_id full_path_retrieved child sp w =
     (if parent_mft_id \<noteq> FILE_root \<and> \<not> full_path_retrieved then
        let (stop, w) = ftw_ntfs_check_for_termination args sp w
        in if stop then Some (None, sp, w)
           else
             let (full_path_retrieved, parent_path, parent_mft_id, sp) = get_directory_information parent_mft_id f_array sp
             in parents_loop args f_array parent_mft_id full_path_retrieved
                  (cut_path (case parent_path of Some parent_path \<Rightarrow> parent_path @ 92 # child | None \<Rightarrow> 92 # child)) sp w
      else Some (Some child, sp, w))"

definition root_prefix :: "char \<Rightarrow> wstring" where
  "root_prefix volume_letter = [92, 63, 63, 92, of_char volume_letter, 58, 92]"

definition build_file_path :: "('w, 'z) nt_io_scheme \<Rightarrow> 'w ftw_args \<Rightarrow> u64 list option \<Rightarrow> nat \<Rightarrow> mft_scan_parameters \<Rightarrow> 'w \<Rightarrow>
  (mft_scan_parameters \<times> 'w) option" where
  "build_file_path nt args f_array i sp w = do {
     let f = sp_filelist sp ! i;
     name \<leftarrow> f_name f;
     (child, sp, w) \<leftarrow> parents_loop args f_array (ParentDirectoryMftId (f_internal f)) False (cut_path name) sp w;
     (case child of
        None \<Rightarrow> Some (sp, w)
      | Some child \<Rightarrow>
          let src = (if 1 < length child \<and> child ! 1 = 63 then child else cut_path (root_prefix (sp_volume_letter sp) @ child))
          in case winx_wcsdup (\<lambda>n. winx_tmalloc nt (of_nat n) w \<noteq> None) (Some src) of
               None \<Rightarrow> Some (more_errors sp, w)
             | Some path \<Rightarrow> Some (update_entry i (\<lambda>f. f\<lparr>f_path := Some path\<rparr>) sp, w))
   }"

fun paths_loop :: "('w, 'z) nt_io_scheme \<Rightarrow> 'w ftw_args \<Rightarrow> u64 list option \<Rightarrow> nat list \<Rightarrow> mft_scan_parameters \<Rightarrow> 'w \<Rightarrow>
  (mft_scan_parameters \<times> 'w) option" where
  "paths_loop nt args f_array [] sp w = Some (sp, w)"
| "paths_loop nt args f_array (i # is) sp w =
     (let (stop, w) = ftw_ntfs_check_for_termination args sp w
      in if stop then Some (sp, w)
         else do {
           (sp, w) \<leftarrow> build_file_path nt args f_array i sp w;
           paths_loop nt args f_array is sp w
         })"

text \<open>An item of the array has 16 bytes.\<close>

definition build_full_paths :: "('w, 'z) nt_io_scheme \<Rightarrow> 'w ftw_args \<Rightarrow> mft_scan_parameters \<Rightarrow> 'w \<Rightarrow>
  (int \<times> mft_scan_parameters \<times> 'w) option" where
  "build_full_paths nt args sp w = do {
     let n_entries = length (sp_filelist sp);
     let f_array = (if n_entries \<noteq> 0 \<and> winx_tmalloc nt (of_nat (n_entries * 16)) w \<noteq> None
                    then Some (map mft_base (sp_filelist sp)) else None);
     (sp, w) \<leftarrow> paths_loop nt args f_array [0..<n_entries] sp w;
     Some (0, sp, w)
   }"

subsection \<open>The scan\<close>

lemma below_record: "r \<noteq> 0 \<Longrightarrow> \<not> m < r \<Longrightarrow> unat (r - 1) < unat (m :: u64)"
  by (metis linorder_not_less measure_unat order_less_le_trans word_le_nat_alt)

text \<open>The loop over the file records, from the last one to the first; \<open>False\<close> is the jump to \<open>fail\<close>.\<close>

function records_loop :: "nat \<Rightarrow> ('w, 'z) nt_io_scheme \<Rightarrow> 'w ftw_args \<Rightarrow> u64 \<Rightarrow> mft_scan_parameters \<Rightarrow> 'w \<Rightarrow>
  (bool \<times> mft_scan_parameters \<times> 'w) option" where
  "records_loop depth nt args mft_id sp w =
     (let (stop, w) = ftw_ntfs_check_for_termination args sp w
      in if stop then Some (True, sp, w)
         else
           let ((status, nfrob), w) = get_file_record nt mft_id sp w
           in if \<not> NT_SUCCESS status then
                if mft_id = 0 then Some (False, sp, w) else records_loop depth nt args (mft_id - 1) sp w
              else do {
                frn \<leftarrow> nfrob_FileReferenceNumber nfrob;
                let ret_mft_id = GetMftIdFromFRN frn;
                (sp, w) \<leftarrow> analyze_file_record depth nt args nfrob sp w;
                if ret_mft_id = 0 \<or> mft_id = 0 then Some (True, sp, w)
                else if ret_mft_id > mft_id then records_loop depth nt args (mft_id - 1) sp w
                else records_loop depth nt args (ret_mft_id - 1) sp w
              })"
  by pat_completeness auto
termination
  by (relation "measure (\<lambda>(depth, nt, args, mft_id, sp, w). unat mft_id)") (auto intro: below_record)

declare records_loop.simps [simp del]

definition scan_mft :: "nat \<Rightarrow> ('w, 'z) nt_io_scheme \<Rightarrow> 'w ftw_args \<Rightarrow> mft_scan_parameters \<Rightarrow> 'w \<Rightarrow>
  (int \<times> mft_scan_parameters \<times> 'w) option" where
  "scan_mft depth nt args sp w = do {
     (result, sp, w) \<leftarrow> get_mft_layout nt args sp w;
     if result < 0 then Some (-1, sp, w)
     else if winx_tmalloc nt (ucast (file_record_buffer_size (sp_ml sp))) w = None then Some (-1, sp, w)
     else do {
       (ok, sp, w) \<leftarrow> records_loop depth nt args (number_of_file_records (sp_ml sp) - 1) (sp\<lparr>sp_direction := MFT_SCAN_RTL\<rparr>) w;
       if \<not> ok then Some (-1, sp, w) else build_full_paths nt args sp w
     }
   }"

fun filter_loop :: "'w ftw_args \<Rightarrow> mft_scan_parameters \<Rightarrow> winx_file_info list \<Rightarrow> 'w \<Rightarrow> winx_file_info list \<times> 'w" where
  "filter_loop args sp [] w = ([], w)"
| "filter_loop args sp (f # fs) w =
     (let (stop, w) = ftw_ntfs_check_for_termination args sp w
      in if stop then (f # fs, w)
         else
           let f = validate_blockmap f;
               w = (case fa_fcb args of None \<Rightarrow> w | Some fcb \<Rightarrow> snd (fcb f w));
               (fs, w) = filter_loop args sp fs w
           in (f # fs, w))"

text \<open>\<open>sp\<close> holds what is on the stack where the parameters are placed; the members that are not set before they are read do not matter.\<close>

definition ntfs_scan_disk_helper :: "nat \<Rightarrow> ('w, 'z) nt_io_scheme \<Rightarrow> 'w ftw_args \<Rightarrow> mft_scan_parameters \<Rightarrow> char \<Rightarrow> 'w \<Rightarrow>
  (int \<times> winx_file_info list \<times> 'w) option" where
  "ntfs_scan_disk_helper depth nt args sp volume_letter w =
     (let (f_volume, w) = winx_fopen nt (Some (volume_path volume_letter)) (Some ''r'') w
      in case f_volume of
           None \<Rightarrow> Some (-1, [], w)
         | Some f \<Rightarrow> do {
             let sp = sp\<lparr>sp_filelist := [], sp_volume_letter := volume_letter, sp_processed_attr_list_entries := 0,
               sp_errors := 0, sp_f_volume := f\<rparr>;
             (result, sp, w) \<leftarrow> scan_mft depth nt args sp w;
             if result < 0 then Some (result, sp_filelist sp, winx_fclose nt f_volume w)
             else
               let (fs, w) = filter_loop args sp (sp_filelist sp) w;
                   w = winx_fclose nt f_volume w
               in Some (if fa_flags args AND WINX_FTW_ALLOW_PARTIAL_SCAN = 0 \<and> sp_errors sp \<noteq> 0 then -1 else 0, fs, w)
           })"

definition ntfs_scan_disk :: "nat \<Rightarrow> ('w, 'z) nt_io_scheme \<Rightarrow> 'w ftw_args \<Rightarrow> mft_scan_parameters \<Rightarrow> char \<Rightarrow> 'w \<Rightarrow>
  (winx_file_info list \<times> 'w) option" where
  "ntfs_scan_disk depth nt args sp volume_letter w = do {
     (result, filelist, w) \<leftarrow> ntfs_scan_disk_helper depth nt args sp volume_letter w;
     Some (if result = -1 \<and> fa_flags args AND WINX_FTW_ALLOW_PARTIAL_SCAN = 0 then [] else filelist, w)
   }"

subsection \<open>The searches agree\<close>

definition dir_at :: "u64 \<Rightarrow> winx_file_info list \<Rightarrow> nat \<Rightarrow> bool" where
  "dir_at mft_id filelist j \<longleftrightarrow> mft_base (filelist ! j) = mft_id \<and> is_plain_name (filelist ! j)"

lemma find_upt_Suc:
  "i < n \<Longrightarrow> find P [i..<n] = (if P i then Some i else find P [Suc i..<n])"
  by (simp add: upt_conv_Cons)

lemma find_none_append: "find P xs = None \<Longrightarrow> find P (xs @ ys) = find P ys"
  by (induction xs) (auto split: if_splits)

lemma find_upt_skip:
  assumes "\<And>j. i \<le> j \<Longrightarrow> j < lo \<Longrightarrow> \<not> P j" "i \<le> lo" "lo \<le> n"
  shows "find P [i..<n] = find P [lo..<n]"
proof -
  have "[i..<n] = [i..<lo] @ [lo..<n]" using assms(2,3) by (metis le_Suc_ex upt_add_eq_append)
  moreover have "find P [i..<lo] = None" using assms(1) by (auto simp: find_None_iff)
  ultimately show ?thesis by (simp add: find_none_append)
qed

lemma linear_search_find:
  "linear_search mft_id i fs = find (\<lambda>j. dir_at mft_id fs (j - i)) [i..<i + length fs]"
proof (induction fs arbitrary: i)
  case (Cons f fs)
  have "dir_at mft_id (f # fs) (j - i) = dir_at mft_id fs (j - Suc i)" if "j \<in> set [Suc i..<Suc i + length fs]" for j
  proof -
    have "Suc i \<le> j" using that by auto
    then have "j - i = Suc (j - Suc i)" by simp
    then show ?thesis by (simp add: dir_at_def)
  qed
  then have "find (\<lambda>j. dir_at mft_id (f # fs) (j - i)) [Suc i..<Suc i + length fs] = find (\<lambda>j. dir_at mft_id fs (j - Suc i)) [Suc i..<Suc i + length fs]"
    by (intro find_cong) simp_all
  moreover have "[i..<i + length (f # fs)] = i # [Suc i..<Suc i + length fs]" by (simp add: upt_conv_Cons del: upt_Suc)
  moreover have "dir_at mft_id (f # fs) (i - i) = (mft_base f = mft_id \<and> is_plain_name f)" by (simp add: dir_at_def)
  ultimately show ?case using Cons.IH [of "Suc i"] by (simp del: upt_Suc)
qed simp

lemma base_mono: "sorted (map mft_base fs) \<Longrightarrow> i \<le> j \<Longrightarrow> j < length fs \<Longrightarrow> mft_base (fs ! i) \<le> mft_base (fs ! j)"
  using sorted_nth_mono [of "map mft_base fs" i j] by simp

lemma rightwards_find:
  assumes "sorted (map mft_base fs)" "k \<le> m" "k < length fs" "mft_base (fs ! k) = mft_id"
  shows "rightwards mft_id (map mft_base fs) fs m = find (dir_at mft_id fs) [m..<length fs]"
  using assms(2)
proof (induction "length fs - m" arbitrary: m rule: less_induct)
  case less
  show ?case
  proof (cases "m < length fs \<and> mft_base (fs ! m) = mft_id")
    case True
    then have "rightwards mft_id (map mft_base fs) fs (Suc m) = find (dir_at mft_id fs) [Suc m..<length fs]"
      using less.prems by (intro less.hyps) auto
    then show ?thesis using True by (subst rightwards.simps) (simp add: find_upt_Suc dir_at_def)
  next
    case False
    have "\<not> dir_at mft_id fs j" if "m \<le> j" "j < length fs" for j
    proof -
      have "mft_base (fs ! k) \<le> mft_base (fs ! m)" "mft_base (fs ! m) \<le> mft_base (fs ! j)"
        using base_mono [OF assms(1)] less.prems that by auto
      then show ?thesis using False that assms(4) by (auto simp: dir_at_def)
    qed
    then have "find (dir_at mft_id fs) [m..<length fs] = None" by (auto simp: find_None_iff)
    then show ?thesis using False by (subst rightwards.simps) auto
  qed
qed

lemma leftmost_spec:
  assumes "k < length xs" "xs ! k = x"
  shows "leftmost x xs (Suc k) \<le> k \<and> xs ! leftmost x xs (Suc k) = x \<and>
    (leftmost x xs (Suc k) = 0 \<or> xs ! (leftmost x xs (Suc k) - 1) \<noteq> x)"
  using assms
proof (induction k)
  case (Suc k)
  then show ?case by (cases "xs ! k = x") auto
qed simp

lemma unat_add_u32: "unat (a :: u32) + unat b < 2 ^ 32 \<Longrightarrow> unat (a + b) = unat a + unat b"
  by (simp add: unat_word_ariths)

lemma binary_search_find:
  assumes "sorted (map mft_base fs)" "length fs < 2 ^ 31"
  shows "unat i + unat lim \<le> length fs \<Longrightarrow>
    (\<And>j. j < length fs \<Longrightarrow> mft_base (fs ! j) = mft_id \<Longrightarrow> unat i \<le> j \<and> j < unat i + unat lim) \<Longrightarrow>
    binary_search True mft_id (map mft_base fs) fs i lim = find (dir_at mft_id fs) [0..<length fs]"
proof (induction "unat lim" arbitrary: i lim rule: less_induct)
  case less
  show ?case
  proof (cases "lim = 0")
    case True
    then have "\<not> dir_at mft_id fs j" if "j < length fs" for j using less.prems(2) [of j] that by (auto simp: dir_at_def)
    then have "find (dir_at mft_id fs) [0..<length fs] = None" by (auto simp: find_None_iff)
    then show ?thesis using True by (subst binary_search.simps) simp
  next
    case False
    define k where "k = i + drop_bit 1 lim"
    have l0: "0 < unat lim" using False by (simp add: unat_gt_0)
    have ki: "unat k = unat i + unat lim div 2"
      unfolding k_def using less.prems(1) assms(2) by (subst unat_add_u32) (auto simp: half_u32 simp del: One_nat_def)
    have k: "unat k < unat i + unat lim" "unat i \<le> unat k" "unat k < length fs" "0 \<le> sint k"
      using l0 less.prems(1) assms(2) ki by (auto simp: sint_u32)
    have k1: "unat (k + 1) = unat k + 1" using k(3) assms(2) by (subst unat_add_u32) auto
    have lim1: "unat (drop_bit 1 (lim - 1)) = (unat lim - 1) div 2" using False by (simp add: half_u32 unat_minus_one del: One_nat_def)
    consider (eq) "mft_base (fs ! unat k) = mft_id" | (right) "mft_base (fs ! unat k) < mft_id" | (left) "mft_id < mft_base (fs ! unat k)"
      using linorder_less_linear by blast
    then show ?thesis
    proof cases
      case eq
      let ?lo = "leftmost mft_id (map mft_base fs) (Suc (unat k))"
      have l: "?lo \<le> unat k" "map mft_base fs ! ?lo = mft_id" "?lo = 0 \<or> map mft_base fs ! (?lo - 1) \<noteq> mft_id"
        using leftmost_spec [of "unat k" "map mft_base fs" mft_id] eq k(3) by auto
      have "?lo < length fs" "?lo - 1 < length fs" using l(1) k(3) by simp_all
      with l have lo: "?lo \<le> unat k" "mft_base (fs ! ?lo) = mft_id" "?lo = 0 \<or> mft_base (fs ! (?lo - 1)) \<noteq> mft_id"
        by (simp_all only: nth_map)
      have "\<not> dir_at mft_id fs j" if "j < ?lo" for j
      proof -
        have "mft_base (fs ! j) \<le> mft_base (fs ! (?lo - 1))" "mft_base (fs ! (?lo - 1)) \<le> mft_base (fs ! ?lo)"
          using base_mono [OF assms(1)] that lo(1) k(3) by auto
        then show ?thesis using lo(2,3) that by (auto simp: dir_at_def)
      qed
      then have "find (dir_at mft_id fs) [0..<length fs] = find (dir_at mft_id fs) [?lo..<length fs]"
        using lo(1) k(3) by (intro find_upt_skip) auto
      then show ?thesis using rightwards_find [OF assms(1), of ?lo ?lo mft_id] lo k(3,4) eq False
        by (subst binary_search.simps) (simp add: k_def [symmetric] Let_def del: One_nat_def)
    next
      case right
      have "binary_search True mft_id (map mft_base fs) fs (k + 1) (drop_bit 1 (lim - 1)) = find (dir_at mft_id fs) [0..<length fs]"
      proof (rule less.hyps; unfold lim1 k1)
        show "(unat lim - 1) div 2 < unat lim" "unat k + 1 + (unat lim - 1) div 2 \<le> length fs" using l0 less.prems(1) ki by auto
        fix j assume j: "j < length fs" "mft_base (fs ! j) = mft_id"
        have "unat k < j" using base_mono [OF assms(1), of j "unat k"] right j k(3) by (metis leD linorder_not_less)
        then show "unat k + 1 \<le> j \<and> j < unat k + 1 + (unat lim - 1) div 2" using less.prems(2) [OF j] ki by auto
      qed
      then show ?thesis using right k(3) False by (subst binary_search.simps) (auto simp: k_def [symmetric] Let_def simp del: One_nat_def)
    next
      case left
      have "binary_search True mft_id (map mft_base fs) fs i (drop_bit 1 lim) = find (dir_at mft_id fs) [0..<length fs]"
      proof (rule less.hyps; unfold half_u32)
        show "unat lim div 2 < unat lim" "unat i + unat lim div 2 \<le> length fs" using l0 less.prems(1) by auto
        fix j assume j: "j < length fs" "mft_base (fs ! j) = mft_id"
        have "j < unat k" using base_mono [OF assms(1), of "unat k" j] left j by (metis leD linorder_not_less)
        then show "unat i \<le> j \<and> j < unat i + unat lim div 2" using less.prems(2) [OF j] ki by simp
      qed
      then show ?thesis using left k(3) False by (subst binary_search.simps) (auto simp: k_def [symmetric] Let_def simp del: One_nat_def)
    qed
  qed
qed

lemma searches_agree:
  assumes "sp_direction sp = MFT_SCAN_RTL" "sorted (map mft_base (sp_filelist sp))" "length (sp_filelist sp) < 2 ^ 31"
  shows "find_directory_by_mft_id mft_id (Some (map mft_base (sp_filelist sp))) sp = find_directory_by_mft_id mft_id None sp"
proof -
  have "unat (of_nat (length (sp_filelist sp)) :: u32) = length (sp_filelist sp)"
    using assms(3) by (simp add: unat_of_nat)
  then show ?thesis
    using binary_search_find [OF assms(2,3), of 0 "of_nat (length (sp_filelist sp))" mft_id]
      linear_search_find [of mft_id 0 "sp_filelist sp"] assms(1)
    by (simp add: find_directory_by_mft_id_def)
qed

subsection \<open>The list grows at its front\<close>

text \<open>
  The analysis of a record changes neither the direction nor the current file, and adds entries of the
  current file at the front of the list.
\<close>

definition grown :: "mft_scan_parameters \<Rightarrow> mft_scan_parameters \<Rightarrow> bool" where
  "grown sp sp' \<longleftrightarrow> sp_direction sp' = sp_direction sp \<and> mfi_BaseMftId (sp_mfi sp') = mfi_BaseMftId (sp_mfi sp) \<and>
     (\<exists>n. map mft_base (sp_filelist sp') = replicate n (mfi_BaseMftId (sp_mfi sp)) @ map mft_base (sp_filelist sp))"

definition keeps_growing :: "'w analysis \<Rightarrow> bool" where
  "keeps_growing stream \<longleftrightarrow> (\<forall>m a sp w sp' w'. stream m a sp w = Some (sp', w') \<longrightarrow> grown sp sp')"

lemma keeps_growingD: "keeps_growing stream \<Longrightarrow> stream m a sp w = Some (sp', w') \<Longrightarrow> grown sp sp'"
  unfolding keeps_growing_def by blast

lemma grown_same:
  "sp_direction sp' = sp_direction sp \<Longrightarrow> mfi_BaseMftId (sp_mfi sp') = mfi_BaseMftId (sp_mfi sp) \<Longrightarrow>
   map mft_base (sp_filelist sp') = map mft_base (sp_filelist sp) \<Longrightarrow> grown sp sp'"
  by (auto simp: grown_def intro: exI [of _ 0])

lemma grown_refl [simp, intro]: "grown sp sp"
  by (rule grown_same) simp_all

lemma grown_trans [trans]:
  assumes "grown a b" "grown b c"
  shows "grown a c"
proof -
  obtain n k where "map mft_base (sp_filelist b) = replicate n (mfi_BaseMftId (sp_mfi a)) @ map mft_base (sp_filelist a)"
      "map mft_base (sp_filelist c) = replicate k (mfi_BaseMftId (sp_mfi b)) @ map mft_base (sp_filelist b)"
    using assms by (auto simp: grown_def)
  then have "map mft_base (sp_filelist c) = replicate (k + n) (mfi_BaseMftId (sp_mfi a)) @ map mft_base (sp_filelist a)"
    using assms by (simp add: grown_def replicate_add)
  then show ?thesis using assms by (auto simp: grown_def)
qed

lemma grown_errors [simp]: "grown sp (more_errors sp)"
  by (rule grown_same) simp_all

lemma grown_processed: "grown sp sp' \<Longrightarrow> grown sp (sp'\<lparr>sp_processed_attr_list_entries := n\<rparr>)"
  by (simp add: grown_def)

lemma grown_mfi: "mfi_BaseMftId mfi = mfi_BaseMftId (sp_mfi sp) \<Longrightarrow> grown sp (sp\<lparr>sp_mfi := mfi\<rparr>)"
  by (rule grown_same) simp_all

lemma grown_update:
  assumes "mft_base (g (sp_filelist sp ! i)) = mft_base (sp_filelist sp ! i)"
  shows "grown sp (update_entry i g sp)"
proof (cases "i < length (sp_filelist sp)")
  case True
  then show ?thesis using assms by (intro grown_same) (simp_all add: update_entry_def map_update list_update_same_conv)
next
  case False
  then show ?thesis by (intro grown_same) (simp_all add: update_entry_def list_update_beyond)
qed

lemma grown_find:
  assumes "find_filelist_entry nt s sp w = (r, sp')"
  shows "grown sp sp'"
  using assms by (auto simp: find_filelist_entry_def grown_def split: option.splits intro: exI [of _ 0] exI [of _ 1])

lemma grown_get_flags: "get_file_flags m a sp = Some sp' \<Longrightarrow> grown sp sp'"
  by (auto simp: get_file_flags_def grown_mfi split: bind_splits if_splits)

lemma grown_get_times: "get_file_access_times m a sp = Some sp' \<Longrightarrow> grown sp sp'"
  by (auto simp: get_file_access_times_def grown_mfi split: bind_splits if_splits)

lemma grown_name: "update_file_name m a sp = Some sp' \<Longrightarrow> grown sp sp'"
  by (auto simp: update_file_name_def Let_def grown_mfi split: bind_splits if_splits)

lemma grown_reparse [simp]: "grown sp (handle_reparse_point sp)"
  by (simp add: handle_reparse_point_def grown_mfi)

lemma grown_loop:
  assumes "attributes_loop args ah m off a sp w = Some (sp', w')" "\<And>a sp w sp' w'. ah a sp w = Some (sp', w') \<Longrightarrow> grown sp sp'"
  shows "grown sp sp'"
  using assms
proof (induction args ah m off a sp w rule: attributes_loop.induct)
  case (1 args ah m off a sp w)
  obtain stop w1 where c: "ftw_ntfs_check_for_termination args sp w = (stop, w1)" by (metis prod.exhaust)
  show ?case
  proof (cases "stop \<or> attribute_valid m (sp_ml sp) off a \<noteq> Some True")
    case True
    then have "sp' = sp" using "1.prems"(1) c by (subst (asm) attributes_loop.simps) (auto split: option.splits bool.splits if_splits)
    then show ?thesis by simp
  next
    case False
    then obtain sp1 w2 len where s: "ah a sp w1 = Some (sp1, w2)" "attr_Length m a = Some len"
        "attributes_loop args ah m (off + ucast len) (a + unat len) sp1 w2 = Some (sp', w')"
      using "1.prems"(1) c by (subst (asm) attributes_loop.simps) (auto split: bind_splits)
    have "grown sp sp1" by (rule "1.prems"(2) [OF s(1)])
    moreover have "grown sp1 sp'"
      by (rule "1.IH" [OF c [symmetric] refl _ _ _ s(1) refl s(2,3) "1.prems"(2)]) (use False in auto)
    ultimately show ?thesis by (rule grown_trans)
  qed
qed

lemma grown_single:
  assumes "single_loop args stream m ty s n off a name sp w = Some (sp', w')" "keeps_growing stream"
  shows "grown sp sp'"
  using assms
proof (induction args stream m ty s n off a name sp w rule: single_loop.induct)
  case (1 args stream m ty s n off a name sp w)
  obtain stop w1 where c: "ftw_ntfs_check_for_termination args sp w = (stop, w1)" by (metis prod.exhaust)
  show ?case
  proof (cases "stop \<or> attribute_valid m (sp_ml sp) off a \<noteq> Some True")
    case True
    then have "sp' = sp" using "1.prems"(1) c by (subst (asm) single_loop.simps) (auto split: option.splits bool.splits if_splits)
    then show ?thesis by simp
  next
    case False
    then obtain t p found where f: "attr_AttributeType m a = Some t"
        "(if t = ty then attribute_name_at m a name else Some name) = Some p"
        "(if t = ty then attribute_found m a s n p else Some False) = Some found"
        "(if found then stream m a sp w1 \<bind> (\<lambda>(sp, w). Some (sp\<lparr>sp_processed_attr_list_entries := sp_processed_attr_list_entries sp + 1\<rparr>, w))
          else attr_Length m a \<bind> (\<lambda>len. single_loop args stream m ty s n (off + ucast len) (a + unat len) p sp w1)) = Some (sp', w')"
      using "1.prems"(1) c by (subst (asm) single_loop.simps) (auto split: bind_splits)
    show ?thesis
    proof (cases found)
      case True
      then obtain sp1 w2 where "stream m a sp w1 = Some (sp1, w2)" "sp' = sp1\<lparr>sp_processed_attr_list_entries := sp_processed_attr_list_entries sp1 + 1\<rparr>"
        using f(4) by (auto split: bind_splits)
      then show ?thesis using keeps_growingD [OF "1.prems"(2)] by (metis grown_processed)
    next
      case no: False
      then obtain len where l: "attr_Length m a = Some len" "single_loop args stream m ty s n (off + ucast len) (a + unat len) p sp w1 = Some (sp', w')"
        using f(4) by (auto split: bind_splits)
      show ?thesis by (rule "1.IH" [OF c [symmetric] refl _ _ _ f(1,2,3) no l "1.prems"(2)]) (use False in auto)
    qed
  qed
qed

lemma grown_record:
  assumes "analyze_attribute_from_mft_record nt args stream mft_id ty s n sp w = Some (sp', w')" "keeps_growing stream"
  shows "grown sp sp'"
  using assms grown_single [OF _ assms(2)]
  by (auto simp: analyze_attribute_from_mft_record_def analyze_single_attribute_def Let_def split: if_splits prod.splits bind_splits)

lemma grown_entry:
  assumes "analyze_attribute_from_attribute_list nt args stream m e sp w = Some (sp', w')" "keeps_growing stream"
  shows "grown sp sp'"
proof -
  obtain i ty s n where "analyze_attribute_from_mft_record nt args stream i ty s n sp w = Some (sp', w')"
    using assms(1) unfolding analyze_attribute_from_attribute_list_def by (auto split: bind_splits)
  then show ?thesis by (rule grown_record [OF _ assms(2)])
qed

lemma grown_list:
  assumes "attribute_list_loop nt args stream m e limit sp w = Some (sp', w')" "keeps_growing stream"
  shows "grown sp sp'"
  using assms
proof (induction nt args stream m e limit sp w rule: attribute_list_loop.induct)
  case (1 nt args stream m e limit sp w)
  obtain stop w1 where c: "ftw_ntfs_check_for_termination args sp w = (stop, w1)" by (metis prod.exhaust)
  show ?case
  proof (cases "stop \<or> e + sizeof_ATTRIBUTE_LIST - 6 > limit")
    case True
    then have "sp' = sp" using "1.prems"(1) c by (subst (asm) attribute_list_loop.simps) auto
    then show ?thesis by simp
  next
    case False
    then obtain ty where t: "rd32 m e = Some ty" using "1.prems"(1) c by (subst (asm) attribute_list_loop.simps) (auto split: bind_splits)
    show ?thesis
    proof (cases "ty = 0xffffffff \<or> ty = 0")
      case True
      then have "sp' = sp" using "1.prems"(1) c False t by (subst (asm) attribute_list_loop.simps) auto
      then show ?thesis by simp
    next
      case ty: False
      obtain len where l: "rd16 m (e + 4) = Some len"
        using "1.prems"(1) c False t ty by (subst (asm) attribute_list_loop.simps) (auto split: bind_splits)
      show ?thesis
      proof (cases "len = 0")
        case True
        then have "sp' = sp" using "1.prems"(1) c False t ty l by (subst (asm) attribute_list_loop.simps) auto
        then show ?thesis by simp
      next
        case len: False
        obtain sp1 w2 where s: "analyze_attribute_from_attribute_list nt args stream m e sp w1 = Some (sp1, w2)"
            "attribute_list_loop nt args stream m (e + unat len) limit sp1 w2 = Some (sp', w')"
          using "1.prems"(1) c False t ty l len by (subst (asm) attribute_list_loop.simps) (auto split: bind_splits)
        have "grown sp1 sp'" by (rule "1.IH" [OF c [symmetric] refl False t ty l len s(1) refl s(2) "1.prems"(2)])
        then show ?thesis using grown_entry [OF s(1) "1.prems"(2)] grown_trans by blast
      qed
    qed
  qed
qed

lemma grown_resident:
  assumes "keeps_growing stream" "analyze_resident_stream nt args stream m a sp w = Some (sp', w')"
  shows "grown sp sp'"
proof -
  obtain s where s: "get_attribute_name m a = Some s"
    using assms(2) unfolding analyze_resident_stream_def by (auto split: bind_splits)
  define sp1 where "sp1 = (case s of None \<Rightarrow> sp | Some s \<Rightarrow> snd (find_filelist_entry nt s sp w))"
  have "grown sp sp1" by (auto simp: sp1_def split: option.split intro: grown_find prod.collapse [symmetric])
  moreover have "grown sp1 sp'"
    using assms(2) unfolding analyze_resident_stream_def analyze_resident_attribute_list_def s bind.simps Let_def sp1_def [symmetric]
    by (auto split: if_splits bind_splits intro: grown_trans [OF grown_get_flags grown_get_times] dest: grown_name grown_list [OF _ assms(1)])
  ultimately show "grown sp sp'" by (rule grown_trans)
qed

lemma runs_loop_base: "runs_loop ml m run lcn vcn f = Some f' \<Longrightarrow> mft_base f' = mft_base f"
proof -
  have "mft_base (fold add_block bs f) = mft_base f" for bs
    by (induction bs arbitrary: f) (auto simp: add_block_def Let_def)
  then show "runs_loop ml m run lcn vcn f = Some f' \<Longrightarrow> mft_base f' = mft_base f" using runs_loop_checked by metis
qed

lemma grown_nonresident_list:
  assumes "analyze_non_resident_attribute_list nt args stream f n sp w = Some (sp', w')" "keeps_growing stream"
  shows "grown sp sp'"
  using assms(1) grown_list [OF _ assms(2)]
  by (auto simp: analyze_non_resident_attribute_list_def Let_def split: if_splits option.splits bind_splits)

lemma grown_runs:
  assumes "process_run_list nt args stream s m a l sp w = Some (sp', w')" "keeps_growing stream"
  shows "grown sp sp'"
proof -
  obtain r sp1 where r: "find_filelist_entry nt s sp w = (r, sp1)" by (metis prod.exhaust)
  have g1: "grown sp sp1" by (rule grown_find [OF r])
  show ?thesis
  proof (cases r)
    case None
    then show ?thesis using assms(1) r g1 by (simp add: process_run_list_def)
  next
    case (Some i)
    obtain flags where f: "attr_Flags m a = Some flags" using assms(1) r Some by (auto simp: process_run_list_def split: bind_splits)
    define sp2 where "sp2 = (if flags AND 1 \<noteq> 0 then update_entry i (\<lambda>f. f\<lparr>f_flags := f_flags f OR FILE_ATTRIBUTE_COMPRESSED\<rparr>) sp1 else sp1)"
    have g2: "grown sp sp2" using g1 grown_update [of "\<lambda>f. f\<lparr>f_flags := f_flags f OR FILE_ATTRIBUTE_COMPRESSED\<rparr>" sp1 i] grown_trans
      by (auto simp: sp2_def)
    let ?body = "if l \<or> fa_flags args AND WINX_FTW_DUMP_FILES \<noteq> 0 then do {
        vcn \<leftarrow> nra_LowVcn m a; off \<leftarrow> nra_RunArrayOffset m a;
        f \<leftarrow> runs_loop (sp_ml sp2) m (a + unat off) 0 vcn (sp_filelist sp2 ! i);
        Some (update_entry i (\<lambda>_. f) sp2) } else Some sp2"
    have body: "grown sp2 sp3" if "?body = Some sp3" for sp3
      using that by (auto split: if_splits bind_splits intro!: grown_update runs_loop_base)
    show ?thesis
    proof (cases "winx_wcsistr (Some (mfi_Name (sp_mfi sp2))) (Some (wstr ''$BadClus'')) \<noteq> None")
      case True
      then have "sp' = sp2" using assms(1) unfolding process_run_list_def r Some prod.case option.case f bind.simps Let_def sp2_def [symmetric] by auto
      then show ?thesis using g2 by simp
    next
      case False
      then obtain sp3 where "?body = Some sp3"
          "(if l then nra_InitializedSize m a \<bind> (\<lambda>size. analyze_non_resident_attribute_list nt args stream (sp_filelist sp3 ! i) size sp3 w) else Some (sp3, w)) = Some (sp', w')"
        using assms(1) unfolding process_run_list_def r Some prod.case option.case f bind.simps Let_def sp2_def [symmetric]
        by (auto split: bind_splits)
      then have "grown sp2 sp3" "grown sp3 sp'"
        using body grown_nonresident_list [OF _ assms(2)] by (auto split: if_splits bind_splits)
      then show ?thesis using g2 grown_trans by blast
    qed
  qed
qed

lemma grown_nonresident:
  assumes "keeps_growing stream" "analyze_non_resident_stream nt args stream m a sp w = Some (sp', w')"
  shows "grown sp sp'"
proof -
  obtain ty s where t: "attr_AttributeType m a = Some ty" "get_attribute_name m a = Some s"
    using assms(2) by (auto simp: analyze_non_resident_stream_def Let_def split: bind_splits)
  define sp1 where "sp1 = (if ty = AttributeReparsePoint then handle_reparse_point sp else sp)"
  have "grown sp sp1" by (simp add: sp1_def)
  moreover have "grown sp1 sp'"
    using assms(2) grown_runs [OF _ assms(1)]
    unfolding analyze_non_resident_stream_def t bind.simps Let_def sp1_def [symmetric] by (auto split: option.splits)
  ultimately show ?thesis by (rule grown_trans)
qed

lemma analyze_attribute_grows: "keeps_growing (analyze_attribute depth nt args)"
proof (induction depth)
  case 0
  show ?case by (simp add: keeps_growing_def)
next
  case (Suc depth)
  show ?case unfolding keeps_growing_def
  proof (intro allI impI)
    fix m a sp w sp' w' assume "analyze_attribute (Suc depth) nt args m a sp w = Some (sp', w')"
    then show "grown sp sp'"
      using grown_nonresident [OF Suc] grown_resident [OF Suc] by (auto split: bind_splits if_splits)
  qed
qed

lemma enumerate_grows:
  assumes "enumerate_attributes args (analyze_attribute_callback depth nt args) m sp w = Some (sp', w') \<or>
    enumerate_attributes args (analyze_attribute_list_callback depth nt args) m sp w = Some (sp', w')"
  shows "grown sp sp'"
proof -
  have cb: "grown sp sp'" if "analyze_attribute_callback depth nt args m a sp w = Some (sp', w') \<or>
      analyze_attribute_list_callback depth nt args m a sp w = Some (sp', w')" for a sp w sp' w'
    using that keeps_growingD [OF analyze_attribute_grows]
    by (auto simp: analyze_attribute_callback_def analyze_attribute_list_callback_def split: bind_splits if_splits)
  obtain off where "attributes_loop args (analyze_attribute_callback depth nt args m) m off (unat off) sp w = Some (sp', w') \<or>
      attributes_loop args (analyze_attribute_list_callback depth nt args m) m off (unat off) sp w = Some (sp', w')"
    using assms by (auto simp: enumerate_attributes_def split: bind_splits)
  then show ?thesis by (elim disjE) (erule grown_loop, blast intro: cb)+
qed

subsection \<open>The list stays sorted\<close>

lemma update_stream_base: "mft_base (update_stream mfi f) = mft_base f"
  by (auto simp: update_stream_def update_stream_name_def split: option.split)

lemma update_streams_bases: "map mft_base (fst (update_streams args sp fs w)) = map mft_base fs"
  by (induction args sp fs w rule: update_streams.induct) (auto simp: Let_def update_stream_base split: prod.splits option.splits)

lemma file_record_bases:
  assumes "analyze_file_record depth nt args nfrob sp w = Some (sp', w')" "nfrob_FileReferenceNumber nfrob = Some frn"
  shows "sp_direction sp' = sp_direction sp \<and>
    (\<exists>n. map mft_base (sp_filelist sp') = replicate n (GetMftIdFromFRN frn) @ map mft_base (sp_filelist sp))"
proof -
  let ?frh = "nfrob_FileRecordBuffer nfrob"
  have same: ?thesis if "sp' = sp" using that by (auto intro: exI [of _ 0])
  obtain ok where ok: "is_file_record ?frh = Some ok" using assms(1) by (auto simp: analyze_file_record_def Let_def split: bind_splits)
  show ?thesis
  proof (cases "ok \<and> (\<exists>flags. frh_Flags ?frh = Some flags \<and> flags AND 1 \<noteq> 0) \<and> frh_BaseFileRecord ?frh = Some 0")
    case False
    then have "sp' = sp" using assms(1) ok by (auto simp: analyze_file_record_def Let_def split: bind_splits if_splits)
    then show ?thesis by (rule same)
  next
    case True
    then obtain flags where fl: "frh_Flags ?frh = Some flags" "flags AND 1 \<noteq> 0" "frh_BaseFileRecord ?frh = Some 0" ok by blast
    define sp0 where "sp0 = sp\<lparr>sp_mfi := \<lparr>mfi_BaseMftId = GetMftIdFromFRN frn, mfi_ParentDirectoryMftId = FILE_root,
             mfi_Flags = (if flags AND 2 \<noteq> 0 then FILE_ATTRIBUTE_DIRECTORY else 0), mfi_NameType = 0, mfi_Name = [],
             mfi_CreationTime = 0, mfi_LastWriteTime = 0, mfi_LastAccessTime = 0\<rparr>\<rparr>"
    obtain sp1 w1 sp2 w2 where e: "enumerate_attributes args (analyze_attribute_callback depth nt args) ?frh sp0 w = Some (sp1, w1)"
        "enumerate_attributes args (analyze_attribute_list_callback depth nt args) ?frh sp1 w1 = Some (sp2, w2)"
        "sp' = sp2\<lparr>sp_filelist := fst (update_streams args sp2 (sp_filelist sp2) w2)\<rparr>"
      using assms ok fl unfolding analyze_file_record_def Let_def sp0_def
      by (auto split: bind_splits prod.splits)
    have "grown sp0 sp2" using enumerate_grows e(1,2) grown_trans by metis
    then show ?thesis using e(3) by (simp add: grown_def sp0_def update_streams_bases)
  qed
qed

text \<open>
  What is documented of \<open>FSCTL_GET_NTFS_FILE_RECORD\<close>: the record returned is the one asked for or, if that
  is not in use, one before it.
\<close>

definition records_below :: "('w, 'z) nt_io_scheme \<Rightarrow> bool" where
  "records_below nt \<longleftrightarrow> (\<forall>mft_id sp w status nfrob w' frn. get_file_record nt mft_id sp w = ((status, nfrob), w') \<longrightarrow> NT_SUCCESS status \<longrightarrow>
     nfrob_FileReferenceNumber nfrob = Some frn \<longrightarrow> GetMftIdFromFRN frn \<le> mft_id)"

definition scanned_above :: "u64 \<Rightarrow> mft_scan_parameters \<Rightarrow> bool" where
  "scanned_above mft_id sp \<longleftrightarrow> sp_direction sp = MFT_SCAN_RTL \<and> sorted (map mft_base (sp_filelist sp)) \<and>
     (\<forall>b \<in> set (map mft_base (sp_filelist sp)). mft_id < b)"

lemma sorted_front:
  assumes "sorted xs" "\<forall>x \<in> set xs. m < x" "b \<le> (m :: u64)"
  shows "sorted (replicate n b @ xs)"
  using assms by (auto simp: sorted_append)

lemma scanned_less: "scanned_above mft_id sp \<Longrightarrow> mft_id \<noteq> 0 \<Longrightarrow> scanned_above (mft_id - 1) sp"
  using below_record [of mft_id mft_id] by (fastforce simp: scanned_above_def word_less_nat_alt)

lemma records_loop_sorted:
  assumes "records_loop depth nt args mft_id sp w = Some (ok, sp', w')" "scanned_above mft_id sp" "records_below nt"
  shows "sp_direction sp' = MFT_SCAN_RTL \<and> sorted (map mft_base (sp_filelist sp'))"
  using assms
proof (induction depth nt args mft_id sp w rule: records_loop.induct)
  case (1 depth nt args mft_id sp w)
  obtain stop w1 where c: "ftw_ntfs_check_for_termination args sp w = (stop, w1)" by (metis prod.exhaust)
  obtain status nfrob w2 where g: "get_file_record nt mft_id sp w1 = ((status, nfrob), w2)" by (metis prod.exhaust)
  consider (same) "sp' = sp" | (failed) "\<not> stop" "\<not> NT_SUCCESS status" "mft_id \<noteq> 0" "records_loop depth nt args (mft_id - 1) sp w2 = Some (ok, sp', w')"
    | (read) frn sp1 w3 where "\<not> stop" "NT_SUCCESS status" "nfrob_FileReferenceNumber nfrob = Some frn"
        "analyze_file_record depth nt args nfrob sp w2 = Some (sp1, w3)"
        "(if GetMftIdFromFRN frn = 0 \<or> mft_id = 0 then Some (True, sp1, w3)
          else if GetMftIdFromFRN frn > mft_id then records_loop depth nt args (mft_id - 1) sp1 w3
          else records_loop depth nt args (GetMftIdFromFRN frn - 1) sp1 w3) = Some (ok, sp', w')"
    using "1.prems"(1) c g by (subst (asm) records_loop.simps) (auto simp: Let_def split: if_splits bind_splits)
  then show ?case
  proof cases
    case same
    then show ?thesis using "1.prems"(2) by (simp add: scanned_above_def)
  next
    case failed
    show ?thesis
      by (rule "1.IH"(1) [OF c [symmetric] refl failed(1) g [symmetric] refl refl failed(2-4) scanned_less [OF "1.prems"(2) failed(3)] "1.prems"(3)])
  next
    case read
    let ?r = "GetMftIdFromFRN frn"
    have le: "?r \<le> mft_id" using "1.prems"(3) g read(2,3) unfolding records_below_def by blast
    obtain n where n: "sp_direction sp1 = sp_direction sp" "map mft_base (sp_filelist sp1) = replicate n ?r @ map mft_base (sp_filelist sp)"
      using file_record_bases [OF read(4,3)] by blast
    have s: "sp_direction sp1 = MFT_SCAN_RTL" "sorted (map mft_base (sp_filelist sp1))"
      using n "1.prems"(2) le by (auto simp: scanned_above_def intro!: sorted_front)
    show ?thesis
    proof (cases "?r = 0 \<or> mft_id = 0")
      case True
      then show ?thesis using read(5) s by auto
    next
      case False
      have "scanned_above (?r - 1) sp1"
      proof -
        have "?r - 1 < b" if "b \<in> set (map mft_base (sp_filelist sp1))" for b
        proof -
          have le_b: "?r \<le> b" using that n(2) "1.prems"(2) le by (fastforce simp: scanned_above_def)
          show ?thesis using below_record [OF _ leD [OF le_b]] False by (simp add: word_less_nat_alt)
        qed
        then show ?thesis using s by (auto simp: scanned_above_def)
      qed
      moreover have "records_loop depth nt args (?r - 1) sp1 w3 = Some (ok, sp', w')" using read(5) False le by (auto split: if_splits)
      ultimately show ?thesis
        using "1.IH"(3) [OF c [symmetric] refl read(1) g [symmetric] refl refl _ read(3) refl read(4) refl False _ _ _ "1.prems"(3)] read(2) le by auto
    qed
  qed
qed

subsection \<open>Properties of the scan\<close>

text \<open>
  C10: on a list of less than \<open>2 ^ 31\<close> files sorted by table index, as a scan from the end of the table leaves it, the
  binary search for a directory finds the same entry as the linear search, the first one of the
  directory that is not a named stream, or none.
\<close>

theorem directory_search_equivalent:
  assumes "sp_direction sp = MFT_SCAN_RTL" "sorted (map mft_base (sp_filelist sp))" "length (sp_filelist sp) < 2 ^ 31"
  shows "find_directory_by_mft_id mft_id (Some (map mft_base (sp_filelist sp))) sp = find_directory_by_mft_id mft_id None sp"
  by (rule searches_agree [OF assms])

text \<open>
  C9: whatever the records of the table contain, a scan that returns leaves the list of files sorted by table
  index, provided the file system never returns a record behind the one asked for.
\<close>

theorem ntfs_scan_sorted:
  assumes "records_below nt" "records_loop depth nt args mft_id sp w = Some (ok, sp', w')"
    "sp_direction sp = MFT_SCAN_RTL" "sp_filelist sp = []"
  shows "sp_direction sp' = MFT_SCAN_RTL \<and> sorted (map mft_base (sp_filelist sp'))"
  by (rule records_loop_sorted [OF assms(2) _ assms(1)]) (simp add: scanned_above_def assms(3,4))

text \<open>A volume with a single file record, a file without name and with empty data.\<close>

definition demo_record :: "u8 list" where
  "demo_record =
     [70, 73, 76, 69, 0, 0, 0, 0, 0, 0, 0, 0, 0, 0, 0, 0, 0, 0, 0, 0, 48, 0, 1, 0, 72, 0, 0, 0, 0, 0, 0, 0, 0, 0, 0, 0, 0, 0, 0, 0, 0, 0, 0, 0, 0, 0, 0, 0,
      128, 0, 0, 0, 24, 0, 0, 0, 0, 0, 0, 0, 0, 0, 0, 0, 0, 0, 0, 0, 0, 0, 0, 0, 0, 0, 0]"

definition demo_mft_nt :: "unit nt_ftw" where
  "demo_mft_nt = demo_nt\<lparr>malloc := \<lambda>n w. Some (replicate (unat n) 0),
     NtFsControlFile := \<lambda>h c i n w. ((\<lparr>io_status = STATUS_SUCCESS, io_wait = STATUS_SUCCESS, io_iosb = STATUS_SUCCESS, io_information = 0\<rparr>,
       replicate 12 0 @ demo_record), w)\<rparr>"

definition demo_ftw_args :: "unit ftw_args" where
  "demo_ftw_args = \<lparr>fa_flags = 0, fa_fcb = None, fa_pcb = None, fa_t = None, fa_tmalloc = \<lambda>n. True\<rparr>"

definition demo_sp :: "winx_file_info list \<Rightarrow> mft_scan_parameters" where
  "demo_sp fs = \<lparr>sp_direction = MFT_SCAN_RTL, sp_ml = \<lparr>file_record_size = 72, file_record_buffer_size = 87, number_of_file_records = 1,
       total_clusters = 100, cluster_size = 4096, sectors_per_cluster = 8, sector_size = 512\<rparr>, sp_volume_letter = CHR ''C'',
     sp_f_volume = Winx_File.demo_file, sp_mfi = \<lparr>mfi_BaseMftId = 0, mfi_ParentDirectoryMftId = 0, mfi_Flags = 0, mfi_NameType = 0, mfi_Name = [],
       mfi_CreationTime = 0, mfi_LastWriteTime = 0, mfi_LastAccessTime = 0\<rparr>,
     sp_processed_attr_list_entries = 0, sp_errors = 0, sp_filelist = fs\<rparr>"

lemma demo_records_below: "records_below demo_mft_nt"
  unfolding records_below_def
proof (intro allI impI)
  fix mft_id sp w status nfrob w' frn
  assume a: "get_file_record demo_mft_nt mft_id sp w = ((status, nfrob), w')" "nfrob_FileReferenceNumber nfrob = Some frn"
  have "nfrob = zero_filled (unat (file_record_buffer_size (sp_ml sp))) (replicate 12 0 @ demo_record)"
    using a(1) by (simp add: get_file_record_def demo_mft_nt_def Let_def)
  then have "take 8 nfrob = replicate 8 0" using a(2)
    by (auto simp: nfrob_FileReferenceNumber_def rd64_def zero_filled_def min_def split: if_splits)
  then have "frn = 0" using a(2) by (auto simp: nfrob_FileReferenceNumber_def rd64_def le64_def eval_nat_numeral split: if_splits)
  then show "GetMftIdFromFRN frn \<le> mft_id" by (simp add: GetMftIdFromFRN_def)
qed

lemma zero_filled_exact: "length xs = n \<Longrightarrow> zero_filled n xs = xs"
  by (simp add: zero_filled_def)

lemma demo_nfrob: "get_file_record demo_mft_nt mft_id (demo_sp fs) () = ((STATUS_SUCCESS, replicate 12 0 @ demo_record), ())"
proof -
  have "zero_filled 87 (replicate 12 0 @ demo_record) = replicate 12 0 @ demo_record"
    by (rule zero_filled_exact) (simp add: demo_record_def)
  then show ?thesis by (simp add: get_file_record_def demo_mft_nt_def demo_sp_def Let_def NT_SUCCESS_def STATUS_SUCCESS_def)
qed

lemma demo_fields:
  "is_file_record demo_record = Some True" "frh_Flags demo_record = Some 1" "frh_BaseFileRecord demo_record = Some 0"
  "frh_AttributeOffset demo_record = Some 48" "frh_BytesInUse demo_record = Some 72"
  "attr_AttributeType demo_record 48 = Some AttributeData" "attr_Length demo_record 48 = Some 24" "attr_Nonresident demo_record 48 = Some False"
  "attr_NameLength demo_record 48 = Some 0" "ra_ValueOffset demo_record 48 = Some 0" "ra_ValueLength demo_record 48 = Some 0"
  by (simp_all add: demo_record_def is_file_record_def frh_Type_def frh_Flags_def frh_BaseFileRecord_def frh_AttributeOffset_def
      frh_BytesInUse_def attr_AttributeType_def attr_Length_def attr_Nonresident_def attr_NameLength_def ra_ValueOffset_def ra_ValueLength_def
      AttributeData_def rd8_def rd16_def rd32_def rd64_def le16_def le32_def le64_def)

lemma demo_valid:
  assumes "sp_ml sp = sp_ml (demo_sp [])"
  shows "attribute_valid demo_record (sp_ml sp) 48 48 = Some True" "attribute_valid demo_record (sp_ml sp) 72 72 = Some False"
  unfolding assms by (simp_all add: attribute_valid_def demo_fields demo_sp_def sizeof_ATTRIBUTE_def sizeof_RESIDENT_ATTRIBUTE_def AttributeData_def)

lemma demo_loop:
  assumes "sp_ml sp = sp_ml (demo_sp [])" "sp_errors sp = 0" "ah 48 sp () = Some (sp', ())" "sp_ml sp' = sp_ml sp" "sp_errors sp' = 0"
  shows "attributes_loop demo_ftw_args ah demo_record 48 48 sp () = Some (sp', ())"
proof -
  have t: "ftw_ntfs_check_for_termination demo_ftw_args sp () = (False, ())" if "sp_errors sp = 0" for sp
    using that by (simp add: ftw_ntfs_check_for_termination_def ftw_check_for_termination_def demo_ftw_args_def)
  have "attributes_loop demo_ftw_args ah demo_record 72 72 sp' () = Some (sp', ())"
    by (subst attributes_loop.simps) (simp add: t assms demo_valid)
  then show ?thesis by (subst attributes_loop.simps) (simp add: t assms demo_valid demo_fields)
qed

definition demo_stream :: winx_file_info where
  "demo_stream = \<lparr>f_name = Some [], f_path = None, f_flags = 0, f_disp = zero_disp, f_user_defined_flags = 0,
     f_internal = \<lparr>BaseMftId = 0, ParentDirectoryMftId = FILE_root\<rparr>, f_creation_time = 0, f_last_modification_time = 0, f_last_access_time = 0\<rparr>"

lemma demo_analysis:
  "records_loop 1 demo_mft_nt demo_ftw_args 0 (demo_sp []) () = Some (True,
     (demo_sp [demo_stream])\<lparr>sp_mfi := (sp_mfi (demo_sp []))\<lparr>mfi_ParentDirectoryMftId := FILE_root\<rparr>\<rparr>, ())"
proof -
  let ?sp = "(demo_sp [])\<lparr>sp_mfi := (sp_mfi (demo_sp []))\<lparr>mfi_ParentDirectoryMftId := FILE_root\<rparr>\<rparr>"
  let ?sp' = "?sp\<lparr>sp_filelist := [demo_stream]\<rparr>"
  have n: "get_attribute_name demo_record 48 = Some (Some [])"
    by (simp add: get_attribute_name_def demo_fields get_default_attribute_name_def default_attribute_names_def
        AttributeData_def AttributeAttributeList_def AttributeEA_def AttributeEAInformation_def AttributeSecurityDescriptor_def wstr_def)
  have f: "find_filelist_entry demo_mft_nt [] ?sp () = (Some 0, ?sp')"
    by (simp add: find_filelist_entry_def winx_wcsdup_def winx_tmalloc_def demo_mft_nt_def demo_stream_def demo_sp_def)
  have a: "analyze_attribute_callback 1 demo_mft_nt demo_ftw_args demo_record 48 ?sp () = Some (?sp', ())"
    by (simp add: analyze_attribute_callback_def demo_fields analyze_resident_stream_def n f AttributeData_def AttributeAttributeList_def)
  have l: "analyze_attribute_list_callback 1 demo_mft_nt demo_ftw_args demo_record 48 ?sp' () = Some (?sp', ())"
    by (simp add: analyze_attribute_list_callback_def demo_fields AttributeData_def AttributeAttributeList_def)
  have e: "enumerate_attributes demo_ftw_args (analyze_attribute_callback 1 demo_mft_nt demo_ftw_args) demo_record ?sp () = Some (?sp', ())"
      "enumerate_attributes demo_ftw_args (analyze_attribute_list_callback 1 demo_mft_nt demo_ftw_args) demo_record ?sp' () = Some (?sp', ())"
    using demo_loop [of ?sp "analyze_attribute_callback 1 demo_mft_nt demo_ftw_args demo_record", OF _ _ a]
      demo_loop [of ?sp' "analyze_attribute_list_callback 1 demo_mft_nt demo_ftw_args demo_record", OF _ _ l] by (simp_all add: enumerate_attributes_def demo_fields demo_sp_def)
  have u: "update_streams demo_ftw_args ?sp' [demo_stream] () = ([demo_stream], ())"
    by (simp add: behind_current_def update_stream_def update_stream_name_def demo_stream_def demo_sp_def demo_ftw_args_def)
  have d: "nfrob_FileRecordBuffer (replicate 12 0 @ demo_record) = demo_record"
      "nfrob_FileReferenceNumber (replicate 12 0 @ demo_record) = Some 0"
    by (simp_all add: nfrob_FileRecordBuffer_def nfrob_FileReferenceNumber_def rd64_def le64_def eval_nat_numeral)
  have s: "(demo_sp [])\<lparr>sp_mfi := \<lparr>mfi_BaseMftId = 0, mfi_ParentDirectoryMftId = FILE_root, mfi_Flags = 0, mfi_NameType = 0, mfi_Name = [],
      mfi_CreationTime = 0, mfi_LastWriteTime = 0, mfi_LastAccessTime = 0\<rparr>\<rparr> = ?sp" by (simp add: demo_sp_def)
  have r: "analyze_file_record 1 demo_mft_nt demo_ftw_args (replicate 12 0 @ demo_record) (demo_sp []) () = Some (?sp', ())"
    by (simp add: analyze_file_record_def d demo_fields GetMftIdFromFRN_def s e u del: One_nat_def update_streams.simps)
  have t: "ftw_ntfs_check_for_termination demo_ftw_args (demo_sp []) () = (False, ())"
    by (simp add: ftw_ntfs_check_for_termination_def ftw_check_for_termination_def demo_ftw_args_def demo_sp_def)
  have ok: "NT_SUCCESS STATUS_SUCCESS" by (simp add: NT_SUCCESS_def STATUS_SUCCESS_def)
  have "records_loop 1 demo_mft_nt demo_ftw_args 0 (demo_sp []) () = Some (True, ?sp', ())"
    by (subst records_loop.simps) (simp add: t demo_nfrob ok d r GetMftIdFromFRN_def del: One_nat_def)
  moreover have "?sp' = (demo_sp [demo_stream])\<lparr>sp_mfi := (sp_mfi (demo_sp []))\<lparr>mfi_ParentDirectoryMftId := FILE_root\<rparr>\<rparr>"
    by (simp add: demo_sp_def)
  ultimately show ?thesis by simp
qed

theorem ntfs_scan_sorted_witness:
  "\<exists>ok sp' w'. records_loop 1 demo_mft_nt demo_ftw_args 0 (demo_sp []) () = Some (ok, sp', w') \<and>
    map mft_base (sp_filelist sp') = [0] \<and> sorted (map mft_base (sp_filelist sp'))"
  by (intro exI conjI, rule demo_analysis)
    (use ntfs_scan_sorted [OF demo_records_below demo_analysis] in \<open>simp_all add: demo_sp_def demo_stream_def\<close>)

theorem directory_search_equivalent_witness:
  "find_directory_by_mft_id 0 (Some [0, 0]) (demo_sp [demo_stream, demo_stream\<lparr>f_name := Some [65]\<rparr>]) =
    find_directory_by_mft_id 0 None (demo_sp [demo_stream, demo_stream\<lparr>f_name := Some [65]\<rparr>])"
  using directory_search_equivalent [of "demo_sp [demo_stream, demo_stream\<lparr>f_name := Some [65]\<rparr>]" 0]
  by (simp add: demo_sp_def demo_stream_def)

subsection \<open>Circular directories\<close>

text \<open>Two directories, each of which names the other one as its parent.\<close>

definition demo_circle :: mft_scan_parameters where
  "demo_circle = demo_sp [demo_stream\<lparr>f_name := Some [65], f_internal := \<lparr>BaseMftId = 20, ParentDirectoryMftId = 21\<rparr>\<rparr>,
     demo_stream\<lparr>f_name := Some [66], f_internal := \<lparr>BaseMftId = 21, ParentDirectoryMftId = 20\<rparr>\<rparr>]"

lemma circle_parent:
  "p \<in> {20, 21} \<Longrightarrow> \<exists>name. get_directory_information p None demo_circle = (False, Some name, 41 - p, demo_circle)"
  by (auto simp: get_directory_information_def find_directory_by_mft_id_def demo_circle_def demo_sp_def demo_stream_def
      is_plain_name_def wstr_def)

lemma circle_no_result:
  "parents_loop args f_array p full child sp w = Some r \<Longrightarrow>
    \<not> (args = demo_ftw_args \<and> f_array = None \<and> p \<in> {20, 21} \<and> \<not> full \<and> sp = demo_circle)"
proof (induction rule: parents_loop.raw_induct [where P = "\<lambda>args f_array p full child sp w r.
    \<not> (args = demo_ftw_args \<and> f_array = None \<and> p \<in> {20, 21} \<and> \<not> full \<and> sp = demo_circle)", rotated 1, consumes 1])
  case (1 loop args f_array p full child sp w r)
  show ?case
  proof
    assume a: "args = demo_ftw_args \<and> f_array = None \<and> p \<in> {20, 21} \<and> \<not> full \<and> sp = demo_circle"
    then obtain name where "get_directory_information p None demo_circle = (False, Some name, 41 - p, demo_circle)"
      using circle_parent by blast
    moreover have p: "p \<noteq> FILE_root" "41 - p \<in> {20, 21}" using a by (auto simp: FILE_root_def)
    moreover have "ftw_ntfs_check_for_termination demo_ftw_args demo_circle w = (False, w)"
      by (simp add: ftw_ntfs_check_for_termination_def ftw_check_for_termination_def demo_ftw_args_def demo_circle_def demo_sp_def)
    ultimately have "loop demo_ftw_args None (41 - p) False (cut_path (name @ 92 # child)) demo_circle w = Some r"
      using 1(2) a by simp
    from 1(1) [OF this] p(2) show False by simp
  qed
qed

text \<open>
  C39: on the table \<open>demo_circle\<close>, in which two directories name each other as parent, building the path of a file in
  them never ends.
\<close>

theorem circular_parents_hang: "build_file_path demo_mft_nt demo_ftw_args None 0 demo_circle () = None"
proof -
  have "parents_loop demo_ftw_args None 21 False (cut_path [65]) demo_circle () = None"
  proof (rule ccontr)
    assume "parents_loop demo_ftw_args None 21 False (cut_path [65]) demo_circle () \<noteq> None"
    then obtain r where "parents_loop demo_ftw_args None 21 False (cut_path [65]) demo_circle () = Some r" by blast
    from circle_no_result [OF this] show False by simp
  qed
  moreover have "f_name (sp_filelist demo_circle ! 0) = Some [65]" "ParentDirectoryMftId (f_internal (sp_filelist demo_circle ! 0)) = 21"
    by (simp_all add: demo_circle_def demo_sp_def)
  ultimately show ?thesis by (simp add: build_file_path_def)
qed

text \<open>A record of 72 bytes whose only attribute, a file name, is valid but for its value, which lies at the offset 65535.\<close>

definition demo_bad_record :: "u8 list" where
  "demo_bad_record = demo_record[48 := 0x30, 64 := 68, 68 := 0xFF, 69 := 0xFF]"

text \<open>
  C40: the offset of a resident value is not compared with the size of the record: an attribute that passes
  all the checks makes the scanner read outside the buffer of the record, at any depth.
\<close>

theorem resident_value_unchecked:
  "attribute_valid demo_bad_record (sp_ml (demo_sp [])) 48 48 = Some True \<and>
    analyze_attribute (Suc depth) nt args demo_bad_record 48 (demo_sp []) w = None"
proof
  have f: "attr_AttributeType demo_bad_record 48 = Some AttributeFileName" "attr_Length demo_bad_record 48 = Some 24"
      "attr_Nonresident demo_bad_record 48 = Some False" "ra_ValueOffset demo_bad_record 48 = Some 0xFFFF"
      "ra_ValueLength demo_bad_record 48 = Some 68" "frh_BytesInUse demo_bad_record = Some 72" "rd8 demo_bad_record (48 + 0xFFFF + 64) = None"
    by (simp_all add: demo_bad_record_def demo_record_def attr_AttributeType_def attr_Length_def attr_Nonresident_def ra_ValueOffset_def
        ra_ValueLength_def frh_BytesInUse_def AttributeFileName_def rd8_def rd16_def rd32_def le16_def le32_def)
  show "attribute_valid demo_bad_record (sp_ml (demo_sp [])) 48 48 = Some True"
    by (simp add: attribute_valid_def f demo_sp_def sizeof_ATTRIBUTE_def sizeof_RESIDENT_ATTRIBUTE_def AttributeFileName_def)
  have "update_file_name demo_bad_record 48 sp = None" for sp
    using f by (simp add: update_file_name_def Let_def sizeof_FILENAME_ATTRIBUTE_def)
  moreover have "get_attribute_name demo_bad_record 48 = Some None"
    by (simp add: get_attribute_name_def f get_default_attribute_name_def default_attribute_names_def AttributeFileName_def AttributeData_def
        AttributeAttributeList_def AttributeEA_def AttributeEAInformation_def AttributeSecurityDescriptor_def AttributeIndexRoot_def
        AttributeIndexAllocation_def AttributeBitmap_def AttributeReparsePoint_def AttributeLoggedUtulityStream_def)
  ultimately show "analyze_attribute (Suc depth) nt args demo_bad_record 48 (demo_sp []) w = None"
    by (simp add: f analyze_resident_stream_def AttributeFileName_def AttributeStandardInformation_def)
qed

subsection \<open>Paths fit into their buffers\<close>

definition path_fits :: "winx_file_info \<Rightarrow> bool" where
  "path_fits f \<longleftrightarrow> (case f_path f of None \<Rightarrow> True | Some path \<Rightarrow> length path < MAX_PATH)"

definition without_path :: "winx_file_info \<Rightarrow> winx_file_info" where
  "without_path f = f\<lparr>f_path := None\<rparr>"

lemma cut_path_fits: "length (cut_path s) < MAX_PATH"
  by (simp add: cut_path_def MAX_PATH_def)

lemma directory_information_list: "get_directory_information p f_array sp = (b, s, q, sp') \<Longrightarrow> sp_filelist sp' = sp_filelist sp"
  by (auto simp: get_directory_information_def Let_def split: option.splits)

lemma parents_loop_fits:
  "parents_loop args f_array p full child sp w = Some r \<Longrightarrow>
    sp_filelist (fst (snd r)) = sp_filelist sp \<and> (length child < MAX_PATH \<longrightarrow> (\<forall>c. fst r = Some c \<longrightarrow> length c < MAX_PATH))"
proof (induction rule: parents_loop.raw_induct [where P = "\<lambda>args f_array p full child sp w r.
    sp_filelist (fst (snd r)) = sp_filelist sp \<and> (length child < MAX_PATH \<longrightarrow> (\<forall>c. fst r = Some c \<longrightarrow> length c < MAX_PATH))", rotated 1, consumes 1])
  case (1 loop args f_array p full child sp w r)
  obtain stop w1 where t: "ftw_ntfs_check_for_termination args sp w = (stop, w1)" by (metis prod.exhaust)
  obtain b s q sp1 where g: "get_directory_information p f_array sp = (b, s, q, sp1)" by (metis prod.exhaust)
  let ?child = "cut_path (case s of Some s \<Rightarrow> s @ 92 # child | None \<Rightarrow> 92 # child)"
  show ?case
  proof (cases "p \<noteq> FILE_root \<and> \<not> full \<and> \<not> stop")
    case True
    then have "loop args f_array q b ?child sp1 w1 = Some r" using 1(2) t g by simp
    from 1(1) [OF this] show ?thesis using directory_information_list [OF g] cut_path_fits by simp
  next
    case False
    then show ?thesis using 1(2) t by (auto split: if_splits)
  qed
qed

lemma wcsdup_same: "winx_wcsdup t (Some s) = Some p \<Longrightarrow> p = s"
  by (auto simp: winx_wcsdup_def split: if_splits)

lemma build_file_path_fits:
  assumes "build_file_path nt args f_array i sp w = Some (sp', w')"
  shows "map without_path (sp_filelist sp') = map without_path (sp_filelist sp) \<and>
    (list_all path_fits (sp_filelist sp) \<longrightarrow> list_all path_fits (sp_filelist sp'))"
proof -
  let ?loop = "\<lambda>name. parents_loop args f_array (ParentDirectoryMftId (f_internal (sp_filelist sp ! i))) False (cut_path name) sp w"
  obtain name where n: "f_name (sp_filelist sp ! i) = Some name"
    using assms by (cases "f_name (sp_filelist sp ! i)") (simp_all add: build_file_path_def)
  obtain child sp1 w1 where p: "?loop name = Some (child, sp1, w1)"
    using assms n by (cases "?loop name") (auto simp: build_file_path_def)
  have c: "(case child of None \<Rightarrow> Some (sp1, w1) | Some child \<Rightarrow>
          let src = (if 1 < length child \<and> child ! 1 = 63 then child else cut_path (root_prefix (sp_volume_letter sp1) @ child))
          in case winx_wcsdup (\<lambda>n. winx_tmalloc nt (of_nat n) w1 \<noteq> None) (Some src) of
               None \<Rightarrow> Some (more_errors sp1, w1)
             | Some path \<Rightarrow> Some (update_entry i (\<lambda>f. f\<lparr>f_path := Some path\<rparr>) sp1, w1)) = Some (sp', w')"
    using assms by (simp only: build_file_path_def Let_def n p bind.simps prod.case)
  have l: "sp_filelist sp1 = sp_filelist sp" "\<And>c. child = Some c \<Longrightarrow> length c < MAX_PATH"
    using parents_loop_fits [OF p] cut_path_fits by auto
  have "sp_filelist sp' = sp_filelist sp \<or> (\<exists>path. length path < MAX_PATH \<and>
      sp_filelist sp' = (sp_filelist sp)[i := (sp_filelist sp ! i)\<lparr>f_path := Some path\<rparr>])"
  proof (cases child)
    case None
    then show ?thesis using c l(1) by simp
  next
    case (Some child)
    let ?src = "if 1 < length child \<and> child ! 1 = 63 then child else cut_path (root_prefix (sp_volume_letter sp1) @ child)"
    have fits: "length ?src < MAX_PATH" using l(2) [OF Some] cut_path_fits by simp
    show ?thesis
    proof (cases "winx_wcsdup (\<lambda>n. winx_tmalloc nt (of_nat n) w1 \<noteq> None) (Some ?src)")
      case None
      then have "sp' = more_errors sp1" using c unfolding Some Let_def by simp
      then show ?thesis using l(1) by simp
    next
      case path: (Some path)
      then have "path = ?src" by (rule wcsdup_same)
      moreover have "sp' = update_entry i (\<lambda>f. f\<lparr>f_path := Some path\<rparr>) sp1" using c path unfolding Some Let_def by simp
      ultimately have "length path < MAX_PATH" "sp_filelist sp' = (sp_filelist sp)[i := (sp_filelist sp ! i)\<lparr>f_path := Some path\<rparr>]"
        using fits l(1) by (simp_all only: update_entry_def) simp_all
      then show ?thesis by (intro disjI2 exI [of _ path] conjI)
    qed
  qed
  then show ?thesis
  proof (elim disjE exE conjE)
    fix path assume "length path < MAX_PATH" "sp_filelist sp' = (sp_filelist sp)[i := (sp_filelist sp ! i)\<lparr>f_path := Some path\<rparr>]"
    moreover have "map without_path ((sp_filelist sp)[i := (sp_filelist sp ! i)\<lparr>f_path := Some path\<rparr>]) = map without_path (sp_filelist sp)"
      by (cases "i < length (sp_filelist sp)") (simp_all add: map_update without_path_def list_update_same_conv list_update_beyond)
    moreover have "path_fits ((sp_filelist sp ! i)\<lparr>f_path := Some path\<rparr>)" using \<open>length path < MAX_PATH\<close> by (simp add: path_fits_def)
    ultimately show ?thesis using set_update_subset_insert [of "sp_filelist sp" i "(sp_filelist sp ! i)\<lparr>f_path := Some path\<rparr>"]
      by (auto simp: list_all_iff)
  qed simp
qed

lemma paths_loop_fits:
  "paths_loop nt args f_array is sp w = Some (sp', w') \<Longrightarrow> map without_path (sp_filelist sp') = map without_path (sp_filelist sp) \<and>
    (list_all path_fits (sp_filelist sp) \<longrightarrow> list_all path_fits (sp_filelist sp'))"
proof (induction "is" arbitrary: sp w)
  case (Cons i "is")
  obtain stop w1 where t: "ftw_ntfs_check_for_termination args sp w = (stop, w1)" by (metis prod.exhaust)
  show ?case
  proof (cases stop)
    case False
    then obtain sp1 w2 where "build_file_path nt args f_array i sp w1 = Some (sp1, w2)" "paths_loop nt args f_array is sp1 w2 = Some (sp', w')"
      using Cons.prems t by (auto split: bind_splits)
    then show ?thesis using build_file_path_fits Cons.IH by metis
  qed (use Cons.prems t in auto)
qed simp

text \<open>
  C35: building the paths of all files changes nothing of the list but the paths, and every path it stores
  fits into \<open>MAX_PATH\<close> characters with its terminating zero, however long the names are and whatever the
  parents are.
\<close>

theorem full_paths_fit:
  assumes "build_full_paths nt args sp w = Some (r, sp', w')" "list_all path_fits (sp_filelist sp)"
  shows "list_all path_fits (sp_filelist sp') \<and> map without_path (sp_filelist sp') = map without_path (sp_filelist sp)"
  using assms by (auto simp: build_full_paths_def Let_def split: bind_splits dest: paths_loop_fits)

theorem full_paths_fit_witness:
  "\<exists>r sp' w'. build_full_paths demo_mft_nt demo_ftw_args (demo_sp [demo_stream]) () = Some (r, sp', w') \<and> list_all path_fits (sp_filelist sp')"
proof -
  have f: "sp_filelist (demo_sp [demo_stream]) = [demo_stream]" "list_all path_fits [demo_stream]"
    by (simp_all add: demo_sp_def path_fits_def demo_stream_def)
  have t: "ftw_ntfs_check_for_termination demo_ftw_args (demo_sp fs) () = (False, ())" for fs
    by (simp add: ftw_ntfs_check_for_termination_def ftw_check_for_termination_def demo_ftw_args_def demo_sp_def)
  have p: "parents_loop demo_ftw_args a 5 False (cut_path []) (demo_sp fs) () = Some (Some [], demo_sp fs, ())" for a fs
    by (subst parents_loop.simps) (simp add: FILE_root_def cut_path_def)
  have n: "f_name demo_stream = Some []" "ParentDirectoryMftId (f_internal demo_stream) = 5" by (simp_all add: demo_stream_def FILE_root_def)
  have m: "winx_tmalloc demo_mft_nt k () \<noteq> None" for k by (simp add: winx_tmalloc_def demo_mft_nt_def)
  have q: "\<exists>sp1. build_file_path demo_mft_nt demo_ftw_args a 0 (demo_sp [demo_stream]) () = Some (sp1, ())" for a
    by (simp add: build_file_path_def f n p winx_wcsdup_def m)
  have "build_full_paths demo_mft_nt demo_ftw_args (demo_sp [demo_stream]) () \<noteq> None"
    using q [of "Some [mft_base demo_stream]"] by (auto simp: build_full_paths_def f t m)
  then obtain r sp' w' where b: "build_full_paths demo_mft_nt demo_ftw_args (demo_sp [demo_stream]) () = Some (r, sp', w')" by auto
  show ?thesis using full_paths_fit [OF b] f b by auto
qed

end
