(* ===== verification/Std_Containers.thy ===== *)
theory Std_Containers
  imports Prelude "HOL-Library.Multiset"
begin

text \<open>
  The parts of \<open>std::map\<close> and \<open>std::multimap\<close> that \<open>zen.cpp\<close> uses. A container is the list of its
  entries in iteration order, sorted by key. An iterator that is compared and dereferenced only
  is the entry it points to, and \<open>end()\<close> is \<open>None\<close>.
\<close>

type_synonym ('k, 'v) entries = "('k \<times> 'v) list"

definition map_find :: "'k \<Rightarrow> ('k, 'v) entries \<Rightarrow> 'v option" where
  "map_find k es = map_of es k"

text \<open>\<open>map::insert\<close> leaves an entry with the same key alone.\<close>

fun map_insert :: "'k::linorder \<Rightarrow> 'v \<Rightarrow> ('k, 'v) entries \<Rightarrow> ('k, 'v) entries" where
  "map_insert k v [] = [(k, v)]"
| "map_insert k v ((k', v') # es) =
     (if k < k' then (k, v) # (k', v') # es
      else if k = k' then (k', v') # es
      else (k', v') # map_insert k v es)"

definition map_erase :: "'k \<Rightarrow> ('k, 'v) entries \<Rightarrow> ('k, 'v) entries" where
  "map_erase k es = filter (\<lambda>e. fst e \<noteq> k) es"

text \<open>
  \<open>std::prev(m.lower_bound(k))\<close>: the last entry with a smaller key. When there is none, the code
  decrements \<open>begin()\<close>, which the standard leaves undefined: \<open>None\<close>.
\<close>

definition map_prev_lower :: "'k::linorder \<Rightarrow> ('k, 'v) entries \<Rightarrow> ('k \<times> 'v) option" where
  "map_prev_lower k es =
     (let below = takeWhile (\<lambda>e. fst e < k) es in if below = [] then None else Some (last below))"

text \<open>\<open>multimap::insert\<close> puts an entry behind those with the same key.\<close>

fun mm_insert :: "'k::linorder \<Rightarrow> 'v \<Rightarrow> ('k, 'v) entries \<Rightarrow> ('k, 'v) entries" where
  "mm_insert k v [] = [(k, v)]"
| "mm_insert k v ((k', v') # es) =
     (if k < k' then (k, v) # (k', v') # es else (k', v') # mm_insert k v es)"

definition mm_equal_range :: "'k \<Rightarrow> ('k, 'v) entries \<Rightarrow> ('k, 'v) entries" where
  "mm_equal_range k es = filter (\<lambda>e. fst e = k) es"

definition mm_upper_bound :: "'k::linorder \<Rightarrow> ('k, 'v) entries \<Rightarrow> ('k, 'v) entries" where
  "mm_upper_bound k es = dropWhile (\<lambda>e. fst e \<le> k) es"

text \<open>
  The loop over \<open>equal_range(k)\<close> that erases the first entry holding \<open>v\<close> and stops. Entries with
  equal key and value are indistinguishable, so it is the removal of one \<open>(k, v)\<close>.
\<close>

definition mm_erase_one :: "'k \<Rightarrow> 'v \<Rightarrow> ('k, 'v) entries \<Rightarrow> ('k, 'v) entries" where
  "mm_erase_one k v es = remove1 (k, v) es"

abbreviation keys_sorted :: "('k::linorder, 'v) entries \<Rightarrow> bool" where
  "keys_sorted es \<equiv> sorted (map fst es)"

abbreviation keys_strict :: "('k::linorder, 'v) entries \<Rightarrow> bool" where
  "keys_strict es \<equiv> sorted_wrt (<) (map fst es)"

subsection \<open>Maps\<close>

lemma keys_strict_distinct: "keys_strict es \<Longrightarrow> distinct (map fst es)"
  using strict_sorted_iff by blast

lemma map_find_mem: "map_find k es = Some v \<Longrightarrow> (k, v) \<in> set es"
  by (simp add: map_find_def map_of_SomeD)

lemma map_find_split:
  assumes "map_find k es = Some v"
  obtains as bs where "es = as @ (k, v) # bs"
  using map_find_mem [OF assms] by (auto dest: split_list)

lemma map_find_None: "map_find k es = None \<longleftrightarrow> k \<notin> fst ` set es"
  by (simp add: map_find_def map_of_eq_None_iff)

lemma map_find_strict:
  "keys_strict es \<Longrightarrow> map_find k es = Some v \<longleftrightarrow> (k, v) \<in> set es"
  by (auto simp: map_find_def keys_strict_distinct)

lemma map_insert_at:
  assumes "\<And>a. a \<in> set as \<Longrightarrow> fst a < k" "\<And>b. b \<in> set bs \<Longrightarrow> k < fst b"
  shows "map_insert k v (as @ bs) = as @ (k, v) # bs"
  using assms
proof (induction as)
  case Nil
  show ?case
  proof (cases bs)
    case (Cons b cs)
    with Nil(2) [of b] show ?thesis by (cases b) auto
  qed simp
next
  case (Cons a as)
  have "fst a < k" using Cons.prems(1) by simp
  moreover have "map_insert k v (as @ bs) = as @ (k, v) # bs"
    using Cons.prems by (intro Cons.IH) auto
  ultimately show ?case by (cases a) auto
qed

lemma map_erase_at:
  assumes "keys_strict (as @ (k, v) # bs)"
  shows "map_erase k (as @ (k, v) # bs) = as @ bs"
proof -
  have "fst a \<noteq> k" if "a \<in> set as \<union> set bs" for a
    using assms that by (auto simp: sorted_wrt_append)
  then show ?thesis by (auto simp: map_erase_def filter_id_conv)
qed

lemma dropWhile_ge:
  "keys_sorted es \<Longrightarrow> b \<in> set (dropWhile (\<lambda>e. fst e < k) es) \<Longrightarrow> k \<le> fst b"
  by (induction es) (auto split: if_splits)

lemma split_at_key:
  assumes "keys_sorted es"
  obtains as bs where "es = as @ bs" "as = takeWhile (\<lambda>e. fst e < k) es"
    "\<forall>a \<in> set as. fst a < k" "\<forall>b \<in> set bs. k \<le> fst b"
  by (rule that [of "takeWhile (\<lambda>e. fst e < k) es" "dropWhile (\<lambda>e. fst e < k) es"])
    (auto dest: set_takeWhileD dropWhile_ge [OF assms])

lemma map_prev_lower_split:
  assumes "\<And>a. a \<in> set as \<Longrightarrow> fst a < k" "\<And>b. b \<in> set bs \<Longrightarrow> k \<le> fst b"
  shows "map_prev_lower k (as @ bs) = (if as = [] then None else Some (last as))"
proof -
  have "takeWhile (\<lambda>e. fst e < k) (as @ bs) = as"
  proof (cases bs)
    case (Cons b cs)
    with assms(2) [of b] show ?thesis
      using assms(1) by (auto simp: takeWhile_append not_less)
  qed (use assms(1) in \<open>simp add: takeWhile_eq_all_conv\<close>)
  then show ?thesis by (simp add: map_prev_lower_def)
qed

lemma map_insert_new:
  assumes "keys_strict es" "k \<notin> fst ` set es"
  shows "mset (map_insert k v es) = add_mset (k, v) (mset es)" "keys_strict (map_insert k v es)"
proof -
  have "keys_sorted es" using assms(1) by (rule strict_sorted_imp_sorted)
  then obtain as bs where s: "es = as @ bs" "\<forall>a \<in> set as. fst a < k" "\<forall>b \<in> set bs. k \<le> fst b"
    by (rule split_at_key)
  have b: "k < fst b" if "b \<in> set bs" for b
    using s(1,3) assms(2) that by (force simp: order_less_le)
  have "map_insert k v es = as @ (k, v) # bs"
    unfolding s(1) by (rule map_insert_at) (use s(2) b in auto)
  then show "mset (map_insert k v es) = add_mset (k, v) (mset es)" "keys_strict (map_insert k v es)"
    using assms(1) s b by (auto simp: sorted_wrt_append)
qed

lemma mset_map_erase [simp]: "mset (map_erase k es) = filter_mset (\<lambda>e. fst e \<noteq> k) (mset es)"
  by (simp add: map_erase_def)

lemma keys_strict_erase: "keys_strict es \<Longrightarrow> keys_strict (map_erase k es)"
  by (simp add: map_erase_def sorted_wrt_map sorted_wrt_filter)

subsection \<open>Multimaps\<close>

lemma mset_mm_insert [simp]: "mset (mm_insert k v es) = add_mset (k, v) (mset es)"
  by (induction k v es rule: mm_insert.induct) auto

lemma set_mm_insert [simp]: "set (mm_insert k v es) = insert (k, v) (set es)"
  by (induction k v es rule: mm_insert.induct) auto

lemma sorted_mm_insert: "keys_sorted es \<Longrightarrow> keys_sorted (mm_insert k v es)"
  by (induction k v es rule: mm_insert.induct) auto

lemma mset_mm_erase_one [simp]: "mset (mm_erase_one k v es) = mset es - {#(k, v)#}"
  by (simp add: mm_erase_one_def)

lemma sorted_mm_erase_one: "keys_sorted es \<Longrightarrow> keys_sorted (mm_erase_one k v es)"
  by (induction es) (auto simp: mm_erase_one_def dest: notin_set_remove1 in_set_remove1 [THEN iffD1, rotated] split: if_splits)

lemma set_mm_equal_range: "e \<in> set (mm_equal_range k es) \<longleftrightarrow> e \<in> set es \<and> fst e = k"
  by (auto simp: mm_equal_range_def)

lemma set_mm_upper_bound:
  "keys_sorted es \<Longrightarrow> e \<in> set (mm_upper_bound k es) \<longleftrightarrow> e \<in> set es \<and> k < fst e"
  by (induction es) (auto simp: mm_upper_bound_def)

lemma sorted_mm_upper_bound: "keys_sorted es \<Longrightarrow> keys_sorted (mm_upper_bound k es)"
  by (induction es) (auto simp: mm_upper_bound_def)

lemma mm_insert_split: "\<exists>as bs. es = as @ bs \<and> mm_insert k v es = as @ (k, v) # bs"
proof (induction es)
  case (Cons e es)
  obtain k' v' where e: "e = (k', v')" by (cases e)
  obtain as bs where s: "es = as @ bs" "mm_insert k v es = as @ (k, v) # bs" using Cons by blast
  have "e # es = [] @ e # es" "e # es = (e # as) @ bs" using s by simp_all
  moreover have "mm_insert k v (e # es) = (if k < k' then [] @ (k, v) # e # es else (e # as) @ (k, v) # bs)"
    using s by (simp add: e)
  ultimately show ?case by (cases "k < k'") metis+
qed simp

lemma map_find_set_eq:
  assumes "keys_strict es" "distinct (map fst fs)" "set es = set fs"
  shows "map_find k es = map_of fs k"
  using assms keys_strict_distinct [OF assms(1)] map_of_eqI [of es fs]
  by (metis list.set_map map_find_def map_of_eq_Some_iff option.exhaust)

end
