(* ===== verification/File_Enumeration.thy ===== *)
theory File_Enumeration
  imports Winx_List Std_Containers File_Info
begin

text \<open>
  Model of \<open>zen::FileEnumeration\<close> (\<open>zen.hpp\<close>, \<open>zen.cpp\<close>) without \<open>findBest\<close>, which has its own
  theory. The ring \<open>info_\<close> of file objects is the list of their addresses and contents,
  \<open>buckets_\<close> indexes the movable files by their number of clusters, \<open>lcns_\<close> by the first cluster
  of each of their blocks. \<open>lcns_\<close> is built on the first \<open>findAt\<close>; an empty one means not built.

  \<open>None\<close> is a pointer to no live object. The list of files of \<open>winx_scan_disk\<close> and the test of
  a path against the expression of excluded names (\<open>boost::regex_search\<close>) are arguments.
\<close>

record file_enum =
  fe_info :: "(addr \<times> winx_file_info) list"
  buckets :: "(u64, addr) entries"
  lcns :: "(u64, addr) entries"
  unmovable :: "addr list"
  fragmented :: u64
  unprocessable :: u64

definition fderef :: "file_enum \<Rightarrow> addr \<Rightarrow> winx_file_info option" where
  "fderef fe a = map_of (fe_info fe) a"

definition fassign :: "addr \<Rightarrow> winx_file_info \<Rightarrow> file_enum \<Rightarrow> file_enum" where
  "fassign a f fe = fe\<lparr>fe_info := map (\<lambda>e. if fst e = a then (a, f) else e) (fe_info fe)\<rparr>"

definition minlcn :: "winx_blockmap \<Rightarrow> winx_blockmap \<Rightarrow> bool" where
  "minlcn a b \<longleftrightarrow> b_lcn a < b_lcn b"

text \<open>\<open>std::min_element\<close>: the index of the first smallest item, \<open>k\<close> with item \<open>b\<close> so far.\<close>

fun min_element :: "nat \<Rightarrow> winx_blockmap \<Rightarrow> nat \<Rightarrow> winx_blockmap list \<Rightarrow> nat" where
  "min_element k b i [] = k"
| "min_element k b i (c # cs) =
     (if minlcn c b then min_element i c (Suc i) cs else min_element k b (Suc i) cs)"

text \<open>Moving the head pointer of the ring rotates the list of its items.\<close>

definition order_blocks :: "winx_blockmap list \<Rightarrow> winx_blockmap list" where
  "order_blocks bm =
     (case bm of
        [] \<Rightarrow> bm
      | [b] \<Rightarrow> bm
      | b # bs \<Rightarrow> rotate (min_element 0 b 1 bs) bm)"

definition order_file :: "winx_file_info \<Rightarrow> winx_file_info" where
  "order_file f = f\<lparr>f_disp := (f_disp f)\<lparr>d_blockmap := order_blocks (f_blockmap f)\<rparr>\<rparr>"

text \<open>The body of the loop of \<open>scan\<close>, for the file at \<open>a\<close>.\<close>

definition scan_file :: "(wstring option \<Rightarrow> bool) \<Rightarrow> addr \<times> winx_file_info \<Rightarrow> file_enum \<Rightarrow> file_enum" where
  "scan_file excluded e fe =
     (let a = fst e;
          f = (snd e)\<lparr>f_name := None\<rparr>;
          fe = fassign a f fe;
          fe = (if d_fragments (f_disp f) > 1 then fe\<lparr>fragmented := fragmented fe + 1\<rparr> else fe)
      in if f_blockmap f = [] then
           fe\<lparr>unmovable := unmovable fe @ [a], unprocessable := unprocessable fe + 1\<rparr>
         else if excluded (f_path f) then
           fe\<lparr>unmovable := unmovable fe @ [a], unprocessable := unprocessable fe + 1\<rparr>
         else
           let f = order_file f;
               fe = fassign a f fe
           in fe\<lparr>buckets := mm_insert (f_clusters f) a (buckets fe)\<rparr>)"

definition fe_scan :: "(wstring option \<Rightarrow> bool) \<Rightarrow> bool \<Rightarrow> (addr \<times> winx_file_info) list \<Rightarrow>
  file_enum \<Rightarrow> string + file_enum" where
  "fe_scan excluded gTerminated disk fe =
     (let fe = fe\<lparr>fe_info := disk, buckets := [], lcns := [], unmovable := []\<rparr>
      in if disk = [] then
           if gTerminated then Inr fe else Inl ''Failed to gather volume information''
         else Inr (fold (scan_file excluded) disk fe))"

definition fe_new :: "(wstring option \<Rightarrow> bool) \<Rightarrow> bool \<Rightarrow> (addr \<times> winx_file_info) list \<Rightarrow> string + file_enum" where
  "fe_new excluded gTerminated disk =
     fe_scan excluded gTerminated disk
       \<lparr>fe_info = [], buckets = [], lcns = [], unmovable = [], fragmented = 0, unprocessable = 0\<rparr>"

definition insert_lcns :: "addr \<Rightarrow> winx_blockmap list \<Rightarrow> (u64, addr) entries \<Rightarrow> (u64, addr) entries" where
  "insert_lcns a bm es = fold (\<lambda>b. map_insert (b_lcn b) a) bm es"

fun build_lcns :: "file_enum \<Rightarrow> (u64, addr) entries \<Rightarrow> (u64, addr) entries \<Rightarrow> (u64, addr) entries option" where
  "build_lcns fe [] es = Some es"
| "build_lcns fe ((c, a) # bs) es = do {
     f \<leftarrow> fderef fe a;
     build_lcns fe bs (insert_lcns a (f_blockmap f) es)
   }"

definition fe_findAt :: "u64 \<Rightarrow> file_enum \<Rightarrow> (file_enum \<times> addr option) option" where
  "fe_findAt lcn fe = do {
     es \<leftarrow> (if lcns fe = [] then build_lcns fe (buckets fe) [] else Some (lcns fe));
     Some (fe\<lparr>lcns := es\<rparr>, map_find lcn es)
   }"

definition fe_pop :: "addr \<Rightarrow> file_enum \<Rightarrow> file_enum option" where
  "fe_pop a fe = do {
     f \<leftarrow> fderef fe a;
     let fe = (if lcns fe \<noteq> [] then fe\<lparr>lcns := fold (\<lambda>b. map_erase (b_lcn b)) (f_blockmap f) (lcns fe)\<rparr>
               else fe);
     Some (fe\<lparr>buckets := mm_erase_one (f_clusters f) a (buckets fe)\<rparr>)
   }"

definition fe_push :: "addr \<Rightarrow> file_enum \<Rightarrow> file_enum option" where
  "fe_push a fe = do {
     f \<leftarrow> fderef fe a;
     let fe = (if lcns fe \<noteq> [] then fe\<lparr>lcns := insert_lcns a (f_blockmap f) (lcns fe)\<rparr> else fe);
     let f = order_file f;
     let fe = fassign a f fe;
     Some (fe\<lparr>buckets := mm_insert (f_clusters f) a (buckets fe)\<rparr>)
   }"

subsection \<open>Putting the first block first\<close>

lemma min_element_least:
  assumes "k < i" "xs ! k = b" "\<forall>j < i. b_lcn b \<le> b_lcn (xs ! j)" "xs = ys @ cs" "length ys = i"
  shows "min_element k b i cs < length xs \<and> (\<forall>j < length xs. b_lcn (xs ! min_element k b i cs) \<le> b_lcn (xs ! j))"
  using assms
proof (induction cs arbitrary: k b i ys)
  case Nil
  then show ?case by auto
next
  case (Cons c cs)
  have c: "xs ! i = c" using Cons.prems(4,5) by (metis nth_append_length)
  have xs: "xs = (ys @ [c]) @ cs" using Cons.prems(4) by simp
  show ?case
  proof (cases "minlcn c b")
    case True
    have le: "\<forall>j < Suc i. b_lcn c \<le> b_lcn (xs ! j)"
      using True Cons.prems(3) c by (auto simp: minlcn_def less_Suc_eq intro: order_trans [OF less_imp_le])
    have "min_element i c (Suc i) cs < length xs \<and>
        (\<forall>j < length xs. b_lcn (xs ! min_element i c (Suc i) cs) \<le> b_lcn (xs ! j))"
      by (rule Cons.IH [OF _ c le xs]) (use Cons.prems(5) in auto)
    with True show ?thesis by simp
  next
    case False
    have "min_element k b (Suc i) cs < length xs \<and>
        (\<forall>j < length xs. b_lcn (xs ! min_element k b (Suc i) cs) \<le> b_lcn (xs ! j))"
      by (rule Cons.IH [OF _ _ _ xs]) (use False Cons.prems c in \<open>auto simp: minlcn_def less_Suc_eq\<close>)
    with False show ?thesis by simp
  qed
qed

lemma order_blocks_rotate: "\<exists>n. order_blocks bm = rotate n bm"
proof (cases bm)
  case (Cons b bs)
  then show ?thesis by (cases bs) (auto simp: order_blocks_def intro: exI [of _ 0])
qed (auto simp: order_blocks_def)

lemma mset_order_blocks [simp]: "mset (order_blocks bm) = mset bm"
proof -
  obtain n where "order_blocks bm = rotate n bm" using order_blocks_rotate by blast
  then show ?thesis by (simp add: rotate_drop_take) (metis add.commute append_take_drop_id mset_append)
qed

lemma set_order_blocks [simp]: "set (order_blocks bm) = set bm"
  using mset_order_blocks by (metis set_mset_mset)

lemma order_blocks_Nil [simp]: "order_blocks bm = [] \<longleftrightarrow> bm = []"
  using mset_order_blocks [of bm] by (metis mset_zero_iff)

lemma order_blocks_hd:
  assumes "c \<in> set bm"
  shows "b_lcn (hd (order_blocks bm)) \<le> b_lcn c"
proof (cases bm rule: remdups_adj.cases)
  case (3 b d ds)
  let ?n = "min_element 0 b 1 (d # ds)"
  have m: "?n < length bm \<and> (\<forall>j < length bm. b_lcn (bm ! ?n) \<le> b_lcn (bm ! j))"
    by (rule min_element_least [of _ _ bm b "[b]"]) (use 3 in auto)
  then have "hd (rotate ?n bm) = bm ! ?n" using 3 by (metis hd_rotate_conv_nth list.distinct(1) mod_less)
  moreover obtain j where "j < length bm" "c = bm ! j" using assms by (auto simp: in_set_conv_nth)
  moreover have "order_blocks bm = rotate ?n bm" using 3 by (simp add: order_blocks_def)
  ultimately show ?thesis using m by auto
qed (use assms in \<open>auto simp: order_blocks_def\<close>)

subsection \<open>Invariant and abstraction\<close>

text \<open>The blocks of the files in the buckets, by first cluster, and the file at a cluster.\<close>

definition lcn_pairs :: "(addr \<rightharpoonup> winx_file_info) \<Rightarrow> (u64, addr) entries \<Rightarrow> (u64, addr) entries" where
  "lcn_pairs files es = concat (map (\<lambda>(c, a). map (\<lambda>b. (b_lcn b, a)) (f_blockmap (the (files a)))) es)"

definition placed :: "file_enum \<Rightarrow> (u64, addr) entries" where
  "placed fe = lcn_pairs (fderef fe) (buckets fe)"

definition owner :: "file_enum \<Rightarrow> u64 \<Rightarrow> addr option" where
  "owner fe l = map_of (placed fe) l"

definition members :: "file_enum \<Rightarrow> addr set" where
  "members fe = snd ` set (buckets fe)"

definition ordered_file :: "winx_file_info \<Rightarrow> bool" where
  "ordered_file f \<longleftrightarrow> f_blockmap f \<noteq> [] \<and>
     (\<forall>b \<in> set (f_blockmap f). b_lcn (hd (f_blockmap f)) \<le> b_lcn b)"

definition fe_inv :: "file_enum \<Rightarrow> bool" where
  "fe_inv fe \<longleftrightarrow>
     keys_sorted (buckets fe) \<and> distinct (map snd (buckets fe)) \<and>
     (\<forall>(c, a) \<in> set (buckets fe). \<exists>f. fderef fe a = Some f \<and> f_clusters f = c \<and> ordered_file f) \<and>
     distinct (map fst (placed fe)) \<and> keys_strict (lcns fe) \<and>
     (lcns fe = [] \<or> set (lcns fe) = set (placed fe))"

lemma fe_invD:
  assumes "fe_inv fe"
  shows "keys_sorted (buckets fe)" "distinct (map snd (buckets fe))" "distinct (map fst (placed fe))"
    "keys_strict (lcns fe)" "lcns fe = [] \<or> set (lcns fe) = set (placed fe)"
  using assms by (auto simp: fe_inv_def)

lemma fe_inv_file:
  assumes "fe_inv fe" "(c, a) \<in> set (buckets fe)"
  obtains f where "fderef fe a = Some f" "f_clusters f = c" "ordered_file f"
  using assms by (fastforce simp: fe_inv_def)

lemma lcn_pairs_simps [simp]:
  "lcn_pairs files [] = []"
  "lcn_pairs files ((c, a) # es) = map (\<lambda>b. (b_lcn b, a)) (f_blockmap (the (files a))) @ lcn_pairs files es"
  "lcn_pairs files (xs @ ys) = lcn_pairs files xs @ lcn_pairs files ys"
  by (simp_all add: lcn_pairs_def)

lemma lcn_pairs_cong:
  "(\<And>a. a \<in> snd ` set es \<Longrightarrow> files a = files' a) \<Longrightarrow> lcn_pairs files es = lcn_pairs files' es"
  unfolding lcn_pairs_def by (intro arg_cong [of _ _ concat] map_cong) force+

lemma snd_lcn_pairs: "snd ` set (lcn_pairs files es) \<subseteq> snd ` set es"
  by (force simp: lcn_pairs_def)

lemma insert_lcns_new:
  assumes "keys_strict es" "distinct (map b_lcn bm)" "b_lcn ` set bm \<inter> fst ` set es = {}"
  shows "keys_strict (insert_lcns a bm es) \<and>
    set (insert_lcns a bm es) = set es \<union> (\<lambda>b. (b_lcn b, a)) ` set bm"
  using assms
proof (induction bm arbitrary: es)
  case (Cons b bm)
  have k: "b_lcn b \<notin> fst ` set es" using Cons.prems(3) by auto
  note ins = map_insert_new [OF Cons.prems(1) k, of a]
  have s: "set (map_insert (b_lcn b) a es) = insert (b_lcn b, a) (set es)"
    using arg_cong [OF ins(1), of set_mset] by simp
  then have "b_lcn ` set bm \<inter> fst ` set (map_insert (b_lcn b) a es) = {}"
    using Cons.prems(2,3) by auto
  with Cons.IH [OF ins(2)] Cons.prems(2) s show ?case
    by (auto simp: insert_lcns_def)
qed (simp add: insert_lcns_def)

lemma build_lcns_all:
  assumes "\<forall>(c, a) \<in> set bs. fderef fe a \<noteq> None" "keys_strict es"
    "distinct (map fst es @ map fst (lcn_pairs (fderef fe) bs))"
  shows "\<exists>es'. build_lcns fe bs es = Some es' \<and> keys_strict es' \<and>
    set es' = set es \<union> set (lcn_pairs (fderef fe) bs)"
  using assms
proof (induction bs arbitrary: es)
  case (Cons e bs)
  obtain c a where e: "e = (c, a)" by (cases e)
  obtain f where f: "fderef fe a = Some f" using Cons.prems(1) e by auto
  have d: "distinct (map b_lcn (f_blockmap f))" "b_lcn ` set (f_blockmap f) \<inter> fst ` set es = {}"
    using Cons.prems(3) by (auto simp: e f comp_def)
  note ins = insert_lcns_new [OF Cons.prems(2) d, of a]
  let ?es = "insert_lcns a (f_blockmap f) es"
  have "distinct (map fst ?es @ map fst (lcn_pairs (fderef fe) bs))"
    using Cons.prems(3) ins keys_strict_distinct [of ?es] by (auto simp: e f comp_def image_Un image_image)
  then obtain es' where "build_lcns fe bs ?es = Some es'" "keys_strict es'"
    "set es' = set ?es \<union> set (lcn_pairs (fderef fe) bs)"
    using Cons.IH [of ?es] Cons.prems(1) ins by auto
  with ins show ?case by (auto simp: e f)
qed simp

lemma findAt_owner:
  assumes "fe_inv fe"
  shows "\<exists>fe'. fe_findAt l fe = Some (fe', owner fe l) \<and> fe_inv fe' \<and> owner fe' = owner fe \<and>
    buckets fe' = buckets fe \<and> fderef fe' = fderef fe"
proof -
  note d = fe_invD [OF assms]
  have defd: "\<forall>(c, a) \<in> set (buckets fe). fderef fe a \<noteq> None" using assms by (fastforce simp: fe_inv_def)
  obtain es where es: "(if lcns fe = [] then build_lcns fe (buckets fe) [] else Some (lcns fe)) = Some es"
    "keys_strict es" "set es = set (placed fe)"
  proof (cases "lcns fe = []")
    case True
    then show ?thesis
      using build_lcns_all [OF defd, of "[]"] d(3) that by (auto simp: placed_def)
  qed (use d that in auto)
  have same: "fderef (fe\<lparr>lcns := es\<rparr>) = fderef fe" by (simp add: fderef_def fun_eq_iff)
  have pl: "placed (fe\<lparr>lcns := es\<rparr>) = placed fe" by (simp add: placed_def same)
  have "fe_inv (fe\<lparr>lcns := es\<rparr>)" using assms es pl by (simp add: fe_inv_def same)
  moreover have "map_find l es = owner fe l"
    unfolding owner_def by (rule map_find_set_eq [OF es(2) d(3) es(3)])
  ultimately show ?thesis
    using es(1) same pl by (auto simp: fe_findAt_def owner_def fun_eq_iff)
qed


lemma set_fold_erase:
  "set (fold (\<lambda>b. map_erase (b_lcn b)) bm es) = {e \<in> set es. fst e \<notin> b_lcn ` set bm}"
  by (induction bm arbitrary: es) (auto simp: map_erase_def)

lemma strict_fold_erase:
  "keys_strict es \<Longrightarrow> keys_strict (fold (\<lambda>b. map_erase (b_lcn b)) bm es)"
  by (induction bm arbitrary: es) (auto intro: keys_strict_erase)

lemma pop_owner:
  assumes inv: "fe_inv fe" and a: "a \<in> members fe"
  shows "\<exists>fe'. fe_pop a fe = Some fe' \<and> fe_inv fe' \<and> members fe' = members fe - {a} \<and>
    owner fe' = (\<lambda>l. if owner fe l = Some a then None else owner fe l) \<and> fe_info fe' = fe_info fe"
proof -
  note d = fe_invD [OF inv]
  obtain c where ca: "(c, a) \<in> set (buckets fe)" using a by (auto simp: members_def)
  obtain f where f: "fderef fe a = Some f" "f_clusters f = c" "ordered_file f" by (rule fe_inv_file [OF inv ca])
  obtain as bs where bk: "buckets fe = as @ (c, a) # bs" "(c, a) \<notin> set as"
    using split_list_first [OF ca] by blast
  have nin: "a \<notin> snd ` set as" "a \<notin> snd ` set bs" using d(2) bk by auto
  define fe' where "fe' = fe\<lparr>lcns := (if lcns fe \<noteq> [] then fold (\<lambda>b. map_erase (b_lcn b)) (f_blockmap f) (lcns fe) else []),
    buckets := as @ bs\<rparr>"
  have pop: "fe_pop a fe = Some fe'"
    using f bk by (simp add: fe_pop_def fe'_def mm_erase_one_def remove1_append Let_def)
  have same: "fderef fe' = fderef fe" "buckets fe' = as @ bs" by (simp_all add: fe'_def fderef_def fun_eq_iff)
  let ?P = "lcn_pairs (fderef fe)"
  have pl: "placed fe = ?P as @ map (\<lambda>b. (b_lcn b, a)) (f_blockmap f) @ ?P bs" "placed fe' = ?P as @ ?P bs"
    by (simp_all add: placed_def bk f same)
  have na: "(l, a) \<notin> set (?P as)" "(l, a) \<notin> set (?P bs)" for l
    using nin snd_lcn_pairs [of "fderef fe"] by force+
  have dis: "distinct (map fst (?P as @ map (\<lambda>b. (b_lcn b, a)) (f_blockmap f) @ ?P bs))" using d(3) pl by simp
  have mem: "e \<in> set (placed fe') \<longleftrightarrow> e \<in> set (placed fe) \<and> fst e \<notin> b_lcn ` set (f_blockmap f)" for e
    using dis by (force simp: pl)
  have dis': "distinct (map fst (placed fe'))" using dis pl by auto
  have "set (lcns fe') = set (placed fe') \<or> lcns fe' = []" "keys_strict (lcns fe')"
    using d(4,5) mem by (auto simp: fe'_def set_fold_erase strict_fold_erase)
  moreover have "\<forall>(c, a) \<in> set (buckets fe'). \<exists>f. fderef fe' a = Some f \<and> f_clusters f = c \<and> ordered_file f"
    using inv by (auto simp: fe_inv_def same bk)
  ultimately have inv': "fe_inv fe'"
    using d(1,2) dis' by (auto simp: fe_inv_def same(2) bk sorted_append)
  have "owner fe' l = (if owner fe l = Some a then None else owner fe l)" for l
  proof -
    have iff: "owner fe' l = Some x \<longleftrightarrow> owner fe l = Some x \<and> x \<noteq> a" for x
      unfolding owner_def map_of_eq_Some_iff [OF d(3)] map_of_eq_Some_iff [OF dis']
      using dis na by (force simp: pl)
    then show ?thesis by (rule option_drop_eq)
  qed
  moreover have "members fe' = members fe - {a}" using nin by (auto simp: members_def same bk)
  ultimately show ?thesis using pop inv' by (auto simp: fe'_def)
qed

lemma fderef_fassign:
  "fderef fe a \<noteq> None \<Longrightarrow> fderef (fassign a f fe) = (fderef fe)(a \<mapsto> f)"
  by (auto simp: fderef_def fassign_def map_of_assign fun_eq_iff)

lemma fassign_simps [simp]:
  "buckets (fassign a f fe) = buckets fe" "lcns (fassign a f fe) = lcns fe"
  "map fst (fe_info (fassign a f fe)) = map fst (fe_info fe)"
  by (auto simp: fassign_def)

lemma fderef_upd_other [simp]:
  "fderef (fe\<lparr>buckets := x\<rparr>) = fderef fe" "fderef (fe\<lparr>lcns := y\<rparr>) = fderef fe"
  by (simp_all add: fderef_def fun_eq_iff)

lemma order_file_simps [simp]:
  "f_blockmap (order_file f) = order_blocks (f_blockmap f)" "f_clusters (order_file f) = f_clusters f"
  by (simp_all add: order_file_def)

lemma ordered_order_file: "f_blockmap f \<noteq> [] \<Longrightarrow> ordered_file (order_file f)"
  using order_blocks_hd by (auto simp: ordered_file_def)

definition placeable :: "file_enum \<Rightarrow> winx_file_info \<Rightarrow> bool" where
  "placeable fe f \<longleftrightarrow> f_blockmap f \<noteq> [] \<and> distinct (map b_lcn (f_blockmap f)) \<and>
     (\<forall>b \<in> set (f_blockmap f). owner fe (b_lcn b) = None)"

lemma order_blocks_distinct: "distinct (map b_lcn (order_blocks bm)) \<longleftrightarrow> distinct (map b_lcn bm)"
  using mset_order_blocks [of bm] by (metis mset_eq_imp_distinct_iff mset_map)

lemma push_owner:
  assumes inv: "fe_inv fe" and a: "a \<notin> members fe" "fderef fe a = Some f" and pl: "placeable fe f"
  shows "\<exists>fe'. fe_push a fe = Some fe' \<and> fe_inv fe' \<and> members fe' = insert a (members fe) \<and>
    owner fe' = (\<lambda>l. if l \<in> b_lcn ` set (f_blockmap f) then Some a else owner fe l) \<and>
    fderef fe' = (fderef fe)(a \<mapsto> order_file f)"
proof -
  note d = fe_invD [OF inv]
  define g where "g = order_file f"
  obtain as bs where bk: "buckets fe = as @ bs"
    "mm_insert (f_clusters f) a (buckets fe) = as @ (f_clusters f, a) # bs"
    using mm_insert_split [of "buckets fe"] by blast
  define fe' where "fe' = (fassign a g (if lcns fe \<noteq> [] then fe\<lparr>lcns := insert_lcns a (f_blockmap f) (lcns fe)\<rparr> else fe))
    \<lparr>buckets := as @ (f_clusters f, a) # bs\<rparr>"
  have push: "fe_push a fe = Some fe'"
    using a(2) bk by (simp add: fe_push_def fe'_def g_def Let_def)
  have de: "fderef fe' = (fderef fe)(a \<mapsto> g)" using a(2) by (simp add: fe'_def fderef_fassign)
  let ?P = "lcn_pairs (fderef fe)" and ?N = "map (\<lambda>b. (b_lcn b, a)) (f_blockmap g)"
  have nin: "a \<notin> snd ` set as" "a \<notin> snd ` set bs" using a(1) bk by (auto simp: members_def)
  then have "lcn_pairs (fderef fe') as = ?P as" "lcn_pairs (fderef fe') bs = ?P bs"
    by (auto intro!: lcn_pairs_cong simp: de rev_image_eqI)
  then have pf: "placed fe' = ?P as @ ?N @ ?P bs" "placed fe = ?P as @ ?P bs" "buckets fe' = as @ (f_clusters f, a) # bs"
    by (simp_all add: placed_def bk de) (simp_all add: fe'_def de)
  have new: "b_lcn ` set (f_blockmap f) \<inter> fst ` set (placed fe) = {}"
    using pl by (auto simp: placeable_def owner_def map_of_eq_None_iff)
  have dis: "distinct (map fst (placed fe'))"
    using d(3) new pl by (auto simp: pf g_def comp_def placeable_def order_blocks_distinct)
  have lc: "lcns fe' = (if lcns fe \<noteq> [] then insert_lcns a (f_blockmap f) (lcns fe) else [])"
    by (simp add: fe'_def)
  have "keys_strict (lcns fe') \<and> (lcns fe' = [] \<or> set (lcns fe') = set (placed fe'))"
  proof (cases "lcns fe = []")
    case False
    with d(5) new have "b_lcn ` set (f_blockmap f) \<inter> fst ` set (lcns fe) = {}" by auto
    from insert_lcns_new [OF d(4) _ this, of a] pl False d(5) show ?thesis
      by (auto simp: lc pf g_def placeable_def)
  qed (simp add: lc)
  moreover have "\<exists>f. fderef fe' x = Some f \<and> f_clusters f = c \<and> ordered_file f"
    if m: "(c, x) \<in> set (buckets fe')" for c x
  proof (cases "x = a")
    case True
    then have "c = f_clusters f" using m nin by (force simp: pf)
    then show ?thesis using True pl ordered_order_file [of f] by (simp add: de g_def placeable_def)
  next
    case False
    then have "(c, x) \<in> set (buckets fe)" using m by (auto simp: pf bk)
    then show ?thesis using False fe_inv_file [OF inv] by (metis de fun_upd_apply)
  qed
  moreover have "keys_sorted (buckets fe')" "distinct (map snd (buckets fe'))"
    using sorted_mm_insert [OF d(1), of "f_clusters f" a, unfolded bk(2)] d(2) nin by (auto simp: pf bk(1))
  ultimately have inv': "fe_inv fe'" using dis by (auto simp: fe_inv_def)
  have "owner fe' l = (if l \<in> b_lcn ` set (f_blockmap f) then Some a else owner fe l)" for l
  proof (cases "l \<in> b_lcn ` set (f_blockmap f)")
    case True
    then have "(l, a) \<in> set (placed fe')" by (auto simp: pf g_def)
    with dis True show ?thesis by (simp add: owner_def)
  next
    case False
    then have "map_of ?N l = None" by (auto simp: map_of_eq_None_iff g_def)
    with False show ?thesis by (auto simp: owner_def pf map_add_def split: option.splits)
  qed
  then show ?thesis
    using push inv' de by (auto simp: members_def pf bk g_def)
qed


subsection \<open>The contract of the file index\<close>

text \<open>
  What the operations of a defragmentation run rely on: \<open>find\<close> is the lookup of the owner of a
  block, \<open>remove\<close> takes a file out, \<open>settle\<close> changes the data of a file that is out, and \<open>insert\<close>
  puts it back at its new place.
\<close>

locale file_index =
  fixes invar :: "'s \<Rightarrow> bool"
    and own :: "'s \<Rightarrow> u64 \<Rightarrow> addr option"
    and mem :: "'s \<Rightarrow> addr set"
    and fits :: "'s \<Rightarrow> 'f \<Rightarrow> bool"
    and starts :: "'f \<Rightarrow> u64 set"
    and known :: "'s \<Rightarrow> addr \<Rightarrow> bool"
    and find :: "u64 \<Rightarrow> 's \<Rightarrow> ('s \<times> addr option) option"
    and remove :: "addr \<Rightarrow> 's \<Rightarrow> 's option"
    and settle :: "addr \<Rightarrow> 'f \<Rightarrow> 's \<Rightarrow> 's"
    and insert :: "addr \<Rightarrow> 'f \<Rightarrow> 's \<Rightarrow> 's option"
  assumes find_law: "invar s \<Longrightarrow> \<exists>s'. find l s = Some (s', own s l) \<and> invar s' \<and> own s' = own s \<and> mem s' = mem s"
    and remove_law: "invar s \<Longrightarrow> a \<in> mem s \<Longrightarrow> \<exists>s'. remove a s = Some s' \<and> invar s' \<and> known s' a \<and>
      mem s' = mem s - {a} \<and> own s' = (\<lambda>l. if own s l = Some a then None else own s l)"
    and settle_law: "invar s \<Longrightarrow> a \<notin> mem s \<Longrightarrow> known s a \<Longrightarrow>
      invar (settle a f s) \<and> mem (settle a f s) = mem s \<and> own (settle a f s) = own s"
    and insert_law: "invar s \<Longrightarrow> a \<notin> mem s \<Longrightarrow> known s a \<Longrightarrow> fits s f \<Longrightarrow>
      \<exists>s'. insert a f (settle a f s) = Some s' \<and> invar s' \<and> mem s' = Set.insert a (mem s) \<and>
        own s' = (\<lambda>l. if l \<in> starts f then Some a else own s l)"
begin

lemma relocate:
  assumes "invar s" "a \<in> mem s"
    and "\<And>s'. remove a s = Some s' \<Longrightarrow> fits s' f"
  shows "\<exists>s1 s2. remove a s = Some s1 \<and> insert a f (settle a f s1) = Some s2 \<and> invar s2 \<and> mem s2 = mem s \<and>
    own s2 = (\<lambda>l. if l \<in> starts f then Some a else if own s l = Some a then None else own s l)"
proof -
  obtain s1 where s1: "remove a s = Some s1" "invar s1" "known s1 a" "mem s1 = mem s - {a}"
    "own s1 = (\<lambda>l. if own s l = Some a then None else own s l)"
    using remove_law [OF assms(1,2)] by blast
  then have "a \<notin> mem s1" by simp
  from insert_law [OF s1(2) this s1(3) assms(3) [OF s1(1)]]
  obtain s2 where "insert a f (settle a f s1) = Some s2" "invar s2" "mem s2 = Set.insert a (mem s1)"
    "own s2 = (\<lambda>l. if l \<in> starts f then Some a else own s1 l)" by blast
  then show ?thesis using s1 assms(2) by auto
qed

end

lemma settle_keeps:
  assumes inv: "fe_inv fe" and a: "a \<notin> members fe" "fderef fe a \<noteq> None"
  shows "fe_inv (fassign a f fe)" "members (fassign a f fe) = members fe" "owner (fassign a f fe) = owner fe"
proof -
  have de: "fderef (fassign a f fe) x = fderef fe x" if "x \<in> members fe" for x
    using a that by (auto simp: fderef_fassign)
  have pl: "placed (fassign a f fe) = placed fe"
    unfolding placed_def using de by (auto intro!: lcn_pairs_cong simp: members_def)
  then show "owner (fassign a f fe) = owner fe" by (simp add: owner_def fun_eq_iff)
  show "members (fassign a f fe) = members fe" by (simp add: members_def)
  have "\<exists>g. fderef (fassign a f fe) x = Some g \<and> f_clusters g = c \<and> ordered_file g"
    if m: "(c, x) \<in> set (buckets fe)" for c x
  proof -
    have "x \<in> members fe" using m by (force simp: members_def)
    then show ?thesis using fe_inv_file [OF inv m] de [of x] by metis
  qed
  then show "fe_inv (fassign a f fe)"
    using fe_invD [OF inv] pl by (auto simp: fe_inv_def)
qed

interpretation files: file_index fe_inv owner members placeable "\<lambda>f. b_lcn ` set (f_blockmap f)"
  "\<lambda>fe a. fderef fe a \<noteq> None" fe_findAt fe_pop fassign "\<lambda>a f. fe_push a"
proof (unfold_locales, goal_cases)
  case (1 s l)
  from findAt_owner [OF this, of l] show ?case by (auto simp: members_def)
next
  case (2 s a)
  obtain c f where "fderef s a = Some f" using 2 by (auto simp: members_def elim: fe_inv_file)
  then show ?case using pop_owner [OF 2] by (auto simp: fderef_def)
next
  case (3 s a f)
  then show ?case using settle_keeps by blast
next
  case (4 s a f)
  note k = settle_keeps [OF 4(1-3), of f]
  have "placeable (fassign a f s) f" using 4(4) by (simp add: placeable_def k)
  from push_owner [OF k(1) _ _ this, of a, unfolded k] show ?case
    using 4(2,3) by (auto simp: fderef_fassign)
qed


subsection \<open>Scanning\<close>

definition movable :: "(wstring option \<Rightarrow> bool) \<Rightarrow> winx_file_info \<Rightarrow> bool" where
  "movable excluded f \<longleftrightarrow> f_blockmap f \<noteq> [] \<and> \<not> excluded (f_path f)"

lemma fe_counters [simp]:
  "fderef (fe\<lparr>fragmented := x\<rparr>) = fderef fe" "fderef (fe\<lparr>unmovable := u\<rparr>) = fderef fe"
  "fderef (fe\<lparr>unprocessable := x\<rparr>) = fderef fe"
  by (simp_all add: fderef_def fun_eq_iff)

lemma fe_inv_counters [simp]:
  "placed (fe\<lparr>fragmented := x\<rparr>) = placed fe" "placed (fe\<lparr>unmovable := u\<rparr>) = placed fe"
  "placed (fe\<lparr>unprocessable := x\<rparr>) = placed fe"
  "members (fe\<lparr>fragmented := x\<rparr>) = members fe" "members (fe\<lparr>unmovable := u\<rparr>) = members fe"
  "members (fe\<lparr>unprocessable := x\<rparr>) = members fe"
  "fe_inv (fe\<lparr>fragmented := x\<rparr>) = fe_inv fe" "fe_inv (fe\<lparr>unmovable := u\<rparr>) = fe_inv fe"
  "fe_inv (fe\<lparr>unprocessable := x\<rparr>) = fe_inv fe"
  "owner (fe\<lparr>fragmented := x\<rparr>) = owner fe" "owner (fe\<lparr>unmovable := u\<rparr>) = owner fe"
  "owner (fe\<lparr>unprocessable := x\<rparr>) = owner fe"
  by (simp_all add: placed_def members_def fe_inv_def owner_def fun_eq_iff)

definition lost_name :: "winx_file_info \<Rightarrow> winx_file_info" where
  "lost_name f = f\<lparr>f_name := None\<rparr>"

lemma scan_file_cases:
  fixes f
  assumes "lcns fe = []" "fderef fe a \<noteq> None"
  defines "k \<equiv> if d_fragments (f_disp f) > 1 then 1 else 0 :: u64"
  defines "fe1 \<equiv> (fassign a (lost_name f) fe)\<lparr>fragmented := fragmented fe + k\<rparr>"
  shows "movable excluded f \<Longrightarrow> fe_push a fe1 = Some (scan_file excluded (a, f) fe)"
    and "\<not> movable excluded f \<Longrightarrow> scan_file excluded (a, f) fe =
      fe1\<lparr>unmovable := unmovable fe @ [a], unprocessable := unprocessable fe + 1\<rparr>"
    and "movable excluded f \<Longrightarrow> unmovable (scan_file excluded (a, f) fe) = unmovable fe \<and>
      unprocessable (scan_file excluded (a, f) fe) = unprocessable fe \<and>
      fragmented (scan_file excluded (a, f) fe) = fragmented fe + k \<and> lcns (scan_file excluded (a, f) fe) = []"
proof -
  define fe0 where "fe0 = fassign a (lost_name f) fe"
  have fe1: "fe1 = (if d_fragments (f_disp f) > 1 then fe0\<lparr>fragmented := fragmented fe0 + 1\<rparr> else fe0)"
    by (simp add: fe1_def k_def fe0_def fassign_def)
  have l: "lcns fe1 = []" "fderef fe1 a = Some (lost_name f)" "unmovable fe1 = unmovable fe"
    "unprocessable fe1 = unprocessable fe" "fragmented fe1 = fragmented fe + k"
    using assms(1,2) by (auto simp: fe1_def fderef_fassign) (simp_all add: fassign_def)
  have g: "f_blockmap (lost_name f) = f_blockmap f" "f_path (lost_name f) = f_path f" "f_disp (lost_name f) = f_disp f"
    by (simp_all add: lost_name_def)
  have s: "scan_file excluded (a, f) fe =
      (if movable excluded f
       then (fassign a (order_file (lost_name f)) fe1)\<lparr>buckets := mm_insert (f_clusters f) a (buckets fe1)\<rparr>
       else fe1\<lparr>unmovable := unmovable fe1 @ [a], unprocessable := unprocessable fe1 + 1\<rparr>)"
    unfolding scan_file_def fst_conv snd_conv Let_def lost_name_def [symmetric] fe0_def [symmetric]
      g fe1 [symmetric] by (simp add: movable_def g)
  show "movable excluded f \<Longrightarrow> fe_push a fe1 = Some (scan_file excluded (a, f) fe)"
    by (simp add: s fe_push_def l g Let_def)
  show "\<not> movable excluded f \<Longrightarrow> scan_file excluded (a, f) fe =
      fe1\<lparr>unmovable := unmovable fe @ [a], unprocessable := unprocessable fe + 1\<rparr>"
    by (simp add: s l)
  show "movable excluded f \<Longrightarrow> unmovable (scan_file excluded (a, f) fe) = unmovable fe \<and>
      unprocessable (scan_file excluded (a, f) fe) = unprocessable fe \<and>
      fragmented (scan_file excluded (a, f) fe) = fragmented fe + k \<and> lcns (scan_file excluded (a, f) fe) = []"
    using l by (simp add: s fassign_def)
qed

lemma scan_file_step:
  fixes f excluded
  assumes inv: "fe_inv fe" "lcns fe = []" and a: "a \<notin> members fe" "fderef fe a \<noteq> None"
    and pl: "movable excluded f \<Longrightarrow> placeable fe f"
  defines "fe' \<equiv> scan_file excluded (a, f) fe"
  shows "fe_inv fe' \<and> lcns fe' = [] \<and>
    members fe' = (if movable excluded f then insert a (members fe) else members fe) \<and>
    owner fe' = (\<lambda>l. if movable excluded f \<and> l \<in> b_lcn ` set (f_blockmap f) then Some a else owner fe l) \<and>
    fderef fe' = (fderef fe)(a \<mapsto> if movable excluded f then order_file (lost_name f) else lost_name f) \<and>
    unmovable fe' = unmovable fe @ (if movable excluded f then [] else [a]) \<and>
    unprocessable fe' = unprocessable fe + (if movable excluded f then 0 else 1) \<and>
    fragmented fe' = fragmented fe + (if d_fragments (f_disp f) > 1 then 1 else 0)"
proof -
  define k where "k = (if d_fragments (f_disp f) > 1 then 1 else 0 :: u64)"
  define fe1 where "fe1 = (fassign a (lost_name f) fe)\<lparr>fragmented := fragmented fe + k\<rparr>"
  note c = scan_file_cases [OF inv(2) a(2), where f = f and excluded = excluded, folded k_def, folded fe1_def fe'_def]
  note st = settle_keeps [OF inv(1) a, of "lost_name f"]
  have f1: "fe_inv fe1" "members fe1 = members fe" "owner fe1 = owner fe"
    "fderef fe1 = (fderef fe)(a \<mapsto> lost_name f)"
    using st a(2) by (simp_all add: fe1_def fderef_fassign)
  have o1: "lcns fe1 = []" "fragmented fe1 = fragmented fe + k"
    using inv(2) by (simp_all add: fe1_def)
  show ?thesis
  proof (cases "movable excluded f")
    case True
    have pl1: "placeable fe1 (lost_name f)"
      using pl [OF True] f1(3) by (simp add: placeable_def lost_name_def)
    have am: "a \<notin> members fe1" "fderef fe1 a = Some (lost_name f)" using a f1 by simp_all
    from push_owner [OF f1(1) am pl1] c(1) [OF True]
    have "fe_inv fe'" "members fe' = insert a (members fe)"
      "owner fe' = (\<lambda>l. if l \<in> b_lcn ` set (f_blockmap f) then Some a else owner fe l)"
      "fderef fe' = (fderef fe)(a \<mapsto> order_file (lost_name f))"
      by (auto simp: f1 lost_name_def)
    with c(3) [OF True] True show ?thesis by (simp add: k_def)
  next
    case False
    with c(2) [OF False] f1 o1 show ?thesis by (auto simp: k_def)
  qed
qed

lemma scan_fold:
  fixes excluded
  assumes "fe_inv fe" "lcns fe = []" "distinct (map fst es)" "\<forall>(a, f) \<in> set es. a \<notin> members fe \<and> fderef fe a \<noteq> None"
    and "distinct (map b_lcn (concat (map (f_blockmap \<circ> snd) (filter (movable excluded \<circ> snd) es))))"
    and "\<forall>(a, f) \<in> set es. movable excluded f \<longrightarrow> (\<forall>b \<in> set (f_blockmap f). owner fe (b_lcn b) = None)"
  defines "fe' \<equiv> fold (scan_file excluded) es fe"
  shows "fe_inv fe' \<and> members fe' = members fe \<union> fst ` {e \<in> set es. movable excluded (snd e)} \<and>
    unmovable fe' = unmovable fe @ map fst (filter (\<lambda>e. \<not> movable excluded (snd e)) es) \<and>
    unprocessable fe' = unprocessable fe + of_nat (length (filter (\<lambda>e. \<not> movable excluded (snd e)) es)) \<and>
    fragmented fe' = fragmented fe + of_nat (length (filter (\<lambda>e. d_fragments (f_disp (snd e)) > 1) es))"
  using assms(1-6) unfolding fe'_def
proof (induction es arbitrary: fe)
  case (Cons e es)
  obtain a f where e: "e = (a, f)" by (cases e)
  have pl: "placeable fe f" if "movable excluded f"
    using Cons.prems(5,6) that by (auto simp: e placeable_def movable_def)
  have a: "a \<notin> members fe" "fderef fe a \<noteq> None" using Cons.prems(4) by (auto simp: e)
  define fe1 where "fe1 = scan_file excluded (a, f) fe"
  note st1 = scan_file_step [where excluded = excluded, OF Cons.prems(1,2) a pl, simplified, folded fe1_def]
  have pre: "\<forall>(x, g) \<in> set es. x \<notin> members fe1 \<and> fderef fe1 x \<noteq> None"
    using Cons.prems(3,4) st1 by (auto simp: e rev_image_eqI split: if_splits)
  have own: "\<forall>(x, g) \<in> set es. movable excluded g \<longrightarrow> (\<forall>b \<in> set (f_blockmap g). owner fe1 (b_lcn b) = None)"
  proof (clarify)
    fix x g b assume x: "(x, g) \<in> set es" "movable excluded g" "b \<in> set (f_blockmap g)"
    have "b_lcn b \<notin> b_lcn ` set (f_blockmap f)" if "movable excluded f"
      using Cons.prems(5) that x by (force simp: e)
    moreover have "owner fe (b_lcn b) = None" using Cons.prems(6) x by auto
    moreover have "owner fe1 (b_lcn b) =
        (if movable excluded f \<and> b_lcn b \<in> b_lcn ` set (f_blockmap f) then Some a else owner fe (b_lcn b))"
      using st1 by simp
    ultimately show "owner fe1 (b_lcn b) = None" by auto
  qed
  have "distinct (map b_lcn (concat (map (f_blockmap \<circ> snd) (filter (movable excluded \<circ> snd) es))))"
    using Cons.prems(5) by (auto simp: e comp_def split: if_splits)
  from Cons.IH [of fe1, OF _ _ _ pre this own] st1 Cons.prems(3)
  have ih: "fe_inv (fold (scan_file excluded) es fe1) \<and>
      members (fold (scan_file excluded) es fe1) = members fe1 \<union> fst ` {e \<in> set es. movable excluded (snd e)} \<and>
      unmovable (fold (scan_file excluded) es fe1) = unmovable fe1 @ map fst (filter (\<lambda>e. \<not> movable excluded (snd e)) es) \<and>
      unprocessable (fold (scan_file excluded) es fe1) = unprocessable fe1 + of_nat (length (filter (\<lambda>e. \<not> movable excluded (snd e)) es)) \<and>
      fragmented (fold (scan_file excluded) es fe1) = fragmented fe1 + of_nat (length (filter (\<lambda>e. d_fragments (f_disp (snd e)) > 1) es))"
    by (simp add: e)
  moreover have "fst ` {x \<in> set (e # es). movable excluded (snd x)} =
      (if movable excluded f then insert a (fst ` {x \<in> set es. movable excluded (snd x)})
       else fst ` {x \<in> set es. movable excluded (snd x)})"
    by (force simp: e)
  ultimately show ?case
    using st1 by (simp add: e fe1_def [symmetric] add.assoc)
qed simp

subsection \<open>A small disk\<close>

definition demo_file :: "u64 \<Rightarrow> u64 \<Rightarrow> winx_blockmap list \<Rightarrow> winx_file_info" where
  "demo_file c n bm = \<lparr>f_name = Some [], f_path = Some (wstr ''C:''), f_flags = 0,
     f_disp = \<lparr>d_clusters = c, d_fragments = n, d_blockmap = bm\<rparr>, f_user_defined_flags = 0,
     f_internal = \<lparr>BaseMftId = 5, ParentDirectoryMftId = 5\<rparr>, f_creation_time = 0,
     f_last_modification_time = 0, f_last_access_time = 0\<rparr>"

definition demo_disk :: "(addr \<times> winx_file_info) list" where
  "demo_disk = [(100, demo_file 7 2 [\<lparr>b_vcn = 0, b_lcn = 50, b_length = 4\<rparr>, \<lparr>b_vcn = 4, b_lcn = 40, b_length = 3\<rparr>]),
     (200, demo_file 0 0 []), (300, demo_file 2 1 [\<lparr>b_vcn = 0, b_lcn = 60, b_length = 2\<rparr>])]"

definition demo_files :: file_enum where
  "demo_files = projr (fe_new (\<lambda>p. False) False demo_disk)"

lemma demo_files_eval:
  "demo_files = \<lparr>fe_info = [(100, (demo_file 7 2 [\<lparr>b_vcn = 4, b_lcn = 40, b_length = 3\<rparr>, \<lparr>b_vcn = 0, b_lcn = 50, b_length = 4\<rparr>])\<lparr>f_name := None\<rparr>),
      (200, (demo_file 0 0 [])\<lparr>f_name := None\<rparr>), (300, (demo_file 2 1 [\<lparr>b_vcn = 0, b_lcn = 60, b_length = 2\<rparr>])\<lparr>f_name := None\<rparr>)],
     buckets = [(2, 300), (7, 100)], lcns = [], unmovable = [200], fragmented = 1, unprocessable = 1\<rparr>"
  by (simp add: demo_files_def demo_disk_def demo_file_def fe_new_def fe_scan_def scan_file_def Let_def
      fassign_def order_file_def order_blocks_def minlcn_def rotate1_def)

subsection \<open>Properties\<close>

text \<open>
  C18: a scan of the disk puts exactly the files with a block map and no excluded name into the
  index, ordered so that the first block of each is its lowest, lists the others as unmovable,
  counts both kinds, and leaves the indexes consistent.
\<close>

theorem file_scan_partition:
  assumes "disk \<noteq> []" "distinct (map fst disk)"
    "distinct (map b_lcn (concat (map (f_blockmap \<circ> snd) (filter (movable excluded \<circ> snd) disk))))"
  shows "\<exists>fe. fe_new excluded gTerminated disk = Inr fe \<and> fe_inv fe \<and>
    members fe = fst ` {e \<in> set disk. movable excluded (snd e)} \<and>
    unmovable fe = map fst (filter (\<lambda>e. \<not> movable excluded (snd e)) disk) \<and>
    unprocessable fe = of_nat (length (unmovable fe)) \<and>
    fragmented fe = of_nat (length (filter (\<lambda>e. d_fragments (f_disp (snd e)) > 1) disk))"
proof -
  define fe where "fe = \<lparr>fe_info = disk, buckets = [], lcns = [], unmovable = [], fragmented = 0, unprocessable = 0\<rparr>"
  have "fe_inv fe" "members fe = {}" "lcns fe = []" "owner fe l = None" for l
    by (simp_all add: fe_def fe_inv_def placed_def members_def owner_def)
  moreover have "\<forall>(a, f) \<in> set disk. fderef fe a \<noteq> None"
    using assms(2) by (auto simp: fe_def fderef_def)
  ultimately show ?thesis
    using scan_fold [of fe disk excluded] assms by (auto simp: fe_new_def fe_scan_def fe_def)
qed

theorem file_scan_partition_witness:
  "\<exists>fe. fe_new (\<lambda>p. False) False demo_disk = Inr fe \<and> fe_inv fe \<and>
    members fe = fst ` {e \<in> set demo_disk. movable (\<lambda>p. False) (snd e)} \<and>
    unmovable fe = map fst (filter (\<lambda>e. \<not> movable (\<lambda>p. False) (snd e)) demo_disk) \<and>
    unprocessable fe = of_nat (length (unmovable fe)) \<and>
    fragmented fe = of_nat (length (filter (\<lambda>e. d_fragments (f_disp (snd e)) > 1) demo_disk))"
  by (rule file_scan_partition) (simp_all add: demo_disk_def demo_file_def movable_def)

lemma demo_files_inv: "fe_inv demo_files"
  by (simp add: demo_files_eval demo_file_def fe_inv_def placed_def fderef_def ordered_file_def)

text \<open>
  C19: \<open>findAt\<close> answers with the file that has a block starting at the cluster, and with \<open>nullptr\<close>
  if there is none, whether or not its index has been built before; it changes no file.
\<close>

theorem file_findAt_owner:
  assumes "fe_inv fe"
  shows "\<exists>fe'. fe_findAt l fe = Some (fe', owner fe l) \<and> fe_inv fe' \<and> owner fe' = owner fe \<and>
    buckets fe' = buckets fe \<and> fderef fe' = fderef fe"
  by (rule findAt_owner [OF assms])

theorem file_findAt_owner_witness:
  "owner demo_files 50 = Some 100 \<and> owner demo_files 51 = None \<and>
   (\<exists>fe'. fe_findAt 50 demo_files = Some (fe', owner demo_files 50) \<and> fe_inv fe' \<and> owner fe' = owner demo_files \<and>
    buckets fe' = buckets demo_files \<and> fderef fe' = fderef demo_files)"
  using file_findAt_owner [OF demo_files_inv, of 50]
  by (simp add: demo_files_eval demo_file_def owner_def placed_def fderef_def)

text \<open>
  C20: taking a file out of the index, giving it a new block map at free clusters and putting it back
  (\<open>pop\<close>, update, \<open>push\<close>) keeps the indexes consistent; afterwards the new blocks find the file,
  its old ones find nothing, and every other lookup is unchanged.
\<close>

theorem file_relocate:
  assumes "fe_inv fe" "a \<in> members fe" "\<And>fe'. fe_pop a fe = Some fe' \<Longrightarrow> placeable fe' f"
  shows "\<exists>fe1 fe2. fe_pop a fe = Some fe1 \<and> fe_push a (fassign a f fe1) = Some fe2 \<and> fe_inv fe2 \<and>
    members fe2 = members fe \<and>
    owner fe2 = (\<lambda>l. if l \<in> b_lcn ` set (f_blockmap f) then Some a
                     else if owner fe l = Some a then None else owner fe l)"
  by (rule files.relocate [OF assms])

theorem file_relocate_witness:
  "\<exists>fe1 fe2. fe_pop 100 demo_files = Some fe1 \<and>
    fe_push 100 (fassign 100 (demo_file 7 1 [\<lparr>b_vcn = 0, b_lcn = 10, b_length = 7\<rparr>]) fe1) = Some fe2 \<and> fe_inv fe2 \<and>
    members fe2 = members demo_files \<and>
    owner fe2 = (\<lambda>l. if l \<in> b_lcn ` set (f_blockmap (demo_file 7 1 [\<lparr>b_vcn = 0, b_lcn = 10, b_length = 7\<rparr>])) then Some 100
                     else if owner demo_files l = Some 100 then None else owner demo_files l)"
proof (rule file_relocate [OF demo_files_inv])
  show "100 \<in> members demo_files" by (simp add: members_def demo_files_eval)
  fix fe' assume "fe_pop 100 demo_files = Some fe'"
  then show "placeable fe' (demo_file 7 1 [\<lparr>b_vcn = 0, b_lcn = 10, b_length = 7\<rparr>])"
    by (auto simp: fe_pop_def demo_files_eval demo_file_def fderef_def placeable_def owner_def placed_def
        mm_erase_one_def)
qed

end
