(* ===== verification/Find_Best.thy ===== *)
theory Find_Best
  imports File_Enumeration
begin

text \<open>
  Model of \<open>FileEnumeration::findBest\<close> (\<open>zen.cpp\<close>): which files to move into the gap of \<open>len\<close>
  clusters at \<open>lcn\<close>. A single file of the exact size is preferred; otherwise large gaps are filled
  greedily, and the last \<open>maxlen\<close> clusters by a knapsack over a bounded list of candidates.

  A returned pointer list is a list of addresses; \<open>None\<close> is a dereferenced \<open>NULL\<close> or dangling
  pointer. The table of the knapsack is kept one row at a time, as each row only reads the row
  before it.
\<close>

definition maxlen :: u64 where
  "maxlen = 256"

text \<open>\<open>f->disp.blockmap->lcn\<close>\<close>

definition head_lcn :: "file_enum \<Rightarrow> addr \<Rightarrow> u64 option" where
  "head_lcn fe a = do {
     f \<leftarrow> fderef fe a;
     (case f_blockmap f of [] \<Rightarrow> None | b # _ \<Rightarrow> Some (b_lcn b))
   }"

fun perfect_loop :: "file_enum \<Rightarrow> u64 \<Rightarrow> (u64, addr) entries \<Rightarrow> addr option \<Rightarrow> addr option option" where
  "perfect_loop fe lcn [] perfect = Some perfect"
| "perfect_loop fe lcn ((k, a) # es) perfect = do {
     h \<leftarrow> head_lcn fe a;
     if h \<le> lcn then perfect_loop fe lcn es perfect
     else case perfect of
       None \<Rightarrow> perfect_loop fe lcn es (Some a)
     | Some p \<Rightarrow> do {
         hp \<leftarrow> head_lcn fe p;
         perfect_loop fe lcn es (if hp < h then Some a else Some p)
       }
   }"

text \<open>\<open>known_\<close> is a multimap with the largest key first.\<close>

fun known_insert :: "u64 \<Rightarrow> addr \<Rightarrow> (u64, addr) entries \<Rightarrow> (u64, addr) entries" where
  "known_insert k v [] = [(k, v)]"
| "known_insert k v ((k', v') # es) =
     (if k' < k then (k, v) # (k', v') # es else (k', v') # known_insert k v es)"

text \<open>The loop over \<open>known_.equal_range\<close>: the first entry in front of \<open>h\<close>, if any.\<close>

fun first_before :: "file_enum \<Rightarrow> u64 \<Rightarrow> (u64, addr) entries \<Rightarrow> (u64 \<times> addr) option option" where
  "first_before fe h [] = Some None"
| "first_before fe h ((k, a) # es) = do {
     ha \<leftarrow> head_lcn fe a;
     if ha \<ge> h then first_before fe h es else Some (Some (k, a))
   }"

definition known_update :: "file_enum \<Rightarrow> u64 \<Rightarrow> addr \<Rightarrow> u64 \<Rightarrow> (u64, addr) entries \<Rightarrow> (u64, addr) entries option" where
  "known_update fe k a h known = do {
     let n = length (mm_equal_range k known);
     let known = (if (k < 4 \<and> n < 1) \<or> n < 4 then known_insert k a known else known);
     r \<leftarrow> first_before fe h (mm_equal_range k known);
     (case r of
        None \<Rightarrow> Some known
      | Some e \<Rightarrow> Some (known_insert k a (remove1 e known)))
   }"

fun cand_loop :: "file_enum \<Rightarrow> u64 \<Rightarrow> (u64, addr) entries \<Rightarrow> u64 \<Rightarrow> addr list \<Rightarrow> (u64, addr) entries \<Rightarrow>
  (u64 \<times> addr list \<times> (u64, addr) entries) option" where
  "cand_loop fe lcn [] len rvs known = Some (len, rvs, known)"
| "cand_loop fe lcn ((k, a) # es) len rvs known =
     (if len = 0 then Some (len, rvs, known)
      else if k > len then cand_loop fe lcn es len rvs known
      else do {
        h \<leftarrow> head_lcn fe a;
        if h \<le> lcn then cand_loop fe lcn es len rvs known
        else if len > maxlen then do {
          f \<leftarrow> fderef fe a;
          if len \<ge> f_clusters f then cand_loop fe lcn es (len - f_clusters f) (rvs @ [a]) known
          else cand_loop fe lcn es len rvs known
        }
        else do {
          known \<leftarrow> known_update fe k a h known;
          cand_loop fe lcn es len rvs known
        }
      })"

record sol_t =
  sol_value :: u64
  sol_items :: "bool list"

definition sol_zero :: sol_t where
  "sol_zero = \<lparr>sol_value = 0, sol_items = []\<rparr>"

definition items_count :: "sol_t \<Rightarrow> nat" where
  "items_count s = length (filter id (sol_items s))"

definition sol_less :: "sol_t \<Rightarrow> sol_t \<Rightarrow> bool" where
  "sol_less s t \<longleftrightarrow>
     (if sol_value s = sol_value t then items_count s > items_count t else sol_value s < sol_value t)"

definition sol_add :: "nat \<Rightarrow> sol_t \<Rightarrow> sol_t" where
  "sol_add i s =
     (let items = (if length (sol_items s) \<le> i
                   then sol_items s @ replicate (i + 1 - length (sol_items s)) False else sol_items s)
      in s\<lparr>sol_items := items[i := True]\<rparr>)"

text \<open>\<open>solutions[i + 1][w]\<close> from the row \<open>solutions[i]\<close> and the size of candidate \<open>i\<close>.\<close>

definition dp_cell :: "nat \<Rightarrow> u64 \<Rightarrow> sol_t list \<Rightarrow> nat \<Rightarrow> sol_t" where
  "dp_cell i candw row w =
     (if w = 0 then sol_zero
      else if unat candw \<le> w then
        let candsol = row ! (w - unat candw);
            candsol = candsol\<lparr>sol_value := sol_value candsol + candw\<rparr>;
            candsol = sol_add i candsol
        in if sol_less (row ! w) candsol then candsol else row ! w
      else row ! w)"

fun dp_rows :: "nat \<Rightarrow> nat \<Rightarrow> u64 list \<Rightarrow> sol_t list \<Rightarrow> sol_t list" where
  "dp_rows nlength i [] row = row"
| "dp_rows nlength i (c # cs) row =
     dp_rows nlength (Suc i) cs (map (dp_cell i c row) [0..<nlength + 1])"

definition knapsack :: "u64 list \<Rightarrow> nat \<Rightarrow> sol_t" where
  "knapsack ws nlength = dp_rows nlength 0 ws (replicate (nlength + 1) sol_zero) ! nlength"

definition chosen :: "'a list \<Rightarrow> bool list \<Rightarrow> 'a list" where
  "chosen cands items = map ((!) cands) (filter ((!) items) [0..<length items])"

fun sizes_of :: "file_enum \<Rightarrow> addr list \<Rightarrow> u64 list option" where
  "sizes_of fe [] = Some []"
| "sizes_of fe (a # as) = do {
     f \<leftarrow> fderef fe a;
     cs \<leftarrow> sizes_of fe as;
     Some (f_clusters f # cs)
   }"

definition fe_findBest :: "u64 \<Rightarrow> u64 \<Rightarrow> bool \<Rightarrow> file_enum \<Rightarrow> addr list option" where
  "fe_findBest lcn len partialOK fe = do {
     perfect \<leftarrow> perfect_loop fe lcn (mm_equal_range len (buckets fe)) None;
     (case perfect of
        Some p \<Rightarrow> Some [p]
      | None \<Rightarrow> do {
          (len, rvs, known) \<leftarrow> cand_loop fe lcn (rev (takeWhile (\<lambda>e. fst e \<le> len) (buckets fe))) len [] [];
          if len = 0 then Some rvs
          else
            let cands = map snd known;
                ncands = length cands
            in do {
              ws \<leftarrow> sizes_of fe cands;
              if ncands = 0 then Some (if \<not> partialOK then [] else rvs)
              else if ncands = 1 then
                Some (if ws ! 0 = len then rvs @ [cands ! 0]
                      else if partialOK then if ws ! 0 \<le> len then rvs @ [cands ! 0] else rvs
                      else [])
              else
                let solution = knapsack ws (unat len)
                in if \<not> partialOK \<and> sol_value solution \<noteq> len then Some []
                   else Some (rvs @ chosen cands (sol_items solution))
            }
        })
   }"

subsection \<open>The knapsack\<close>

definition picked :: "bool list \<Rightarrow> nat set" where
  "picked items = {j. j < length items \<and> items ! j}"

definition weight :: "u64 list \<Rightarrow> nat set \<Rightarrow> nat" where
  "weight ws S = (\<Sum>j \<in> S. unat (ws ! j))"

text \<open>A solution for the first \<open>n\<close> candidates and capacity \<open>w\<close>: it is a set of them that fits, no
  set that fits is heavier, and none as heavy is smaller.\<close>

definition sol_opt :: "u64 list \<Rightarrow> nat \<Rightarrow> nat \<Rightarrow> sol_t \<Rightarrow> bool" where
  "sol_opt ws n w s \<longleftrightarrow>
     length (sol_items s) \<le> n \<and> unat (sol_value s) = weight ws (picked (sol_items s)) \<and> unat (sol_value s) \<le> w \<and>
     (\<forall>S. S \<subseteq> {..<n} \<longrightarrow> weight ws S \<le> w \<longrightarrow>
       weight ws S < unat (sol_value s) \<or> weight ws S = unat (sol_value s) \<and> items_count s \<le> card S)"

lemma sol_optI:
  assumes "length (sol_items s) \<le> n" "unat (sol_value s) = weight ws (picked (sol_items s))" "unat (sol_value s) \<le> w"
    "\<And>S. S \<subseteq> {..<n} \<Longrightarrow> weight ws S \<le> w \<Longrightarrow>
       weight ws S < unat (sol_value s) \<or> weight ws S = unat (sol_value s) \<and> items_count s \<le> card S"
  shows "sol_opt ws n w s"
  using assms by (simp add: sol_opt_def)

lemma sol_optD:
  assumes "sol_opt ws n w s"
  shows "length (sol_items s) \<le> n" "unat (sol_value s) = weight ws (picked (sol_items s))" "unat (sol_value s) \<le> w"
    "S \<subseteq> {..<n} \<Longrightarrow> weight ws S \<le> w \<Longrightarrow>
       weight ws S < unat (sol_value s) \<or> weight ws S = unat (sol_value s) \<and> items_count s \<le> card S"
  using assms unfolding sol_opt_def by blast+

lemma finite_picked [simp]: "finite (picked items)"
  by (simp add: picked_def)

lemma items_count_picked: "items_count s = card (picked (sol_items s))"
proof -
  have "picked (sol_items s) = {i. i < length (sol_items s) \<and> id (sol_items s ! i)}" by (simp add: picked_def)
  then show ?thesis unfolding items_count_def by (simp only: length_filter_conv_card)
qed

lemma picked_add:
  assumes "length (sol_items s) \<le> i"
  shows "picked (sol_items (sol_add i s)) = insert i (picked (sol_items s))"
    "length (sol_items (sol_add i s)) = Suc i" "sol_value (sol_add i s) = sol_value s"
  using assms by (auto simp: picked_def sol_add_def Let_def nth_append nth_list_update split: if_splits)

lemma picked_less: "j \<in> picked items \<Longrightarrow> j < length items"
  by (simp add: picked_def)

lemma sol_opt_zero: "sol_opt ws 0 w sol_zero"
  by (simp add: sol_opt_def sol_zero_def picked_def weight_def items_count_def)

lemma weight_insert: "finite S \<Longrightarrow> i \<notin> S \<Longrightarrow> weight ws (insert i S) = unat (ws ! i) + weight ws S"
  by (simp add: weight_def)

lemma sol_opt_zero_capacity:
  "sol_opt ws n 0 sol_zero"
  by (simp add: sol_opt_def sol_zero_def picked_def weight_def items_count_def)

lemma candsol_value:
  assumes s: "sol_opt ws i (w - unat c) s" and c: "unat c \<le> w" "w < 2 ^ 64" "ws ! i = c"
  defines "t \<equiv> sol_add i (s\<lparr>sol_value := sol_value s + c\<rparr>)"
  shows "unat (sol_value t) = unat c + unat (sol_value s)" "unat (sol_value t) \<le> w"
    "unat (sol_value t) = weight ws (picked (sol_items t))" "length (sol_items t) \<le> Suc i"
    "items_count t = Suc (items_count s)"
proof -
  have le: "unat (sol_value s) \<le> w - unat c" "length (sol_items s) \<le> i"
    "unat (sol_value s) = weight ws (picked (sol_items s))" using s by (simp_all add: sol_opt_def)
  have p: "picked (sol_items t) = insert i (picked (sol_items s))" "sol_value t = sol_value s + c"
    "length (sol_items t) = Suc i"
    using le(2) picked_add [of "s\<lparr>sol_value := sol_value s + c\<rparr>" i] by (simp_all add: t_def)
  have ni: "i \<notin> picked (sol_items s)" using le(2) picked_less by force
  show v: "unat (sol_value t) = unat c + unat (sol_value s)"
    using le(1) c unfolding p by (subst unat_add_nowrap) simp_all
  show "unat (sol_value t) \<le> w" using v le c by simp
  show "unat (sol_value t) = weight ws (picked (sol_items t))"
    using v ni by (simp add: p weight_insert le(3) c(3))
  show "length (sol_items t) \<le> Suc i" by (simp add: p)
  show "items_count t = Suc (items_count s)" using ni by (simp add: items_count_picked p)
qed

lemma dp_cell_opt:
  assumes row: "\<And>v. v \<le> w \<Longrightarrow> sol_opt ws i v (row ! v)" and w: "w < 2 ^ 64" "ws ! i = c"
  shows "sol_opt ws (Suc i) w (dp_cell i c row w)"
proof -
  have old: "sol_opt ws i w (row ! w)" using row by simp
  have split: "weight ws S = unat c + weight ws (S - {i}) \<and> card S = Suc (card (S - {i})) \<and> S - {i} \<subseteq> {..<i}"
    if "S \<subseteq> {..<Suc i}" "i \<in> S" for S
  proof -
    have f: "finite S" using that(1) finite_subset by blast
    then have "weight ws S = unat c + weight ws (S - {i})"
      using weight_insert [of "S - {i}" i ws] that(2) w(2) by (simp add: insert_absorb)
    then show ?thesis using f that card_Suc_Diff1 [of S i] by (auto simp: less_Suc_eq)
  qed
  have keep: "S \<subseteq> {..<i}" if "S \<subseteq> {..<Suc i}" "i \<notin> S" for S using that by (auto simp: less_Suc_eq)
  consider (zero) "w = 0" | (large) "w \<noteq> 0" "w < unat c" | (fits) "w \<noteq> 0" "unat c \<le> w" by linarith
  then show ?thesis
  proof cases
    case zero
    then show ?thesis by (simp add: dp_cell_def sol_opt_zero_capacity)
  next
    case large
    then have "dp_cell i c row w = row ! w" by (simp add: dp_cell_def)
    moreover have sub: "S \<subseteq> {..<i}" if "S \<subseteq> {..<Suc i}" "weight ws S \<le> w" for S
      using split [OF that(1)] keep [OF that(1)] that(2) large by fastforce
    ultimately show ?thesis
      using sol_optD(1-3) [OF old] sol_optD(4) [OF old sub] by (intro sol_optI) simp_all
  next
    case fits
    define s where "s = row ! (w - unat c)"
    define t where "t = sol_add i (s\<lparr>sol_value := sol_value s + c\<rparr>)"
    have so: "sol_opt ws i (w - unat c) s" using row [of "w - unat c"] by (simp add: s_def)
    note t = candsol_value [OF so fits(2) w, folded t_def]
    have cell: "dp_cell i c row w = (if sol_less (row ! w) t then t else row ! w)"
      using fits by (simp add: dp_cell_def Let_def s_def t_def)
    have wt: "weight ws S < unat (sol_value t) \<or> weight ws S = unat (sol_value t) \<and> items_count t \<le> card S"
      if S: "S \<subseteq> {..<Suc i}" "i \<in> S" "weight ws S \<le> w" for S
    proof -
      note sp = split [OF S(1,2)]
      have "weight ws (S - {i}) \<le> w - unat c" using sp S(3) by simp
      with sp have "weight ws (S - {i}) < unat (sol_value s) \<or>
          weight ws (S - {i}) = unat (sol_value s) \<and> items_count s \<le> card (S - {i})"
        by (intro sol_optD(4) [OF so]) simp_all
      then show ?thesis using sp t(1,5) by auto
    qed
    have wr: "weight ws S < unat (sol_value (row ! w)) \<or>
        weight ws S = unat (sol_value (row ! w)) \<and> items_count (row ! w) \<le> card S"
      if "S \<subseteq> {..<Suc i}" "i \<notin> S" "weight ws S \<le> w" for S
      by (rule sol_optD(4) [OF old keep [OF that(1,2)] that(3)])
    show ?thesis
    proof (cases "sol_less (row ! w) t")
      case True
      then have "unat (sol_value (row ! w)) < unat (sol_value t) \<or>
          unat (sol_value (row ! w)) = unat (sol_value t) \<and> items_count t < items_count (row ! w)"
        by (auto simp: sol_less_def nowrap split: if_splits)
      then have "weight ws S < unat (sol_value t) \<or> weight ws S = unat (sol_value t) \<and> items_count t \<le> card S"
        if "S \<subseteq> {..<Suc i}" "weight ws S \<le> w" for S
        using wt [OF that(1) _ that(2)] wr [OF that(1) _ that(2)] by (cases "i \<in> S") auto
      then show ?thesis using True t cell by (intro sol_optI) simp_all
    next
      case False
      then have "unat (sol_value t) < unat (sol_value (row ! w)) \<or>
          unat (sol_value (row ! w)) = unat (sol_value t) \<and> items_count (row ! w) \<le> items_count t"
        by (auto simp: sol_less_def nowrap u64_eq_iff split: if_splits)
      then have "weight ws S < unat (sol_value (row ! w)) \<or>
          weight ws S = unat (sol_value (row ! w)) \<and> items_count (row ! w) \<le> card S"
        if "S \<subseteq> {..<Suc i}" "weight ws S \<le> w" for S
        using wt [OF that(1) _ that(2)] wr [OF that(1) _ that(2)] by (cases "i \<in> S") auto
      then show ?thesis using False cell old by (intro sol_optI) (simp_all add: sol_opt_def)
    qed
  qed
qed


lemma dp_rows_opt:
  assumes "\<And>w. w \<le> nlength \<Longrightarrow> sol_opt ws i w (row ! w)" "nlength < 2 ^ 64" "drop i ws = cs" "i \<le> length ws"
    and "w \<le> nlength"
  shows "sol_opt ws (length ws) w (dp_rows nlength i cs row ! w)"
  using assms
proof (induction cs arbitrary: i row)
  case Nil
  then show ?case by simp
next
  case (Cons c cs)
  have len: "i < length ws" using Cons.prems(3) by (metis drop_all leI list.distinct(1))
  then have i: "ws ! i = c" "drop (Suc i) ws = cs"
    using Cons.prems(3) Cons_nth_drop_Suc [OF len] by simp_all
  show ?case
    unfolding dp_rows.simps
  proof (rule Cons.IH [OF _ Cons.prems(2) i(2) _ Cons.prems(5)])
    fix v assume "v \<le> nlength"
    then show "sol_opt ws (Suc i) v (map (dp_cell i c row) [0..<nlength + 1] ! v)"
      using dp_cell_opt [of v ws i row c] Cons.prems(1,2) i(1) by (simp add: nth_upt del: upt_Suc)
  qed (use len in simp)
qed

lemma knapsack_opt: "nlength < 2 ^ 64 \<Longrightarrow> sol_opt ws (length ws) nlength (knapsack ws nlength)"
  unfolding knapsack_def
  by (rule dp_rows_opt) (auto simp: sol_opt_zero simp del: replicate_Suc)

subsection \<open>The candidates\<close>

definition behind :: "file_enum \<Rightarrow> u64 \<Rightarrow> addr \<Rightarrow> bool" where
  "behind fe lcn a \<longleftrightarrow> a \<in> members fe \<and> lcn < the (head_lcn fe a)"

definition file_size :: "file_enum \<Rightarrow> addr \<Rightarrow> nat" where
  "file_size fe a = unat (f_clusters (the (fderef fe a)))"

abbreviation total_size :: "file_enum \<Rightarrow> addr list \<Rightarrow> nat" where
  "total_size fe as \<equiv> sum_list (map (file_size fe) as)"

lemma member_head:
  assumes "fe_inv fe" "(k, a) \<in> set (buckets fe)"
  obtains h f where "head_lcn fe a = Some h" "fderef fe a = Some f" "f_clusters f = k" "a \<in> members fe"
    "file_size fe a = unat k"
proof -
  obtain f where f: "fderef fe a = Some f" "f_clusters f = k" "ordered_file f"
    by (rule fe_inv_file [OF assms])
  moreover have "a \<in> members fe" using assms(2) by (force simp: members_def)
  ultimately show thesis
    by (intro that [of "b_lcn (hd (f_blockmap f))" f])
      (auto simp: head_lcn_def ordered_file_def file_size_def split: list.splits)
qed

text \<open>The result of the search for a single file of the right size: the hindmost one.\<close>

definition perfect_ok :: "file_enum \<Rightarrow> u64 \<Rightarrow> addr set \<Rightarrow> addr option \<Rightarrow> bool" where
  "perfect_ok fe lcn A r \<longleftrightarrow>
     (case r of
        None \<Rightarrow> \<forall>a \<in> A. \<not> behind fe lcn a
      | Some p \<Rightarrow> p \<in> A \<and> behind fe lcn p \<and>
          (\<forall>a \<in> A. behind fe lcn a \<longrightarrow> the (head_lcn fe a) \<le> the (head_lcn fe p)))"

lemma perfect_loop_ok:
  assumes inv: "fe_inv fe" and "set es \<subseteq> set (buckets fe)" "perfect_ok fe lcn A best" "A \<subseteq> members fe"
  shows "\<exists>r. perfect_loop fe lcn es best = Some r \<and> perfect_ok fe lcn (A \<union> snd ` set es) r"
  using assms(2-4)
proof (induction es arbitrary: best A)
  case (Cons e es)
  obtain k a where e: "e = (k, a)" by (cases e)
  have ka: "(k, a) \<in> set (buckets fe)" and sub: "set es \<subseteq> set (buckets fe)" using Cons.prems(1) e by auto
  obtain h where h: "head_lcn fe a = Some h" "a \<in> members fe"
    by (rule member_head [OF inv ka])
  define best' where "best' = (if h \<le> lcn then best else case best of None \<Rightarrow> Some a
    | Some p \<Rightarrow> if the (head_lcn fe p) < h then Some a else Some p)"
  have hp: "\<exists>hp. head_lcn fe p = Some hp" if "best = Some p" for p
  proof -
    have "p \<in> members fe" using that Cons.prems(2,3) by (auto simp: perfect_ok_def)
    then obtain c where "(c, p) \<in> set (buckets fe)" by (auto simp: members_def)
    then show ?thesis by (rule member_head [OF inv]) blast
  qed
  then have step: "perfect_loop fe lcn (e # es) best = perfect_loop fe lcn es best'"
    using h by (cases best) (auto simp: e best'_def)
  have "perfect_ok fe lcn (insert a A) best'"
    using Cons.prems(2) h by (cases best) (auto simp: perfect_ok_def best'_def behind_def not_le not_less)
  moreover have "insert a A \<subseteq> members fe" using Cons.prems(3) h(2) by simp
  moreover have "insert a A \<union> snd ` set es = A \<union> snd ` set (e # es)" by (simp add: e)
  ultimately show ?case using Cons.IH [OF sub, of "insert a A" best'] step by simp
qed simp

lemma mset_known_insert [simp]: "mset (known_insert k v es) = add_mset (k, v) (mset es)"
  by (induction es) auto

lemma set_known_insert [simp]: "set (known_insert k v es) = insert (k, v) (set es)"
  by (metis mset_known_insert set_mset_add_mset_insert set_mset_mset)

definition key_count :: "u64 \<Rightarrow> (u64, addr) entries \<Rightarrow> nat" where
  "key_count k es = size (filter_mset (\<lambda>e. fst e = k) (mset es))"

lemma key_count_range: "length (mm_equal_range k es) = key_count k es"
  by (simp add: key_count_def mm_equal_range_def flip: size_mset mset_filter)

lemma key_count_insert: "key_count j (known_insert k v es) = key_count j es + (if j = k then 1 else 0)"
  by (simp add: key_count_def)

lemma key_count_remove1: "e \<in> set es \<Longrightarrow> key_count j (remove1 e es) = key_count j es - (if j = fst e then 1 else 0)"
  by (simp add: key_count_def size_Diff_singleton)

lemma first_before_spec:
  assumes "\<forall>(k, a) \<in> set es. head_lcn fe a \<noteq> None"
  shows "\<exists>r. first_before fe h es = Some r \<and> (\<forall>e. r = Some e \<longrightarrow> e \<in> set es)"
  using assms
proof (induction es)
  case (Cons e es)
  then show ?case by (cases e) fastforce
qed simp

lemma known_update_spec:
  assumes "\<forall>(k, a) \<in> set known. head_lcn fe a \<noteq> None" "head_lcn fe a \<noteq> None" "\<forall>j. key_count j known \<le> 4"
  shows "\<exists>known'. known_update fe k a h known = Some known' \<and> set known' \<subseteq> insert (k, a) (set known) \<and>
    (\<forall>j. key_count j known' \<le> 4)"
proof -
  define known1 where "known1 = (if (k < 4 \<and> key_count k known < 1) \<or> key_count k known < 4 then known_insert k a known else known)"
  have k1: "set known1 \<subseteq> insert (k, a) (set known)" "\<forall>j. key_count j known1 \<le> 4"
    using assms(3) by (auto simp: known1_def key_count_insert)
  have "\<forall>(k, a) \<in> set (mm_equal_range k known1). head_lcn fe a \<noteq> None"
    using assms(1,2) k1(1) by (fastforce simp: mm_equal_range_def)
  then obtain r where r: "first_before fe h (mm_equal_range k known1) = Some r"
    "\<forall>e. r = Some e \<longrightarrow> e \<in> set (mm_equal_range k known1)"
    using first_before_spec by blast
  have up: "known_update fe k a h known = Some (case r of None \<Rightarrow> known1 | Some e \<Rightarrow> known_insert k a (remove1 e known1))"
    using r(1) by (auto simp: known_update_def key_count_range known1_def Let_def split: option.splits)
  show ?thesis
  proof (cases r)
    case None
    then show ?thesis using up k1 by simp
  next
    case (Some e)
    then have e: "e \<in> set known1" "fst e = k" using r(2) by (auto simp: mm_equal_range_def)
    have "key_count j (known_insert k a (remove1 e known1)) \<le> 4" for j
    proof -
      have "e \<in># filter_mset (\<lambda>e. fst e = k) (mset known1)" using e by simp
      then have "0 < key_count k known1" unfolding key_count_def by (metis nonempty_has_size empty_not_add_mset multi_member_split)
      moreover have "key_count j known1 \<le> 4" using k1(2) by blast
      ultimately show ?thesis using e by (auto simp: key_count_insert key_count_remove1)
    qed
    moreover have "set (known_insert k a (remove1 e known1)) \<subseteq> insert (k, a) (set known)"
      using k1(1) set_remove1_subset [of e known1] by auto
    ultimately show ?thesis using up Some by simp
  qed
qed

definition cand_inv :: "file_enum \<Rightarrow> u64 \<Rightarrow> u64 \<Rightarrow> u64 \<Rightarrow> addr list \<Rightarrow> (u64, addr) entries \<Rightarrow> bool" where
  "cand_inv fe lcn len0 len rvs known \<longleftrightarrow>
     unat len + total_size fe rvs = unat len0 \<and> (\<forall>a \<in> set rvs. behind fe lcn a) \<and>
     (\<forall>(k, a) \<in> set known. (k, a) \<in> set (buckets fe) \<and> behind fe lcn a \<and> k \<le> maxlen) \<and>
     (known \<noteq> [] \<longrightarrow> len \<le> maxlen) \<and> (\<forall>j. key_count j known \<le> 4)"

lemma cand_invI:
  assumes "unat len + total_size fe rvs = unat len0" "\<forall>a \<in> set rvs. behind fe lcn a"
    "\<forall>(k, a) \<in> set known. (k, a) \<in> set (buckets fe) \<and> behind fe lcn a \<and> k \<le> maxlen"
    "known \<noteq> [] \<Longrightarrow> len \<le> maxlen" "\<forall>j. key_count j known \<le> 4"
  shows "cand_inv fe lcn len0 len rvs known"
  using assms by (simp add: cand_inv_def)

lemma known_heads:
  assumes "fe_inv fe" "cand_inv fe lcn len0 len rvs known"
  shows "\<forall>(k, a) \<in> set known. head_lcn fe a \<noteq> None"
proof -
  have "head_lcn fe a \<noteq> None" if "(k, a) \<in> set known" for k a
  proof -
    have "(k, a) \<in> set (buckets fe)" using assms(2) that by (auto simp: cand_inv_def)
    then obtain h where "head_lcn fe a = Some h" by (rule member_head [OF assms(1)])
    then show ?thesis by simp
  qed
  then show ?thesis by auto
qed

lemma head_lcn_deref: "head_lcn fe a \<noteq> None \<Longrightarrow> fderef fe a \<noteq> None"
  by (cases "fderef fe a") (simp_all add: head_lcn_def)

lemma cand_loop_inv:
  assumes inv: "fe_inv fe" and "set es \<subseteq> set (buckets fe)" "cand_inv fe lcn len0 len rvs known"
  shows "\<exists>len' rvs' known'. cand_loop fe lcn es len rvs known = Some (len', rvs', known') \<and>
    cand_inv fe lcn len0 len' rvs' known'"
  using assms(2,3)
proof (induction es arbitrary: len rvs known)
  case (Cons e es)
  obtain k a where e: "e = (k, a)" by (cases e)
  have ka: "(k, a) \<in> set (buckets fe)" and sub: "set es \<subseteq> set (buckets fe)" using Cons.prems(1) e by auto
  obtain h f where h: "head_lcn fe a = Some h" "fderef fe a = Some f" "f_clusters f = k" "a \<in> members fe"
    "file_size fe a = unat k"
    by (rule member_head [OF inv ka])
  note ih = Cons.IH [OF sub] and J = Cons.prems(2)
  consider (stop) "len = 0" | (big) "len \<noteq> 0" "len < k" | (front) "len \<noteq> 0" "k \<le> len" "h \<le> lcn"
    | (greedy) "len \<noteq> 0" "k \<le> len" "lcn < h" "maxlen < len" | (cand) "len \<noteq> 0" "k \<le> len" "lcn < h" "len \<le> maxlen"
    by (meson not_le)
  then show ?case
  proof cases
    case greedy
    then have "known = []" using J by (auto simp: cand_inv_def)
    moreover have "unat (len - k) = unat len - unat k" "unat k \<le> unat len" using greedy by (auto simp: nowrap)
    ultimately have "cand_inv fe lcn len0 (len - k) (rvs @ [a]) known"
      using J h greedy by (auto simp: cand_inv_def behind_def)
    from ih [OF this] greedy h show ?thesis by (auto simp: e not_le)
  next
    case cand
    have "behind fe lcn a" using cand h by (simp add: behind_def)
    obtain known' where kn: "known_update fe k a h known = Some known'"
      "set known' \<subseteq> insert (k, a) (set known)" "\<forall>j. key_count j known' \<le> 4"
      using known_update_spec [OF known_heads [OF inv J], of a k h] h J by (auto simp: cand_inv_def)
    have "cand_inv fe lcn len0 len rvs known'"
    proof (rule cand_invI)
      have "k \<le> maxlen" using cand by (meson order_trans)
      then show "\<forall>(k, a) \<in> set known'. (k, a) \<in> set (buckets fe) \<and> behind fe lcn a \<and> k \<le> maxlen"
        using J kn(2) ka \<open>behind fe lcn a\<close> by (auto simp: cand_inv_def)
    qed (use J kn(3) cand in \<open>auto simp: cand_inv_def\<close>)
    from ih [OF this] cand h kn(1) show ?thesis by (auto simp: e not_le not_less)
  qed (use ih J h in \<open>auto simp: e not_less\<close>)
qed simp

lemma sizes_of_all:
  assumes "\<forall>a \<in> set as. fderef fe a \<noteq> None"
  shows "sizes_of fe as = Some (map (\<lambda>a. f_clusters (the (fderef fe a))) as)"
  using assms by (induction as) auto

lemma total_chosen:
  assumes "length items \<le> length cands"
  shows "total_size fe (chosen cands items) =
    weight (map (\<lambda>a. f_clusters (the (fderef fe a))) cands) (picked items)"
proof -
  let ?is = "filter ((!) items) [0..<length items]"
  have "total_size fe (chosen cands items) = (\<Sum>i \<leftarrow> ?is. file_size fe (cands ! i))"
    by (simp add: chosen_def comp_def)
  also have "\<dots> = (\<Sum>i \<in> set ?is. file_size fe (cands ! i))"
    by (rule sum_list_distinct_conv_sum_set) simp
  also have "set ?is = picked items" by (auto simp: picked_def)
  also have "(\<Sum>i \<in> picked items. file_size fe (cands ! i)) =
      weight (map (\<lambda>a. f_clusters (the (fderef fe a))) cands) (picked items)"
    unfolding weight_def using assms by (intro sum.cong) (auto simp: picked_def file_size_def)
  finally show ?thesis .
qed

lemma set_chosen: "length items \<le> length cands \<Longrightarrow> set (chosen cands items) \<subseteq> set cands"
  by (auto simp: chosen_def)

lemma knapsack_selects:
  fixes len :: u64
  assumes "ws = map (\<lambda>a. f_clusters (the (fderef fe a))) cands"
  defines "s \<equiv> knapsack ws (unat len)"
  shows "total_size fe (chosen cands (sol_items s)) = unat (sol_value s)" "unat (sol_value s) \<le> unat len"
    "set (chosen cands (sol_items s)) \<subseteq> set cands"
proof -
  have "sol_opt ws (length ws) (unat len) s" unfolding s_def by (rule knapsack_opt) (simp add: unat_lt64)
  note o = sol_optD [OF this]
  then have "length (sol_items s) \<le> length cands" by (simp add: assms(1))
  then show "total_size fe (chosen cands (sol_items s)) = unat (sol_value s)" "unat (sol_value s) \<le> unat len"
    "set (chosen cands (sol_items s)) \<subseteq> set cands"
    using total_chosen [of "sol_items s" cands fe] o(2,3) set_chosen by (simp_all add: assms(1))
qed

text \<open>What happens after the search for a single file, by the result of the candidate loop.\<close>

definition best_rest :: "bool \<Rightarrow> u64 \<Rightarrow> addr list \<Rightarrow> addr list \<Rightarrow> u64 list \<Rightarrow> addr list" where
  "best_rest partialOK len rvs cands ws =
     (if len = 0 then rvs
      else if length cands = 0 then (if \<not> partialOK then [] else rvs)
      else if length cands = 1 then
        (if ws ! 0 = len then rvs @ [cands ! 0]
         else if partialOK then if ws ! 0 \<le> len then rvs @ [cands ! 0] else rvs else [])
      else let solution = knapsack ws (unat len)
        in if \<not> partialOK \<and> sol_value solution \<noteq> len then []
           else rvs @ chosen cands (sol_items solution))"

lemma best_rest_sound:
  fixes partialOK
  assumes tot: "unat len + total_size fe rvs = n" "\<forall>a \<in> set rvs. behind fe lcn a" "\<forall>a \<in> set cands. behind fe lcn a"
    and ws: "ws = map (\<lambda>a. f_clusters (the (fderef fe a))) cands"
  defines "rs \<equiv> best_rest partialOK len rvs cands ws"
  shows "(\<forall>a \<in> set rs. behind fe lcn a) \<and> total_size fe rs \<le> n \<and> (\<not> partialOK \<longrightarrow> rs = [] \<or> total_size fe rs = n)"
proof -
  note sel = knapsack_selects [OF ws, of len]
  have w0: "unat (ws ! 0) = file_size fe (cands ! 0)" "behind fe lcn (cands ! 0)" if "length cands = 1"
    using that tot(3) by (auto simp: ws file_size_def length_Suc_conv)
  consider (full) "len = 0" | (none) "len \<noteq> 0" "length cands = 0" | (one) "len \<noteq> 0" "length cands = 1"
    | (more) "len \<noteq> 0" "length cands \<noteq> 0" "length cands \<noteq> 1" by blast
  then show ?thesis
  proof cases
    case one
    then show ?thesis using tot w0 by (auto simp: rs_def best_rest_def nowrap u64_eq_iff)
  next
    case more
    then show ?thesis using tot sel by (auto simp: rs_def best_rest_def Let_def u64_eq_iff)
  qed (use tot in \<open>auto simp: rs_def best_rest_def\<close>)
qed

lemma findBest_single:
  assumes inv: "fe_inv fe"
  shows "\<exists>r. perfect_loop fe lcn (mm_equal_range len (buckets fe)) None = Some r \<and>
    perfect_ok fe lcn {a. (len, a) \<in> set (buckets fe)} r"
proof -
  have "set (mm_equal_range len (buckets fe)) \<subseteq> set (buckets fe)" by (auto simp: mm_equal_range_def)
  from perfect_loop_ok [OF inv this, of lcn "{}" None]
  obtain r where r: "perfect_loop fe lcn (mm_equal_range len (buckets fe)) None = Some r"
    "perfect_ok fe lcn (snd ` set (mm_equal_range len (buckets fe))) r"
    by (auto simp: perfect_ok_def)
  moreover have "snd ` set (mm_equal_range len (buckets fe)) = {a. (len, a) \<in> set (buckets fe)}"
    by (force simp: mm_equal_range_def)
  ultimately show ?thesis by simp
qed

lemma findBest_rest:
  assumes inv: "fe_inv fe" and none: "perfect_loop fe lcn (mm_equal_range len (buckets fe)) None = Some None"
  shows "\<exists>len' rvs known. cand_inv fe lcn len len' rvs known \<and>
    cand_loop fe lcn (rev (takeWhile (\<lambda>e. fst e \<le> len) (buckets fe))) len [] [] = Some (len', rvs, known) \<and>
    fe_findBest lcn len partialOK fe = Some (best_rest partialOK len' rvs (map snd known) (map (\<lambda>a. f_clusters (the (fderef fe a))) (map snd known)))"
proof -
  have sub: "set (rev (takeWhile (\<lambda>e. fst e \<le> len) (buckets fe))) \<subseteq> set (buckets fe)"
    by (auto dest: set_takeWhileD)
  have "cand_inv fe lcn len len [] []" by (simp add: cand_inv_def key_count_def)
  from cand_loop_inv [OF inv sub this]
  obtain len' rvs known where c: "cand_loop fe lcn (rev (takeWhile (\<lambda>e. fst e \<le> len) (buckets fe))) len [] [] =
      Some (len', rvs, known)" "cand_inv fe lcn len len' rvs known" by blast
  have "\<forall>a \<in> set (map snd known). fderef fe a \<noteq> None"
    using known_heads [OF inv c(2)] head_lcn_deref by fastforce
  then have "fe_findBest lcn len partialOK fe =
      Some (best_rest partialOK len' rvs (map snd known) (map (\<lambda>a. f_clusters (the (fderef fe a))) (map snd known)))"
    using none c(1) by (simp add: fe_findBest_def best_rest_def sizes_of_all Let_def)
  then show ?thesis using c by blast
qed

text \<open>Files of different sizes: no entry is replaced, and every file is taken or becomes a candidate once.\<close>

lemma known_update_new:
  assumes "k \<notin> fst ` set known" "head_lcn fe a = Some h"
  shows "known_update fe k a h known = Some (known_insert k a known)"
proof -
  have "mm_equal_range k known = []" using assms(1) by (force simp: mm_equal_range_def filter_empty_conv)
  moreover have "mm_equal_range k (known_insert k a known) = [(k, a)]"
    using assms(1) by (induction known) (auto simp: mm_equal_range_def filter_empty_conv)
  ultimately show ?thesis using assms(2) by (simp add: known_update_def)
qed

lemma distinct_known_insert: "distinct (map snd (known_insert k a known)) \<longleftrightarrow> distinct (a # map snd known)"
  by (rule mset_eq_imp_distinct_iff) simp

lemma cand_loop_distinct:
  assumes "cand_loop fe lcn es len rvs known = Some (len', rvs', known')" "distinct (map fst es)" "distinct (map snd es)"
    "distinct (rvs @ map snd known)" "(set rvs \<union> snd ` set known) \<inter> snd ` set es = {}" "fst ` set known \<inter> fst ` set es = {}"
  shows "distinct (rvs' @ map snd known')"
  using assms
proof (induction es arbitrary: len rvs known)
  case (Cons e es)
  obtain k a where e: "e = (k, a)" by (cases e)
  have fresh: "k \<notin> fst ` set known" "a \<notin> set rvs" "a \<notin> snd ` set known" using Cons.prems(5,6) by (auto simp: e)
  have d: "distinct (map fst es)" "distinct (map snd es)" using Cons.prems(2,3) by auto
  consider (stop) "len = 0" | (skip) "cand_loop fe lcn (e # es) len rvs known = cand_loop fe lcn es len rvs known"
    | (greedy) n where "cand_loop fe lcn (e # es) len rvs known = cand_loop fe lcn es n (rvs @ [a]) known"
    | (cand) "cand_loop fe lcn (e # es) len rvs known = cand_loop fe lcn es len rvs (known_insert k a known)"
    using Cons.prems(1) known_update_new [OF fresh(1)] by (auto simp: e Let_def split: if_splits bind_splits) metis
  then show ?case
  proof cases
    case stop
    then show ?thesis using Cons.prems(1,4) by (simp add: e)
  next
    case skip
    then show ?thesis using Cons.IH [OF _ d Cons.prems(4)] Cons.prems(1,5,6) by auto
  next
    case greedy
    then show ?thesis using Cons.IH [OF _ d, of n "rvs @ [a]" known] Cons.prems fresh by (force simp: e)
  next
    case cand
    then show ?thesis using Cons.IH [OF _ d, of len rvs "known_insert k a known"] Cons.prems fresh
      by (force simp: e distinct_known_insert)
  qed
qed simp

lemma distinct_chosen: "distinct cands \<Longrightarrow> length items \<le> length cands \<Longrightarrow> distinct (chosen cands items)"
  by (auto simp: chosen_def distinct_map inj_on_def nth_eq_iff_index_eq)

lemma best_rest_distinct:
  assumes "distinct (rvs @ cands)" "length ws = length cands"
  shows "distinct (best_rest partialOK len rvs cands ws)"
proof -
  have "sol_opt ws (length ws) (unat len) (knapsack ws (unat len))" by (rule knapsack_opt) (simp add: unat_lt64)
  then have l: "length (sol_items (knapsack ws (unat len))) \<le> length cands" using sol_optD(1) assms(2) by metis
  then have "distinct (rvs @ chosen cands (sol_items (knapsack ws (unat len))))"
    using assms(1) distinct_chosen set_chosen [OF l] by auto
  moreover have "distinct (rvs @ [cands ! 0])" if "length cands = 1" using assms(1) that by (auto simp: length_Suc_conv)
  ultimately show ?thesis using assms(1) by (auto simp: best_rest_def Let_def)
qed

lemma takeWhile_map_distinct: "distinct (map f xs) \<Longrightarrow> distinct (map f (rev (takeWhile P xs)))"
  by (induction xs) (auto dest: set_takeWhileD)

lemma findBest_sound:
  assumes inv: "fe_inv fe"
  shows "\<exists>rvs. fe_findBest lcn len partialOK fe = Some rvs \<and> (\<forall>a \<in> set rvs. behind fe lcn a) \<and>
    total_size fe rvs \<le> unat len \<and> (\<not> partialOK \<longrightarrow> rvs = [] \<or> total_size fe rvs = unat len) \<and>
    (distinct (map fst (buckets fe)) \<longrightarrow> distinct rvs)"
proof -
  obtain r where r: "perfect_loop fe lcn (mm_equal_range len (buckets fe)) None = Some r"
    "perfect_ok fe lcn {a. (len, a) \<in> set (buckets fe)} r" using findBest_single [OF inv] by blast
  show ?thesis
  proof (cases r)
    case (Some p)
    then have p: "behind fe lcn p" "(len, p) \<in> set (buckets fe)" using r(2) by (auto simp: perfect_ok_def)
    from p(2) have "file_size fe p = unat len" by (elim member_head [OF inv])
    then show ?thesis using p(1) r(1) Some by (simp add: fe_findBest_def)
  next
    case None
    let ?es = "rev (takeWhile (\<lambda>e. fst e \<le> len) (buckets fe))"
    obtain len' rvs known where c: "cand_inv fe lcn len len' rvs known"
      "cand_loop fe lcn ?es len [] [] = Some (len', rvs, known)"
      "fe_findBest lcn len partialOK fe = Some (best_rest partialOK len' rvs (map snd known) (map (\<lambda>a. f_clusters (the (fderef fe a))) (map snd known)))"
      using findBest_rest [OF inv r(1) [unfolded None]] by blast
    have "unat len' + total_size fe rvs = unat len" "\<forall>a \<in> set rvs. behind fe lcn a"
      "\<forall>a \<in> set (map snd known). behind fe lcn a"
      using c(1) by (auto simp: cand_inv_def)
    note sound = best_rest_sound [OF this refl, of partialOK]
    have "distinct (rvs @ map snd known)" if "distinct (map fst (buckets fe))"
      using cand_loop_distinct [OF c(2)] that fe_invD(2) [OF inv] by (simp add: takeWhile_map_distinct)
    then show ?thesis using sound best_rest_distinct c(3) by auto
  qed
qed

subsection \<open>Properties\<close>

text \<open>
  C7: \<open>findBest\<close> ends without touching a dead pointer; every file it returns is a movable file that
  lies behind the gap. The sizes of the returned entries, where a file returned twice counts twice, add up to no
  more than the gap, and unless a partial fill is allowed they add up to exactly the gap or nothing is returned.
  No file is returned twice if the movable files have different sizes; then the files themselves fill the gap.
\<close>

theorem find_best_sound:
  assumes "fe_inv fe"
  shows "\<exists>rvs. fe_findBest lcn len partialOK fe = Some rvs \<and> (\<forall>a \<in> set rvs. behind fe lcn a) \<and>
    total_size fe rvs \<le> unat len \<and> (\<not> partialOK \<longrightarrow> rvs = [] \<or> total_size fe rvs = unat len) \<and>
    (distinct (map fst (buckets fe)) \<longrightarrow> distinct rvs \<and> total_size fe rvs = (\<Sum>a \<in> set rvs. file_size fe a))"
  using findBest_sound [OF assms, of lcn len partialOK] sum_list_distinct_conv_sum_set by blast

theorem find_best_sound_witness:
  "\<exists>rvs. fe_findBest 10 9 False demo_files = Some rvs \<and> set rvs \<subseteq> Collect (behind demo_files 10) \<and>
    distinct rvs \<and> (rvs = [] \<or> (\<Sum>a \<in> set rvs. file_size demo_files a) = 9)"
proof -
  have "distinct (map fst (buckets demo_files))" by (simp add: demo_files_eval)
  then show ?thesis using find_best_sound [OF demo_files_inv, of 10 9 False] by fastforce
qed

text \<open>
  C2: the dynamic program of \<open>findBest\<close> chooses a set of candidates that fits the remaining length
  and is optimal: no other set that fits is heavier, and none of the same weight has fewer files.
\<close>

theorem knapsack_optimal:
  assumes "nlength < 2 ^ 64" "s = knapsack ws nlength"
  shows "picked (sol_items s) \<subseteq> {..<length ws} \<and> weight ws (picked (sol_items s)) = unat (sol_value s) \<and>
    unat (sol_value s) \<le> nlength \<and>
    (\<forall>S. S \<subseteq> {..<length ws} \<longrightarrow> weight ws S \<le> nlength \<longrightarrow>
      weight ws S < unat (sol_value s) \<or> weight ws S = unat (sol_value s) \<and> items_count s \<le> card S)"
proof -
  have o: "sol_opt ws (length ws) nlength s" unfolding assms(2) by (rule knapsack_opt [OF assms(1)])
  have "picked (sol_items s) \<subseteq> {..<length ws}" using sol_optD(1) [OF o] by (auto dest: picked_less)
  then show ?thesis
    using sol_optD(2,3) [OF o] by (intro conjI allI impI sol_optD(4) [OF o]) simp_all
qed

theorem knapsack_optimal_witness: "unat (sol_value (knapsack [3, 2] 5)) = 5"
proof -
  let ?s = "knapsack [3, 2] 5"
  have o: "unat (sol_value ?s) \<le> 5 \<and> (\<forall>S. S \<subseteq> {..<length [3, 2 :: u64]} \<longrightarrow> weight [3, 2] S \<le> 5 \<longrightarrow>
      weight [3, 2] S < unat (sol_value ?s) \<or> weight [3, 2] S = unat (sol_value ?s) \<and> items_count ?s \<le> card S)"
    using knapsack_optimal [of 5 ?s "[3, 2]"] by simp
  have "weight [3, 2 :: u64] {0, 1} = 5" by (simp add: weight_def)
  then show ?thesis using o by (auto dest!: spec [of _ "{0, 1}"])
qed

text \<open>
  C8: if a file of exactly the length of the gap lies behind it, \<open>findBest\<close> returns just one such
  file, the hindmost.
\<close>

theorem find_best_exact:
  assumes "fe_inv fe" "(len, a) \<in> set (buckets fe)" "behind fe lcn a"
  shows "\<exists>p. fe_findBest lcn len partialOK fe = Some [p] \<and> (len, p) \<in> set (buckets fe) \<and> behind fe lcn p \<and>
    the (head_lcn fe a) \<le> the (head_lcn fe p)"
proof -
  obtain r where r: "perfect_loop fe lcn (mm_equal_range len (buckets fe)) None = Some r"
    "perfect_ok fe lcn {a. (len, a) \<in> set (buckets fe)} r" using findBest_single [OF assms(1)] by blast
  then show ?thesis using assms(2,3) by (cases r) (auto simp: perfect_ok_def fe_findBest_def)
qed

lemma demo_files_behind: "behind demo_files 10 300"
  by (simp add: behind_def members_def demo_files_eval demo_file_def head_lcn_def fderef_def)

theorem find_best_exact_witness:
  "\<exists>p. fe_findBest 10 2 True demo_files = Some [p] \<and> (2, p) \<in> set (buckets demo_files) \<and>
    behind demo_files 10 p \<and> the (head_lcn demo_files 300) \<le> the (head_lcn demo_files p)"
  by (rule find_best_exact [OF demo_files_inv _ demo_files_behind]) (simp add: demo_files_eval)

text \<open>
  C23: the table of the dynamic program is small: candidates are only collected once at most
  \<open>maxlen\<close> (256) clusters are left, none of them is larger, and there are at most four of each size.
\<close>

theorem find_best_candidates_bounded:
  assumes "fe_inv fe"
    "cand_loop fe lcn (rev (takeWhile (\<lambda>e. fst e \<le> len) (buckets fe))) len [] [] = Some (len', rvs, known)"
  shows "(known \<noteq> [] \<longrightarrow> len' \<le> maxlen) \<and> (\<forall>e \<in> set known. fst e \<le> maxlen) \<and>
    length (mm_equal_range k known) \<le> 4"
proof -
  have i: "cand_inv fe lcn len len [] []" by (simp add: cand_inv_def key_count_def)
  have sub: "set (rev (takeWhile (\<lambda>e. fst e \<le> len) (buckets fe))) \<subseteq> set (buckets fe)"
    by (auto dest: set_takeWhileD)
  have "cand_inv fe lcn len len' rvs known"
    using cand_loop_inv [OF assms(1) sub i] assms(2) by simp
  then show ?thesis by (auto simp: cand_inv_def key_count_range)
qed

theorem find_best_candidates_bounded_witness:
  "\<exists>known. fe_inv demo_files \<and>
    cand_loop demo_files 10 (rev (takeWhile (\<lambda>e. fst e \<le> 9) (buckets demo_files))) 9 [] [] = Some (9, [], known) \<and>
    known = [(7, 100), (2, 300)] \<and> fst ` set known \<subseteq> {..maxlen} \<and> length (mm_equal_range 7 known) \<le> 4"
proof -
  have c: "cand_loop demo_files 10 (rev (takeWhile (\<lambda>e. fst e \<le> 9) (buckets demo_files))) 9 [] [] =
      Some (9, [], [(7, 100), (2, 300)])"
    by (simp add: demo_files_eval demo_file_def head_lcn_def fderef_def maxlen_def known_update_def
        mm_equal_range_def Let_def)
  have "(\<forall>e \<in> set [(7 :: u64, 100 :: addr), (2, 300)]. fst e \<le> maxlen) \<and>
      length (mm_equal_range 7 [(7 :: u64, 100 :: addr), (2, 300)]) \<le> 4"
    using find_best_candidates_bounded [OF demo_files_inv c, of 7] by blast
  then show ?thesis using c demo_files_inv by (intro exI [of _ "[(7, 100), (2, 300)]"]) auto
qed

definition twin_files :: file_enum where
  "twin_files = projr (fe_new (\<lambda>p. False) False
     [(100, demo_file 2 1 [\<lparr>b_vcn = 0, b_lcn = 60, b_length = 2\<rparr>]),
      (200, demo_file 2 1 [\<lparr>b_vcn = 0, b_lcn = 40, b_length = 2\<rparr>])])"

lemma twin_files_eval:
  "twin_files = \<lparr>fe_info = [(100, (demo_file 2 1 [\<lparr>b_vcn = 0, b_lcn = 60, b_length = 2\<rparr>])\<lparr>f_name := None\<rparr>),
      (200, (demo_file 2 1 [\<lparr>b_vcn = 0, b_lcn = 40, b_length = 2\<rparr>])\<lparr>f_name := None\<rparr>)],
     buckets = [(2, 100), (2, 200)], lcns = [], unmovable = [], fragmented = 0, unprocessable = 0\<rparr>"
  by (simp add: twin_files_def demo_file_def fe_new_def fe_scan_def scan_file_def Let_def
      fassign_def order_file_def order_blocks_def)

text \<open>
  C37: a file can be returned twice. With two files of two clusters and a gap of four, the file
  further back replaces the other candidate although it is a candidate itself already.
\<close>

theorem find_best_duplicate: "fe_inv twin_files \<and> fe_findBest 10 4 False twin_files = Some [100, 100]"
proof
  show "fe_inv twin_files"
    by (simp add: twin_files_eval demo_file_def fe_inv_def placed_def fderef_def ordered_file_def)
  have k: "knapsack [2, 2] 4 = \<lparr>sol_value = 4, sol_items = [True, True]\<rparr>"
    by code_simp
  show "fe_findBest 10 4 False twin_files = Some [100, 100]"
    by (simp add: fe_findBest_def twin_files_eval demo_file_def head_lcn_def fderef_def maxlen_def
        known_update_def mm_equal_range_def Let_def k chosen_def)
qed

end
