(* ===== verification/Gap_Enumeration.thy ===== *)
theory Gap_Enumeration
  imports Winx_List Volume_Scan Std_Containers File_Info
begin

text \<open>
  Model of \<open>zen::GapEnumeration\<close> (\<open>zen.hpp\<close>, \<open>zen.cpp\<close>). The region objects live in the ring
  \<open>info_\<close>, here the list of their addresses and contents; \<open>regions_\<close> indexes the open gaps by
  first cluster and \<open>sizes_\<close> by length, both by pointer into the ring, so a change of a region
  is seen through every index. Popped regions stay in the ring until the next scan.

  An operation that may run into undefined behaviour returns an \<open>option\<close>: \<open>None\<close> is a pointer to
  no live object, a dereferenced \<open>end()\<close>, or a \<open>DebugBreak\<close>. The regions a rescan would read from
  the volume are the argument \<open>fresh\<close>, and \<open>malloc\<close> gives the address of a new object from the
  addresses in use.
\<close>

record gap_enum =
  info :: "(addr \<times> volume_region) list"
  regions :: "(u64, addr) entries"
  sizes :: "(u64, addr) entries"

type_synonym allocator = "addr list \<Rightarrow> addr"

definition fresh_malloc :: "allocator \<Rightarrow> bool" where
  "fresh_malloc malloc \<longleftrightarrow> (\<forall>live. malloc live \<noteq> 0 \<and> malloc live \<notin> set live)"

definition deref :: "gap_enum \<Rightarrow> addr \<Rightarrow> volume_region option" where
  "deref ge p = map_of (info ge) p"

definition assign :: "addr \<Rightarrow> volume_region \<Rightarrow> gap_enum \<Rightarrow> gap_enum" where
  "assign p r ge = ge\<lparr>info := map (\<lambda>e. if fst e = p then (p, r) else e) (info ge)\<rparr>"

fun alloc_regions :: "allocator \<Rightarrow> addr list \<Rightarrow> volume_region list \<Rightarrow> (addr \<times> volume_region) list" where
  "alloc_regions malloc live [] = []"
| "alloc_regions malloc live (r # rs) =
     (let a = malloc live in (a, r) # alloc_regions malloc (a # live) rs)"

definition ge_filter :: "gap_enum \<Rightarrow> gap_enum" where
  "ge_filter ge = ge\<lparr>
     regions := fold (\<lambda>(p, r). map_insert (r_lcn r) p) (info ge) [],
     sizes := fold (\<lambda>(p, r). mm_insert (r_length r) p) (info ge) []\<rparr>"

definition ge_scan :: "allocator \<Rightarrow> volume_region list \<Rightarrow> gap_enum \<Rightarrow> gap_enum" where
  "ge_scan malloc fresh ge =
     ge_filter \<lparr>info = alloc_regions malloc [] fresh, regions = [], sizes = []\<rparr>"

definition ge_next :: "gap_enum \<Rightarrow> addr option" where
  "ge_next ge = (case regions ge of [] \<Rightarrow> None | e # _ \<Rightarrow> Some (snd e))"

definition ge_count :: "gap_enum \<Rightarrow> nat" where
  "ge_count ge = length (regions ge)"

text \<open>
  One of the three loops of \<open>best\<close>: the first entry that is neither in front of nor the region
  \<open>nt\<close> (a pointer and the region it points to).
\<close>

fun pick :: "gap_enum \<Rightarrow> (addr \<times> volume_region) option \<Rightarrow> bool \<Rightarrow> (u64, addr) entries \<Rightarrow> addr option option"
where
  "pick ge nt behindOnly [] = Some None"
| "pick ge nt behindOnly ((k, p) # es) =
     (case nt of
        None \<Rightarrow> Some (Some p)
      | Some (q, nr) \<Rightarrow>
          if behindOnly then do {
            r \<leftarrow> deref ge p;
            if r_lcn r \<le> r_lcn nr then pick ge nt behindOnly es
            else if p \<noteq> q then Some (Some p) else pick ge nt behindOnly es
          }
          else if p \<noteq> q then Some (Some p) else pick ge nt behindOnly es)"

definition ge_best :: "u64 \<Rightarrow> (addr \<times> volume_region) option \<Rightarrow> bool \<Rightarrow> gap_enum \<Rightarrow> addr option option" where
  "ge_best clusters nt behindOnly ge =
     (if sizes ge = [] then Some None
      else do {
        a \<leftarrow> pick ge nt behindOnly (mm_equal_range clusters (sizes ge));
        case a of Some p \<Rightarrow> Some (Some p)
        | None \<Rightarrow> do {
            a \<leftarrow> pick ge nt behindOnly
              (mm_upper_bound (max (clusters * 3 div 2) (clusters + 512)) (sizes ge));
            case a of Some p \<Rightarrow> Some (Some p)
            | None \<Rightarrow> pick ge nt behindOnly
                (takeWhile (\<lambda>e. \<not> fst e < clusters) (rev (sizes ge)))
          }
      })"

definition ge_pop :: "allocator \<Rightarrow> volume_region list \<Rightarrow> u64 \<Rightarrow> u64 \<Rightarrow> gap_enum \<Rightarrow> gap_enum option" where
  "ge_pop malloc fresh lcn len ge =
     (case map_find lcn (regions ge) of
        None \<Rightarrow> Some (ge_scan malloc fresh ge)
      | Some p \<Rightarrow> do {
          g \<leftarrow> deref ge p;
          let ge = ge\<lparr>sizes := mm_erase_one (r_length g) p (sizes ge)\<rparr>;
          if r_length g > len then
            let ge = ge\<lparr>regions := map_erase lcn (regions ge)\<rparr>;
                n = g\<lparr>r_lcn := r_lcn g + len, r_length := r_length g - len\<rparr>;
                ge = assign p n ge
            in Some (ge\<lparr>regions := map_insert (r_lcn n) p (regions ge),
                        sizes := mm_insert (r_length n) p (sizes ge)\<rparr>)
          else if r_length g < len then None
          else Some (ge\<lparr>regions := map_erase lcn (regions ge)\<rparr>)
        })"

definition ge_pop_region :: "allocator \<Rightarrow> volume_region list \<Rightarrow> addr \<Rightarrow> gap_enum \<Rightarrow> gap_enum option" where
  "ge_pop_region malloc fresh p ge = do {
     r \<leftarrow> deref ge p;
     ge_pop malloc fresh (r_lcn r) (r_length r) ge
   }"

fun ge_pop_file :: "allocator \<Rightarrow> volume_region list \<Rightarrow> winx_blockmap list \<Rightarrow> gap_enum \<Rightarrow> gap_enum option" where
  "ge_pop_file malloc fresh [] ge = Some ge"
| "ge_pop_file malloc fresh (b # bm) ge = do {
     ge \<leftarrow> ge_pop malloc fresh (b_lcn b) (b_length b) ge;
     ge_pop_file malloc fresh bm ge
   }"

text \<open>\<open>winx_list_insert\<close> on the ring of regions, after the item at \<open>p\<close>.\<close>

fun ring_insert :: "addr \<Rightarrow> 'a \<Rightarrow> addr \<Rightarrow> (addr \<times> 'a) list \<Rightarrow> (addr \<times> 'a) list option" where
  "ring_insert a x p [] = None"
| "ring_insert a x p ((q, y) # ys) =
     (if p = q then Some ((q, y) # (a, x) # ys)
      else map_option ((#) (q, y)) (ring_insert a x p ys))"

text \<open>
  The body of the loop of \<open>push\<close>, for one block of the file. \<open>std::prev\<close> of \<open>regions_.begin()\<close> is undefined, so that
  the result is \<open>None\<close> when no gap lies before the block; otherwise \<open>prev\<close> is an entry and never \<open>regions_.end()\<close>.
\<close>

definition ge_push_block :: "allocator \<Rightarrow> winx_blockmap \<Rightarrow> gap_enum \<Rightarrow> gap_enum option" where
  "ge_push_block malloc b ge =
     (if b_length b = 0 then Some ge
      else do {
        (k, p) \<leftarrow> map_prev_lower (b_lcn b) (regions ge);
        r \<leftarrow> deref ge p;
        nx \<leftarrow> (case map_find (b_lcn b + b_length b) (regions ge) of
                None \<Rightarrow> Some None
              | Some q \<Rightarrow> do { s \<leftarrow> deref ge q; Some (Some (q, s)) });
        let mergePrev = (r_lcn r + r_length r = b_lcn b);
        case nx of
          Some (q, s) \<Rightarrow>
            if mergePrev then
              let ge = ge\<lparr>sizes := mm_erase_one (r_length r) p (sizes ge)\<rparr>;
                  ge = ge\<lparr>sizes := mm_erase_one (r_length s) q (sizes ge)\<rparr>;
                  n = r\<lparr>r_length := r_length r + (b_length b + r_length s)\<rparr>;
                  ge = assign p n ge;
                  ge = ge\<lparr>regions := map_erase (b_lcn b + b_length b) (regions ge)\<rparr>
              in Some (ge\<lparr>sizes := mm_insert (r_length n) p (sizes ge)\<rparr>)
            else
              let ge = ge\<lparr>sizes := mm_erase_one (r_length s) q (sizes ge)\<rparr>;
                  ge = ge\<lparr>regions := map_erase (b_lcn b + b_length b) (regions ge)\<rparr>;
                  n = s\<lparr>r_lcn := b_lcn b, r_length := r_length s + b_length b\<rparr>;
                  ge = assign q n ge
              in Some (ge\<lparr>regions := map_insert (r_lcn n) q (regions ge),
                          sizes := mm_insert (r_length n) q (sizes ge)\<rparr>)
        | None \<Rightarrow>
            if mergePrev then
              let ge = ge\<lparr>sizes := mm_erase_one (r_length r) p (sizes ge)\<rparr>;
                  n = r\<lparr>r_length := r_length r + b_length b\<rparr>;
                  ge = assign p n ge
              in Some (ge\<lparr>sizes := mm_insert (r_length n) p (sizes ge)\<rparr>)
            else if info ge = [] then None
            else do {
              let nr = malloc (map fst (info ge));
              ring \<leftarrow> ring_insert nr \<lparr>r_lcn = b_lcn b, r_length = b_length b\<rparr> p (info ge);
              Some (ge\<lparr>info := ring,
                       regions := map_insert (b_lcn b) nr (regions ge),
                       sizes := mm_insert (b_length b) nr (sizes ge)\<rparr>)
            }
      })"

fun ge_push :: "allocator \<Rightarrow> winx_blockmap list \<Rightarrow> gap_enum \<Rightarrow> gap_enum option" where
  "ge_push malloc [] ge = Some ge"
| "ge_push malloc (b # bm) ge = do {
     ge \<leftarrow> ge_push_block malloc b ge;
     ge_push malloc bm ge
   }"

subsection \<open>Invariant and abstraction\<close>

definition len_at :: "gap_enum \<Rightarrow> addr \<Rightarrow> u64" where
  "len_at ge p = r_length (the (deref ge p))"

definition gap_runs :: "gap_enum \<Rightarrow> run list" where
  "gap_runs ge = map (\<lambda>(k, p). (k, len_at ge p)) (regions ge)"

definition gap_free :: "gap_enum \<Rightarrow> nat set" where
  "gap_free ge = run_clusters (gap_runs ge)"

definition gap_inv :: "gap_enum \<Rightarrow> bool" where
  "gap_inv ge \<longleftrightarrow>
     distinct (map fst (info ge)) \<and> 0 \<notin> fst ` set (info ge) \<and>
     (\<forall>(k, p) \<in> set (regions ge). \<exists>r. deref ge p = Some r \<and> r_lcn r = k) \<and>
     distinct (map snd (regions ge)) \<and>
     wf_runs (gap_runs ge) \<and>
     keys_sorted (sizes ge) \<and>
     mset (sizes ge) = image_mset (\<lambda>(k, p). (len_at ge p, p)) (mset (regions ge))"

text \<open>A gap lies before the cluster \<open>l\<close>.\<close>

definition gap_before :: "gap_enum \<Rightarrow> u64 \<Rightarrow> bool" where
  "gap_before ge l \<longleftrightarrow> (\<exists>(k, p) \<in> set (regions ge). k < l)"

lemma assign_simps [simp]:
  "regions (assign p r ge) = regions ge" "sizes (assign p r ge) = sizes ge"
  "map fst (info (assign p r ge)) = map fst (info ge)"
  by (auto simp: assign_def)

lemma deref_upd_other [simp]:
  "deref (ge\<lparr>regions := x\<rparr>) = deref ge" "deref (ge\<lparr>sizes := y\<rparr>) = deref ge"
  by (simp_all add: deref_def fun_eq_iff)

lemma assign_commute [simp]:
  "assign p r (ge\<lparr>regions := x\<rparr>) = (assign p r ge)\<lparr>regions := x\<rparr>"
  "assign p r (ge\<lparr>sizes := y\<rparr>) = (assign p r ge)\<lparr>sizes := y\<rparr>"
  by (simp_all add: assign_def)

lemma deref_assign:
  "deref ge p = Some g \<Longrightarrow> deref (assign p r ge) = (deref ge)(p \<mapsto> r)"
  by (simp add: deref_def assign_def map_of_assign fun_eq_iff)

lemma gap_invD:
  assumes "gap_inv ge"
  shows "distinct (map fst (info ge))" "0 \<notin> fst ` set (info ge)" "distinct (map snd (regions ge))"
    "wf_runs (gap_runs ge)" "keys_sorted (sizes ge)"
    "mset (sizes ge) = image_mset (\<lambda>(k, p). (len_at ge p, p)) (mset (regions ge))"
  using assms by (auto simp: gap_inv_def)

lemma gap_invI:
  assumes "distinct (map fst (info ge))" "0 \<notin> set (map fst (info ge))"
    "\<And>k p. (k, p) \<in> set (regions ge) \<Longrightarrow> \<exists>r. deref ge p = Some r \<and> r_lcn r = k"
    "distinct (map snd (regions ge))" "wf_runs (gap_runs ge)" "keys_sorted (sizes ge)"
    "mset (sizes ge) = image_mset (\<lambda>(k, p). (len_at ge p, p)) (mset (regions ge))"
  shows "gap_inv ge"
  using assms by (auto simp: gap_inv_def)

lemma gap_inv_deref:
  assumes "gap_inv ge" "(k, p) \<in> set (regions ge)"
  obtains r where "deref ge p = Some r" "r_lcn r = k" "len_at ge p = r_length r"
  using assms by (fastforce simp: gap_inv_def len_at_def)

lemma fst_gap_runs: "map fst (gap_runs ge) = map fst (regions ge)"
  by (simp add: gap_runs_def case_prod_beta comp_def)

lemma gap_inv_strict: "gap_inv ge \<Longrightarrow> keys_strict (regions ge)"
  using wf_runs_sorted [OF gap_invD(4)] by (simp add: fst_gap_runs)

lemma len_at_other:
  "deref ge' q = deref ge q \<Longrightarrow> len_at ge' q = len_at ge q"
  by (simp add: len_at_def)

text \<open>Three updates that every operation is made of: a region object changes its place or its
  size, an entry goes, an entry comes.\<close>

lemma gap_replace:
  assumes inv: "gap_inv ge" and regs: "regions ge = as @ (k, p) # bs" and g: "deref ge p = Some g"
    and wf: "wf_runs (map (\<lambda>(k, p). (k, len_at ge p)) as @ (r_lcn n, r_length n) #
      map (\<lambda>(k, p). (k, len_at ge p)) bs)"
  defines "ge' \<equiv> (assign p n ge)\<lparr>regions := as @ (r_lcn n, p) # bs,
      sizes := mm_insert (r_length n) p (mm_erase_one (r_length g) p (sizes ge))\<rparr>"
  shows "gap_inv ge'"
    and "gap_runs ge' = map (\<lambda>(k, p). (k, len_at ge p)) as @ (r_lcn n, r_length n) #
      map (\<lambda>(k, p). (k, len_at ge p)) bs"
proof -
  note d = gap_invD [OF inv]
  have de: "deref ge' = (deref ge)(p \<mapsto> n)"
    using deref_assign [OF g] by (simp add: ge'_def)
  have notin: "p \<notin> snd ` set as" "p \<notin> snd ` set bs"
    using d(3) regs by auto
  have same: "\<forall>(j, q) \<in> set as. len_at ge' q = len_at ge q" "\<forall>(j, q) \<in> set bs. len_at ge' q = len_at ge q"
    using notin by (auto intro!: len_at_other simp: de rev_image_eqI)
  have lp: "len_at ge' p = r_length n" by (simp add: len_at_def de)
  have maps: "map (\<lambda>(k, p). (k, len_at ge' p)) as = map (\<lambda>(k, p). (k, len_at ge p)) as"
    "map (\<lambda>(k, p). (k, len_at ge' p)) bs = map (\<lambda>(k, p). (k, len_at ge p)) bs"
    using same by (auto intro!: map_cong)
  show runs: "gap_runs ge' = map (\<lambda>(k, p). (k, len_at ge p)) as @ (r_lcn n, r_length n) #
      map (\<lambda>(k, p). (k, len_at ge p)) bs"
    using maps lp by (simp add: gap_runs_def) (simp add: ge'_def)
  have "image_mset (\<lambda>(k, p). (len_at ge' p, p)) (mset as) = image_mset (\<lambda>(k, p). (len_at ge p, p)) (mset as)"
    "image_mset (\<lambda>(k, p). (len_at ge' p, p)) (mset bs) = image_mset (\<lambda>(k, p). (len_at ge p, p)) (mset bs)"
    using same by (auto intro!: image_mset_cong)
  moreover have "len_at ge p = r_length g" by (simp add: len_at_def g)
  ultimately have ms: "mset (sizes ge') = image_mset (\<lambda>(k, p). (len_at ge' p, p)) (mset (regions ge'))"
    using d(6) lp by (simp add: ge'_def regs)
  have regs': "regions ge' = as @ (r_lcn n, p) # bs" by (simp add: ge'_def)
  have info': "map fst (info ge') = map fst (info ge)" by (simp add: ge'_def)
  show "gap_inv ge'"
  proof (rule gap_invI)
    fix j q assume jq: "(j, q) \<in> set (regions ge')"
    show "\<exists>r. deref ge' q = Some r \<and> r_lcn r = j"
    proof (cases "q = p")
      case True
      with jq notin show ?thesis by (auto simp: regs' de rev_image_eqI)
    next
      case False
      with jq have "(j, q) \<in> set (regions ge)" by (auto simp: regs' regs)
      with inv False show ?thesis by (auto simp: gap_inv_def de)
    qed
  next
    show "distinct (map snd (regions ge'))" using d(3) by (simp add: regs' regs)
    show "keys_sorted (sizes ge')"
      using d(5) by (simp add: ge'_def sorted_mm_insert sorted_mm_erase_one)
    show "0 \<notin> set (map fst (info ge'))" using d(2) unfolding info' by simp
  qed (use d info' ms wf runs in simp_all)
qed

lemma gap_remove:
  assumes inv: "gap_inv ge" and regs: "regions ge = as @ (k, p) # bs" and g: "deref ge p = Some g"
  defines "ge' \<equiv> ge\<lparr>regions := as @ bs, sizes := mm_erase_one (r_length g) p (sizes ge)\<rparr>"
  shows "gap_inv ge'" and "gap_runs ge' = map (\<lambda>(k, p). (k, len_at ge p)) (as @ bs)"
proof -
  note d = gap_invD [OF inv]
  have de: "deref ge' = deref ge" by (simp add: ge'_def)
  then have la: "len_at ge' = len_at ge" by (simp add: len_at_def fun_eq_iff)
  show runs: "gap_runs ge' = map (\<lambda>(k, p). (k, len_at ge p)) (as @ bs)"
    by (simp add: gap_runs_def la) (simp add: ge'_def)
  have "wf_runs (map (\<lambda>(k, p). (k, len_at ge p)) (as @ (k, p) # bs))"
    using d(4) by (simp add: gap_runs_def regs)
  then have "wf_runs (gap_runs ge')"
    unfolding runs by (auto simp: wf_runs_append wf_runs_Cons)
  moreover have "len_at ge p = r_length g" by (simp add: len_at_def g)
  then have "mset (sizes ge') = image_mset (\<lambda>(k, p). (len_at ge p, p)) (mset (as @ bs))"
    using d(6) by (simp add: ge'_def regs)
  moreover have "keys_sorted (sizes ge')"
    using d(5) by (simp add: ge'_def sorted_mm_erase_one)
  moreover have regs': "regions ge' = as @ bs" "info ge' = info ge" by (simp_all add: ge'_def)
  moreover have "\<exists>r. deref ge' q = Some r \<and> r_lcn r = j" if "(j, q) \<in> set (regions ge')" for j q
  proof -
    from that have "(j, q) \<in> set (regions ge)" by (auto simp: regs regs')
    then show ?thesis by (rule gap_inv_deref [OF inv]) (simp add: de)
  qed
  ultimately show "gap_inv ge'"
    using d by (intro gap_invI) (auto simp: la regs)
qed

lemma ring_insert_spec:
  assumes "p \<in> fst ` set es" "a \<notin> fst ` set es" "distinct (map fst es)"
  shows "\<exists>as y bs. es = as @ (p, y) # bs \<and> ring_insert a x p es = Some (as @ (p, y) # (a, x) # bs)"
  using assms
proof (induction es)
  case (Cons e es)
  obtain q y where e: "e = (q, y)" by (cases e)
  show ?case
  proof (cases "p = q")
    case True
    then show ?thesis using e by (intro exI [of _ "[]"]) auto
  next
    case False
    then obtain as z bs where "es = as @ (p, z) # bs"
      "ring_insert a x p es = Some (as @ (p, z) # (a, x) # bs)"
      using Cons e by auto
    then show ?thesis using e False by (intro exI [of _ "e # as"]) auto
  qed
qed simp

text \<open>The ring operation is \<open>winx_list_insert\<close> on the heap.\<close>

lemma ring_insert_refines:
  assumes "circ h head (map fst es)" "ring_insert a x p es = Some es'" "h a = None" "a \<noteq> 0"
    and "distinct (map fst es)" "a \<notin> fst ` set es" "p \<in> fst ` set es"
  shows "\<exists>h'. winx_list_insert a junk h head p 16 = Some (h', head, a) \<and> circ h' head (map fst es')"
proof -
  obtain as y bs where es: "es = as @ (p, y) # bs" "es' = as @ (p, y) # (a, x) # bs"
    using ring_insert_spec [OF assms(7,6,5), of x] assms(2) by auto
  from winx_list.ins_after [of h head "map fst as" p "map fst bs" a junk] assms(1,3,4) es
  show ?thesis by auto
qed

lemma gap_insert:
  assumes inv: "gap_inv ge" and regs: "regions ge = as @ bs"
    and a: "a \<noteq> 0" "a \<notin> fst ` set (info ge)"
    and ring: "ring_insert a r p (info ge) = Some ring" "p \<in> fst ` set (info ge)"
    and wf: "wf_runs (map (\<lambda>(k, p). (k, len_at ge p)) as @ (r_lcn r, r_length r) #
      map (\<lambda>(k, p). (k, len_at ge p)) bs)"
  defines "ge' \<equiv> ge\<lparr>info := ring, regions := as @ (r_lcn r, a) # bs,
      sizes := mm_insert (r_length r) a (sizes ge)\<rparr>"
  shows "gap_inv ge'"
    and "gap_runs ge' = map (\<lambda>(k, p). (k, len_at ge p)) as @ (r_lcn r, r_length r) #
      map (\<lambda>(k, p). (k, len_at ge p)) bs"
proof -
  note d = gap_invD [OF inv]
  obtain xs y ys where ring': "info ge = xs @ (p, y) # ys" "ring = xs @ (p, y) # (a, r) # ys"
    using ring_insert_spec [OF ring(2) a(2) d(1), of r] ring(1) by auto
  have de: "deref ge' = (deref ge)(a \<mapsto> r)"
    using map_of_mid [of a "xs @ [(p, y)]" r ys] a(2)
    by (intro ext) (auto simp: ge'_def deref_def ring' image_Un)
  have notin: "a \<notin> snd ` set (regions ge)"
  proof
    assume "a \<in> snd ` set (regions ge)"
    then obtain k where "(k, a) \<in> set (regions ge)" by auto
    then obtain g where "deref ge a = Some g" using gap_inv_deref [OF inv] by metis
    with a(2) show False by (auto simp: deref_def dest!: map_of_SomeD intro: rev_image_eqI)
  qed
  then have notin': "a \<notin> snd ` set as" "a \<notin> snd ` set bs" by (auto simp: regs)
  have same: "\<forall>(j, q) \<in> set as. len_at ge' q = len_at ge q" "\<forall>(j, q) \<in> set bs. len_at ge' q = len_at ge q"
    using notin' by (auto intro!: len_at_other simp: de rev_image_eqI)
  have lp: "len_at ge' a = r_length r" by (simp add: len_at_def de)
  have maps: "map (\<lambda>(k, p). (k, len_at ge' p)) as = map (\<lambda>(k, p). (k, len_at ge p)) as"
    "map (\<lambda>(k, p). (k, len_at ge' p)) bs = map (\<lambda>(k, p). (k, len_at ge p)) bs"
    using same by (auto intro!: map_cong)
  show runs: "gap_runs ge' = map (\<lambda>(k, p). (k, len_at ge p)) as @ (r_lcn r, r_length r) #
      map (\<lambda>(k, p). (k, len_at ge p)) bs"
    using maps lp by (simp add: gap_runs_def) (simp add: ge'_def)
  have "image_mset (\<lambda>(k, p). (len_at ge' p, p)) (mset as) = image_mset (\<lambda>(k, p). (len_at ge p, p)) (mset as)"
    "image_mset (\<lambda>(k, p). (len_at ge' p, p)) (mset bs) = image_mset (\<lambda>(k, p). (len_at ge p, p)) (mset bs)"
    using same by (auto intro!: image_mset_cong)
  then have ms: "mset (sizes ge') = image_mset (\<lambda>(k, p). (len_at ge' p, p)) (mset (regions ge'))"
    using d(6) lp by (simp add: ge'_def regs)
  have regs': "regions ge' = as @ (r_lcn r, a) # bs" by (simp add: ge'_def)
  have info': "info ge' = xs @ (p, y) # (a, r) # ys" by (simp add: ge'_def ring')
  show "gap_inv ge'"
  proof (rule gap_invI)
    fix j q assume jq: "(j, q) \<in> set (regions ge')"
    show "\<exists>r. deref ge' q = Some r \<and> r_lcn r = j"
    proof (cases "q = a")
      case True
      with jq notin' show ?thesis by (auto simp: regs' de rev_image_eqI)
    next
      case False
      with jq have "(j, q) \<in> set (regions ge)" by (auto simp: regs' regs)
      with inv False show ?thesis by (auto simp: gap_inv_def de)
    qed
  next
    show "distinct (map snd (regions ge'))" using d(3) notin' by (simp add: regs' regs)
    show "keys_sorted (sizes ge')" using d(5) by (simp add: ge'_def sorted_mm_insert)
    show "distinct (map fst (info ge'))" using d(1) a(2) unfolding info' by (auto simp: ring')
    show "0 \<notin> set (map fst (info ge'))" using d(2) a(1) unfolding info' by (auto simp: ring')
  qed (use ms wf runs in simp_all)
qed

subsection \<open>Popping a range\<close>

definition gap_claimable :: "gap_enum \<Rightarrow> u64 \<Rightarrow> u64 \<Rightarrow> bool" where
  "gap_claimable ge lcn len \<longleftrightarrow>
     (\<exists>p r. map_find lcn (regions ge) = Some p \<and> deref ge p = Some r \<and> len \<le> r_length r)"

lemma gap_runs_split:
  "regions ge = as @ (k, p) # bs \<Longrightarrow>
     gap_runs ge = map (\<lambda>(k, p). (k, len_at ge p)) as @ (k, len_at ge p) # map (\<lambda>(k, p). (k, len_at ge p)) bs"
  by (simp add: gap_runs_def)

lemma keys_around:
  assumes "wf_runs (map (\<lambda>(k, p). (k, f p)) as @ (l, n) # map (\<lambda>(k, p). (k, f p)) bs)"
  shows "e \<in> set as \<Longrightarrow> fst e < l" "e \<in> set bs \<Longrightarrow> l < fst e"
proof -
  have "keys_strict (map (\<lambda>(k, p). (k, f p)) as @ (l, n) # map (\<lambda>(k, p). (k, f p)) bs)"
    by (rule wf_runs_sorted [OF assms])
  then show "e \<in> set as \<Longrightarrow> fst e < l" "e \<in> set bs \<Longrightarrow> l < fst e"
    by (auto simp: sorted_wrt_append case_prod_beta)
qed

lemma ge_pop_correct:
  assumes inv: "gap_inv ge" and c: "gap_claimable ge lcn len"
  shows "\<exists>ge'. ge_pop malloc fresh lcn len ge = Some ge' \<and> gap_inv ge' \<and>
    gap_free ge' = gap_free ge - extent lcn len"
proof -
  obtain p g where p: "map_find lcn (regions ge) = Some p" "deref ge p = Some g" "len \<le> r_length g"
    using c by (auto simp: gap_claimable_def)
  obtain as bs where regs: "regions ge = as @ (lcn, p) # bs"
    using p(1) by (rule map_find_split)
  have g: "r_lcn g = lcn" "len_at ge p = r_length g"
    using gap_inv_deref [OF inv, of lcn p] p(2) regs by auto
  note strict = gap_inv_strict [OF inv, unfolded regs]
  have erase: "map_erase lcn (regions ge) = as @ bs"
    unfolding regs by (rule map_erase_at [OF strict])
  note runs = gap_runs_split [OF regs, unfolded g(2)]
  have wf: "wf_runs (gap_runs ge)" by (rule gap_invD(4) [OF inv])
  show ?thesis
  proof (cases "len < r_length g")
    case True
    define n where "n = g\<lparr>r_lcn := lcn + len, r_length := r_length g - len\<rparr>"
    note sh = runs_shrink [OF wf [unfolded runs] True]
    have n: "r_lcn n = lcn + len" "r_length n = r_length g - len" by (simp_all add: n_def)
    note rep = gap_replace [OF inv regs p(2), of n, unfolded n, OF sh(1)]
    have ins: "map_insert (lcn + len) p (as @ bs) = as @ (lcn + len, p) # bs"
      by (rule map_insert_at) (use keys_around [OF sh(1)] in auto)
    have "ge_pop malloc fresh lcn len ge = Some ((assign p n ge)\<lparr>regions := as @ (lcn + len, p) # bs,
        sizes := mm_insert (r_length g - len) p (mm_erase_one (r_length g) p (sizes ge))\<rparr>)"
      using p True by (simp add: ge_pop_def Let_def g erase ins n_def [symmetric] n)
    then show ?thesis
      using rep sh(2) by (auto simp: gap_free_def runs)
  next
    case False
    with p(3) have eq: "r_length g = len" by simp
    have "ge_pop malloc fresh lcn len ge =
        Some (ge\<lparr>regions := as @ bs, sizes := mm_erase_one (r_length g) p (sizes ge)\<rparr>)"
      using p eq by (simp add: ge_pop_def erase)
    then show ?thesis
      using gap_remove [OF inv regs p(2)] runs_drop(2) [OF wf [unfolded runs]] eq
      by (simp add: gap_free_def runs)
  qed
qed

subsection \<open>Pushing a block\<close>

abbreviation runs_of :: "gap_enum \<Rightarrow> (u64, addr) entries \<Rightarrow> run list" where
  "runs_of ge \<equiv> map (\<lambda>(k, p). (k, len_at ge p))"

lemma push_split:
  assumes inv: "gap_inv ge" and ok: "run_ok (l, n)" and dis: "extent l n \<inter> gap_free ge = {}"
  obtains as bs where "regions ge = as @ bs" "wf_runs (runs_of ge as @ runs_of ge bs)"
    "gap_free ge = run_clusters (runs_of ge as @ runs_of ge bs)"
    "\<forall>(k, p) \<in> set as. k < l \<and> unat k + unat (len_at ge p) \<le> unat l"
    "\<forall>(k, p) \<in> set bs. l < k \<and> unat l + unat n \<le> unat k"
    "map_prev_lower l (regions ge) = (if as = [] then None else Some (last as))"
proof -
  have sorted: "keys_sorted (regions ge)" using gap_inv_strict [OF inv] by (rule strict_sorted_imp_sorted)
  obtain as bs where s: "regions ge = as @ bs" "\<forall>a \<in> set as. fst a < l" "\<forall>b \<in> set bs. l \<le> fst b"
    by (rule split_at_key [OF sorted])
  have runs: "gap_runs ge = runs_of ge as @ runs_of ge bs" by (simp add: gap_runs_def s(1))
  have wf: "wf_runs (runs_of ge as @ runs_of ge bs)" using gap_invD(4) [OF inv] runs by simp
  have n: "n \<noteq> 0" "0 < unat n" using ok by (auto simp: run_ok_def u64_pos_iff)
  have sep: "unat k < unat l \<Longrightarrow> unat k + unat (len_at ge p) \<le> unat l"
    "unat l \<le> unat k \<Longrightarrow> unat l + unat n \<le> unat k" if m: "(k, p) \<in> set (as @ bs)" for k p
  proof -
    have r: "(k, len_at ge p) \<in> set (gap_runs ge)"
      using m by (auto simp: runs image_iff intro: bexI [of _ "(k, p)"])
    then have "extent l n \<inter> extent (fst (k, len_at ge p)) (snd (k, len_at ge p)) = {}"
      using dis unfolding gap_free_def run_clusters_def by blast
    moreover have "run_ok (k, len_at ge p)" using wf_runs_mem [OF gap_invD(4) [OF inv] r] .
    ultimately show "unat k < unat l \<Longrightarrow> unat k + unat (len_at ge p) \<le> unat l"
      "unat l \<le> unat k \<Longrightarrow> unat l + unat n \<le> unat k"
      using run_separated [of "(k, len_at ge p)" l n] n(1) by simp_all
  qed
  have a: "k < l \<and> unat k + unat (len_at ge p) \<le> unat l" if "(k, p) \<in> set as" for k p
    using sep(1) [of k p] that s(2) by (force simp: nowrap)
  have b: "l < k \<and> unat l + unat n \<le> unat k" if "(k, p) \<in> set bs" for k p
    using sep(2) [of k p] that s(3) n(2) by (force simp: nowrap)
  have "map_prev_lower l (regions ge) = (if as = [] then None else Some (last as))"
    unfolding s(1) by (rule map_prev_lower_split) (use s in auto)
  then show thesis by (intro that [OF s(1) wf]) (use a b in \<open>auto simp: gap_free_def runs\<close>)
qed

lemma push_next_some:
  assumes "gap_inv ge" "regions ge = as @ bs" "map_find m (regions ge) = Some q"
    "\<forall>(k, p) \<in> set as. k < m" "\<forall>(k, p) \<in> set bs. m \<le> k"
  obtains bs' where "bs = (m, q) # bs'"
proof -
  have m: "(m, q) \<in> set bs" using assms(2,4) map_find_mem [OF assms(3)] by auto
  then obtain k p cs where bs: "bs = (k, p) # cs" by (cases bs) auto
  have "keys_strict bs" using gap_inv_strict [OF assms(1)] assms(2) by (simp add: sorted_wrt_append)
  then have "(m, q) \<in> set cs \<Longrightarrow> k < m" using bs by auto
  with m bs assms(5) have "(m, q) = (k, p)" by auto
  with bs show thesis by (intro that) simp
qed

lemma deref_info: "deref ge p = Some r \<Longrightarrow> p \<in> fst ` set (info ge)"
  by (auto simp: deref_def dest!: map_of_SomeD intro: rev_image_eqI)

lemma push_before:
  assumes wf: "wf_runs (runs_of ge as)"
    and le: "\<forall>(k, p) \<in> set as. k < l \<and> unat k + unat (len_at ge p) \<le> unat l"
    and last: "as \<noteq> [] \<Longrightarrow> fst (last as) + len_at ge (snd (last as)) \<noteq> l"
    and x: "(k, p) \<in> set as"
  shows "unat k + unat (len_at ge p) < unat l"
proof (cases "(k, p) = last as")
  case True
  have "(k, len_at ge p) \<in> set (runs_of ge as)" using x by force
  then have "run_ok (k, len_at ge p)" by (rule wf_runs_mem [OF wf])
  then have "unat (k + len_at ge p) = unat k + unat (len_at ge p)" by (rule run_okD)
  moreover have "k + len_at ge p \<noteq> l" using last True [symmetric] x by (cases as) auto
  ultimately show ?thesis using le x by (fastforce simp: u64_eq_iff)
next
  case False
  have as: "as = butlast as @ [last as]" using x by (cases as) auto
  with x False have "(k, p) \<in> set (butlast as)" by (metis Un_iff empty_iff list.set(1) list.set(2) insertE set_append)
  then have "(k, len_at ge p) \<in> set (runs_of ge (butlast as))" by force
  moreover have "wf_runs (runs_of ge (butlast as) @ [(fst (last as), len_at ge (snd (last as)))])"
    using wf as by (metis (no_types, lifting) case_prod_beta list.simps(8) list.simps(9) map_append)
  ultimately have "unat k + unat (len_at ge p) < unat (fst (last as))"
    by (auto simp: wf_runs_append run_before_def)
  moreover have "last as \<in> set as" using x by (cases as) auto
  then have "fst (last as) < l" using le by (fastforce simp: case_prod_beta)
  ultimately show ?thesis by (simp add: nowrap)
qed

lemma push_after:
  assumes nn: "map_find (l + n) (regions ge) = None" and regs: "regions ge = as @ bs"
    and ok: "run_ok (l, n)" and ge: "\<forall>(k, p) \<in> set bs. l < k \<and> unat l + unat n \<le> unat k"
    and x: "(k, p) \<in> set bs"
  shows "unat l + unat n < unat k"
proof -
  have "k \<noteq> l + n" using nn x by (force simp: map_find_None regs)
  then show ?thesis using ge x run_okD(1) [OF ok] by (fastforce simp: u64_eq_iff)
qed


lemma push_nonempty:
  assumes "gap_before ge l" "regions ge = as @ bs" "\<forall>(k, p) \<in> set bs. l < k \<and> unat l + unat n \<le> unat k"
  shows "as \<noteq> []"
  using assms by (fastforce simp: gap_before_def)

lemma push_alone:
  assumes inv: "gap_inv ge" and fm: "fresh_malloc malloc" and ready: "gap_before ge l"
    and ok: "run_ok (l, n)" and dis: "extent l n \<inter> gap_free ge = {}"
    and np: "\<And>k p. map_prev_lower l (regions ge) = Some (k, p) \<Longrightarrow> k + len_at ge p \<noteq> l"
    and nn: "map_find (l + n) (regions ge) = None"
  shows "\<exists>ge'. ge_push_block malloc \<lparr>b_vcn = v, b_lcn = l, b_length = n\<rparr> ge = Some ge' \<and> gap_inv ge' \<and>
    (\<forall>x. gap_before ge x \<longrightarrow> gap_before ge' x) \<and> gap_free ge' = gap_free ge \<union> extent l n"
proof -
  obtain as bs where s: "regions ge = as @ bs" "wf_runs (runs_of ge as @ runs_of ge bs)"
    "gap_free ge = run_clusters (runs_of ge as @ runs_of ge bs)"
    "\<forall>(k, p) \<in> set as. k < l \<and> unat k + unat (len_at ge p) \<le> unat l"
    "\<forall>(k, p) \<in> set bs. l < k \<and> unat l + unat n \<le> unat k"
    "map_prev_lower l (regions ge) = (if as = [] then None else Some (last as))"
    by (rule push_split [OF inv ok dis])
  define r where "r = \<lparr>r_lcn = l, r_length = n\<rparr>"
  have as: "as \<noteq> []" by (rule push_nonempty [OF ready s(1,5)])
  define item where "item = snd (last as)"
  define a where "a = malloc (map fst (info ge))"
  have a: "a \<noteq> 0" "a \<notin> fst ` set (info ge)"
    using fm [unfolded fresh_malloc_def, rule_format, of "map fst (info ge)"] by (simp_all add: a_def)
  define e where "e = last as"
  have "e \<in> set (regions ge)" using as s(1) by (auto simp: e_def)
  then have "(fst e, item) \<in> set (regions ge)" by (simp add: item_def e_def [symmetric])
  then obtain ri where ri: "deref ge item = Some ri" "r_lcn ri = fst e" "len_at ge item = r_length ri"
    by (rule gap_inv_deref [OF inv])
  obtain ring where ring: "ring_insert a r item (info ge) = Some ring"
    using ring_insert_spec [OF deref_info [OF ri(1)] a(2) gap_invD(1) [OF inv]] by blast
  have last: "fst (last as) + len_at ge (snd (last as)) \<noteq> l"
    using np [of "fst (last as)" "snd (last as)"] s(6) as by simp
  have before: "run_before x (l, n)" if x: "x \<in> set (runs_of ge as)" for x
    using push_before [OF _ s(4) last] s(2) x by (auto simp: wf_runs_append run_before_def)
  have after: "run_before (l, n) x" if x: "x \<in> set (runs_of ge bs)" for x
    using push_after [OF nn s(1) ok s(5)] x by (auto simp: run_before_def)
  note ins = runs_insert [OF s(2) ok before after]
  have wf: "wf_runs (runs_of ge as @ (r_lcn r, r_length r) # runs_of ge bs)"
    using ins(1) by (simp add: r_def)
  note g = gap_insert [OF inv s(1) a ring deref_info [OF ri(1)] wf]
  have mi: "map_insert l a (regions ge) = as @ (l, a) # bs"
    unfolding s(1) by (rule map_insert_at) (use s(4,5) in auto)
  have "ge_push_block malloc \<lparr>b_vcn = v, b_lcn = l, b_length = n\<rparr> ge =
      Some (ge\<lparr>info := ring, regions := as @ (r_lcn r, a) # bs, sizes := mm_insert (r_length r) a (sizes ge)\<rparr>)"
  proof -
    have nz: "n \<noteq> 0" "info ge \<noteq> []" using ok deref_info [OF ri(1)] by (auto simp: run_ok_def)
    have ring': "ring_insert (malloc (map fst (info ge))) \<lparr>r_lcn = l, r_length = n\<rparr> item (info ge) = Some ring"
      using ring by (simp add: a_def r_def)
    have "map_prev_lower l (regions ge) = Some (fst (last as), item)" using s(6) as by (simp add: item_def)
    moreover have "r_lcn ri + r_length ri \<noteq> l" using last ri by (simp add: item_def e_def)
    ultimately show ?thesis
      using nz ring' nn mi ri(1) by (simp add: ge_push_block_def Let_def r_def a_def)
  qed
  then show ?thesis using g ins(2) s(1,3) by (simp add: gap_free_def r_def) (auto simp: gap_before_def)
qed


lemma push_merge_prev:
  assumes inv: "gap_inv ge" and ok: "run_ok (l, n)" and dis: "extent l n \<inter> gap_free ge = {}"
    and pv: "map_prev_lower l (regions ge) = Some (k, p)" "k + len_at ge p = l"
    and nn: "map_find (l + n) (regions ge) = None"
  shows "\<exists>ge'. ge_push_block malloc \<lparr>b_vcn = v, b_lcn = l, b_length = n\<rparr> ge = Some ge' \<and> gap_inv ge' \<and>
    (\<forall>x. gap_before ge x \<longrightarrow> gap_before ge' x) \<and> gap_free ge' = gap_free ge \<union> extent l n"
proof -
  obtain as bs where s: "regions ge = as @ bs" "wf_runs (runs_of ge as @ runs_of ge bs)"
    "gap_free ge = run_clusters (runs_of ge as @ runs_of ge bs)"
    "\<forall>(k, p) \<in> set as. k < l \<and> unat k + unat (len_at ge p) \<le> unat l"
    "\<forall>(k, p) \<in> set bs. l < k \<and> unat l + unat n \<le> unat k"
    "map_prev_lower l (regions ge) = (if as = [] then None else Some (last as))"
    by (rule push_split [OF inv ok dis])
  obtain as' where as: "as = as' @ [(k, p)]"
    using s(6) pv(1) by (cases as rule: rev_cases) auto
  have regs: "regions ge = as' @ (k, p) # bs" by (simp add: s(1) as)
  obtain r where r: "deref ge p = Some r" "r_lcn r = k" "len_at ge p = r_length r"
    by (rule gap_inv_deref [OF inv, of k p]) (simp add: regs)
  define m where "m = r\<lparr>r_length := r_length r + n\<rparr>"
  have m: "r_lcn m = k" "r_length m = r_length r + n" by (simp_all add: m_def r)
  have wf: "wf_runs (runs_of ge as' @ (k, r_length r) # runs_of ge bs)"
    using s(2) by (simp add: as r)
  then have kr: "unat (k + r_length r) = unat k + unat (r_length r)"
    by (auto simp: wf_runs_append wf_runs_Cons intro: run_okD)
  have l: "unat l = unat k + unat (r_length r)" using kr pv(2) r by simp
  have ov: "unat k + unat (r_length r) + unat n < 2 ^ 64" using ok l by (simp add: run_ok_def)
  have after: "unat k + unat (r_length r) + unat n < unat (fst x)" if "x \<in> set (runs_of ge bs)" for x
    using push_after [OF nn s(1) ok s(5)] that l by auto
  note grow = runs_grow_right [OF wf ov after]
  note rep = gap_replace [OF inv regs r(1), of m, unfolded m, OF grow(1)]
  have "ge_push_block malloc \<lparr>b_vcn = v, b_lcn = l, b_length = n\<rparr> ge =
      Some ((assign p m ge)\<lparr>regions := as' @ (k, p) # bs,
        sizes := mm_insert (r_length r + n) p (mm_erase_one (r_length r) p (sizes ge))\<rparr>)"
    using pv nn r ok by (simp add: ge_push_block_def Let_def m_def run_ok_def regs [symmetric] assign_def)
  then show ?thesis
    using rep grow(2) s(3) pv(2) r by (simp add: gap_free_def as) (auto simp: gap_before_def regs)
qed

lemma push_merge_next:
  assumes inv: "gap_inv ge" and ok: "run_ok (l, n)" and dis: "extent l n \<inter> gap_free ge = {}"
    and ready: "gap_before ge l"
    and np: "\<And>k p. map_prev_lower l (regions ge) = Some (k, p) \<Longrightarrow> k + len_at ge p \<noteq> l"
    and nn: "map_find (l + n) (regions ge) = Some q"
  shows "\<exists>ge'. ge_push_block malloc \<lparr>b_vcn = v, b_lcn = l, b_length = n\<rparr> ge = Some ge' \<and> gap_inv ge' \<and>
    (\<forall>x. gap_before ge x \<longrightarrow> gap_before ge' x) \<and> gap_free ge' = gap_free ge \<union> extent l n"
proof -
  obtain as bs where s: "regions ge = as @ bs" "wf_runs (runs_of ge as @ runs_of ge bs)"
    "gap_free ge = run_clusters (runs_of ge as @ runs_of ge bs)"
    "\<forall>(k, p) \<in> set as. k < l \<and> unat k + unat (len_at ge p) \<le> unat l"
    "\<forall>(k, p) \<in> set bs. l < k \<and> unat l + unat n \<le> unat k"
    "map_prev_lower l (regions ge) = (if as = [] then None else Some (last as))"
    by (rule push_split [OF inv ok dis])
  have ln: "unat (l + n) = unat l + unat n" "n \<noteq> 0" using ok by (auto simp: run_okD run_ok_def)
  obtain bs' where bs: "bs = (l + n, q) # bs'"
    by (rule push_next_some [OF inv s(1) nn]) (use s(4,5) ln in \<open>auto simp: nowrap\<close>)
  have regs: "regions ge = as @ (l + n, q) # bs'" by (simp add: s(1) bs)
  obtain r where r: "deref ge q = Some r" "r_lcn r = l + n" "len_at ge q = r_length r"
    by (rule gap_inv_deref [OF inv, of "l + n" q]) (simp add: regs)
  define m where "m = r\<lparr>r_lcn := l, r_length := r_length r + n\<rparr>"
  have m: "r_lcn m = l" "r_length m = r_length r + n" by (simp_all add: m_def)
  have wf: "wf_runs (runs_of ge as @ (l + n, r_length r) # runs_of ge bs')"
    using s(2) by (simp add: bs r)
  then have ov: "unat l + unat n + unat (r_length r) < 2 ^ 64"
    using ln by (auto simp: wf_runs_append wf_runs_Cons run_ok_def)
  have last: "fst (last as) + len_at ge (snd (last as)) \<noteq> l" if "as \<noteq> []"
    using np [of "fst (last as)" "snd (last as)"] s(6) that by simp
  have before: "unat (fst x) + unat (snd x) < unat l" if x: "x \<in> set (runs_of ge as)" for x
    using push_before [OF _ s(4) last] s(2) x by (auto simp: wf_runs_append)
  note grow = runs_grow_left [OF wf ov before]
  note rep = gap_replace [OF inv regs r(1), of m, unfolded m, OF grow(1)]
  note strict = gap_inv_strict [OF inv, unfolded regs]
  have er: "map_erase (l + n) (regions ge) = as @ bs'" unfolding regs by (rule map_erase_at [OF strict])
  have mi: "map_insert l q (as @ bs') = as @ (l, q) # bs'"
    by (rule map_insert_at) (use s(4,5) bs in auto)
  have "ge_push_block malloc \<lparr>b_vcn = v, b_lcn = l, b_length = n\<rparr> ge =
      Some ((assign q m ge)\<lparr>regions := as @ (l, q) # bs',
        sizes := mm_insert (r_length r + n) q (mm_erase_one (r_length r) q (sizes ge))\<rparr>)"
  proof -
    have as: "as \<noteq> []" by (rule push_nonempty [OF ready s(1,5)])
    then have "(fst (last as), snd (last as)) \<in> set (regions ge)" using s(1) by simp
    then obtain t where t: "deref ge (snd (last as)) = Some t" "r_lcn t = fst (last as)" "len_at ge (snd (last as)) = r_length t"
      by (rule gap_inv_deref [OF inv])
    have "fst (last as) + r_length t \<noteq> l" using last [OF as] t by simp
    then show ?thesis using nn r ln s(6) as t by (simp add: ge_push_block_def Let_def m_def er mi split_beta)
  qed
  moreover have "l < l + n" using ln by (simp add: nowrap unat_gt_0)
  ultimately show ?thesis
    using rep grow(2) s(3) r by (simp add: gap_free_def bs) (auto simp: gap_before_def regs intro: less_trans)
qed


lemma push_bridge:
  assumes inv: "gap_inv ge" and ok: "run_ok (l, n)" and dis: "extent l n \<inter> gap_free ge = {}"
    and pv: "map_prev_lower l (regions ge) = Some (k, p)" "k + len_at ge p = l"
    and nn: "map_find (l + n) (regions ge) = Some q"
  shows "\<exists>ge'. ge_push_block malloc \<lparr>b_vcn = v, b_lcn = l, b_length = n\<rparr> ge = Some ge' \<and> gap_inv ge' \<and>
    (\<forall>x. gap_before ge x \<longrightarrow> gap_before ge' x) \<and> gap_free ge' = gap_free ge \<union> extent l n"
proof -
  obtain as bs where s: "regions ge = as @ bs" "wf_runs (runs_of ge as @ runs_of ge bs)"
    "gap_free ge = run_clusters (runs_of ge as @ runs_of ge bs)"
    "\<forall>(k, p) \<in> set as. k < l \<and> unat k + unat (len_at ge p) \<le> unat l"
    "\<forall>(k, p) \<in> set bs. l < k \<and> unat l + unat n \<le> unat k"
    "map_prev_lower l (regions ge) = (if as = [] then None else Some (last as))"
    by (rule push_split [OF inv ok dis])
  have ln: "unat (l + n) = unat l + unat n" "n \<noteq> 0" using ok by (auto simp: run_okD run_ok_def)
  obtain bs' where bs: "bs = (l + n, q) # bs'"
    by (rule push_next_some [OF inv s(1) nn]) (use s(4,5) ln in \<open>auto simp: nowrap\<close>)
  obtain as' where as: "as = as' @ [(k, p)]"
    using s(6) pv(1) by (cases as rule: rev_cases) auto
  have regs: "regions ge = as' @ (k, p) # (l + n, q) # bs'" by (simp add: s(1) as bs)
  have regs': "regions ge = (as' @ [(k, p)]) @ (l + n, q) # bs'" by (simp add: regs)
  obtain r where r: "deref ge p = Some r" "r_lcn r = k" "len_at ge p = r_length r"
    by (rule gap_inv_deref [OF inv, of k p]) (simp add: regs)
  obtain t where t: "deref ge q = Some t" "r_lcn t = l + n" "len_at ge q = r_length t"
    by (rule gap_inv_deref [OF inv, of "l + n" q]) (simp add: regs)
  have l: "l = k + r_length r" using pv(2) r(3) by simp
  define m where "m = r\<lparr>r_length := r_length r + (n + r_length t)\<rparr>"
  have m: "r_lcn m = k" "r_length m = r_length r + (n + r_length t)" by (simp_all add: m_def r)
  have wf: "wf_runs (runs_of ge as' @ (k, r_length r) # (k + r_length r + n, r_length t) # runs_of ge bs')"
    using s(2) by (simp add: as bs r t l)
  have kr: "unat (k + r_length r) = unat k + unat (r_length r)"
    using wf by (auto simp: wf_runs_append wf_runs_Cons intro: run_okD)
  have ov: "unat k + unat (r_length r) + unat n + unat (r_length t) < 2 ^ 64"
    using wf ln kr by (auto simp: wf_runs_append wf_runs_Cons run_ok_def l)
  note br = runs_bridge [OF wf ov]
  define g1 where "g1 = ge\<lparr>regions := as' @ (k, p) # bs', sizes := mm_erase_one (r_length t) q (sizes ge)\<rparr>"
  have g1: "gap_inv g1" "regions g1 = as' @ (k, p) # bs'" "deref g1 = deref ge"
    using gap_remove(1) [OF inv regs' t(1)] by (simp_all add: g1_def)
  have la: "len_at g1 = len_at ge" by (simp add: len_at_def g1(3) fun_eq_iff)
  have d1: "deref g1 p = Some r" by (simp add: g1(3) r(1))
  have "wf_runs (runs_of g1 as' @ (r_lcn m, r_length m) # runs_of g1 bs')" using br(1) by (simp add: la m)
  note rep = gap_replace [OF g1(1,2) d1 this, unfolded m la]
  note strict = gap_inv_strict [OF inv, unfolded regs']
  have er: "map_erase (l + n) (regions ge) = as' @ (k, p) # bs'"
    unfolding regs' map_erase_at [OF strict] by simp
  have "ge_push_block malloc \<lparr>b_vcn = v, b_lcn = l, b_length = n\<rparr> ge =
      Some ((assign p m g1)\<lparr>regions := as' @ (k, p) # bs',
        sizes := mm_insert (r_length r + (n + r_length t)) p (mm_erase_one (r_length r) p (sizes g1))\<rparr>)"
    using pv(1) nn r t l ln er
    by (simp add: ge_push_block_def Let_def m_def g1_def mm_erase_one_def remove1_commute)
  moreover have "k < l + n" using s(4) as ln by (auto simp: nowrap)
  then have "l + n < x \<Longrightarrow> k < x" for x by (rule less_trans)
  ultimately show ?thesis
    using rep br(2) s(3) by (simp add: gap_free_def as bs l r t) (auto simp: gap_before_def regs l)
qed

lemma ge_push_block_correct:
  assumes inv: "gap_inv ge" and fm: "fresh_malloc malloc" and ready: "gap_before ge (b_lcn b)"
    and ok: "run_ok (b_lcn b, b_length b)" and dis: "extent (b_lcn b) (b_length b) \<inter> gap_free ge = {}"
  shows "\<exists>ge'. ge_push_block malloc b ge = Some ge' \<and> gap_inv ge' \<and> (\<forall>x. gap_before ge x \<longrightarrow> gap_before ge' x) \<and>
    gap_free ge' = gap_free ge \<union> extent (b_lcn b) (b_length b)"
proof -
  let ?l = "b_lcn b" and ?n = "b_length b"
  have b: "b = \<lparr>b_vcn = b_vcn b, b_lcn = ?l, b_length = ?n\<rparr>" by simp
  show ?thesis
  proof (cases "\<exists>k p. map_prev_lower ?l (regions ge) = Some (k, p) \<and> k + len_at ge p = ?l")
    case True
    then obtain k p where "map_prev_lower ?l (regions ge) = Some (k, p)" "k + len_at ge p = ?l" by blast
    then show ?thesis
      using push_merge_prev [OF inv ok dis, of k p malloc "b_vcn b"]
        push_bridge [OF inv ok dis, of k p _ malloc "b_vcn b"] b
      by (cases "map_find (?l + ?n) (regions ge)") auto
  next
    case False
    then have np: "\<And>k p. map_prev_lower ?l (regions ge) = Some (k, p) \<Longrightarrow> k + len_at ge p \<noteq> ?l" by blast
    show ?thesis
      using push_alone [OF inv fm ready ok dis np, of "b_vcn b"]
        push_merge_next [OF inv ok dis ready np, of _ malloc "b_vcn b"] b
      by (cases "map_find (?l + ?n) (regions ge)") auto
  qed
qed

subsection \<open>The contract\<close>

lemma claimable_subset: "gap_inv ge \<Longrightarrow> gap_claimable ge l n \<Longrightarrow> extent l n \<subseteq> gap_free ge"
proof -
  assume inv: "gap_inv ge" and c: "gap_claimable ge l n"
  obtain p r where p: "map_find l (regions ge) = Some p" "deref ge p = Some r" "n \<le> r_length r"
    using c by (auto simp: gap_claimable_def)
  have "(l, r_length r) \<in> set (gap_runs ge)"
    using map_find_mem [OF p(1)] p(2) by (force simp: gap_runs_def len_at_def)
  then have "extent l (r_length r) \<subseteq> gap_free ge" by (force simp: gap_free_def run_clusters_def)
  moreover have "extent l n \<subseteq> extent l (r_length r)" using p(3) by (auto simp: extent_def nowrap)
  ultimately show ?thesis by blast
qed

interpretation gaps: free_space "\<lambda>ge. fresh_malloc malloc \<and> gap_inv ge" gap_free
  gap_before gap_claimable
  "\<lambda>l n. ge_push_block malloc \<lparr>b_vcn = v, b_lcn = l, b_length = n\<rparr>" "ge_pop malloc fresh"
  for malloc fresh v
proof unfold_locales
  fix s l n
  assume "fresh_malloc malloc \<and> gap_inv s" "gap_before s l" "run_ok (l, n)" "extent l n \<inter> gap_free s = {}"
  then show "\<exists>s'. ge_push_block malloc \<lparr>b_vcn = v, b_lcn = l, b_length = n\<rparr> s = Some s' \<and>
      (fresh_malloc malloc \<and> gap_inv s') \<and> (\<forall>x. gap_before s x \<longrightarrow> gap_before s' x) \<and> gap_free s' = gap_free s \<union> extent l n"
    using ge_push_block_correct [of s malloc "\<lparr>b_vcn = v, b_lcn = l, b_length = n\<rparr>"] by simp
next
  fix s l n
  assume "fresh_malloc malloc \<and> gap_inv s" "gap_claimable s l n"
  then show "\<exists>s'. ge_pop malloc fresh l n s = Some s' \<and> (fresh_malloc malloc \<and> gap_inv s') \<and>
      gap_free s' = gap_free s - extent l n"
    using ge_pop_correct by simp
qed (simp_all add: gap_free_def claimable_subset [unfolded gap_free_def])

subsection \<open>Scanning\<close>

lemma alloc_regions_fresh:
  assumes "fresh_malloc malloc"
  shows "distinct (map fst (alloc_regions malloc live rs)) \<and> 0 \<notin> fst ` set (alloc_regions malloc live rs) \<and>
    fst ` set (alloc_regions malloc live rs) \<inter> set live = {} \<and> map snd (alloc_regions malloc live rs) = rs"
proof (induction rs arbitrary: live)
  case (Cons r rs)
  show ?case
    using Cons.IH [of "malloc live # live"] assms [unfolded fresh_malloc_def, rule_format, of live]
    by (auto simp: Let_def)
qed simp

lemma map_insert_last:
  "(\<And>e. e \<in> set es \<Longrightarrow> fst e < k) \<Longrightarrow> map_insert k v es = es @ [(k, v)]"
  using map_insert_at [of es k "[]" v] by simp

lemma filter_regions:
  assumes "sorted_wrt (<) (map (\<lambda>e. r_lcn (snd e)) rs)"
    "\<And>e r. e \<in> set es \<Longrightarrow> r \<in> set rs \<Longrightarrow> fst e < r_lcn (snd r)"
  shows "fold (\<lambda>(p, r). map_insert (r_lcn r) p) rs es = es @ map (\<lambda>(p, r). (r_lcn r, p)) rs"
  using assms
proof (induction rs arbitrary: es)
  case (Cons x rs)
  obtain p r where x: "x = (p, r)" by (cases x)
  have "map_insert (r_lcn r) p es = es @ [(r_lcn r, p)]"
    using Cons.prems(2) [of _ x] x by (intro map_insert_last) simp
  moreover have "fold (\<lambda>(p, r). map_insert (r_lcn r) p) rs (es @ [(r_lcn r, p)]) =
      (es @ [(r_lcn r, p)]) @ map (\<lambda>(p, r). (r_lcn r, p)) rs"
    using Cons.prems x by (intro Cons.IH) auto
  ultimately show ?case by (simp add: x)
qed simp

lemma filter_sizes:
  "mset (fold (\<lambda>(p, r). mm_insert (r_length r) p) rs es) = mset es + image_mset (\<lambda>(p, r). (r_length r, p)) (mset rs)"
  by (induction rs arbitrary: es) (auto simp: case_prod_beta)

lemma filter_sizes_sorted:
  "keys_sorted es \<Longrightarrow> keys_sorted (fold (\<lambda>(p, r). mm_insert (r_length r) p) rs es)"
proof (induction rs arbitrary: es)
  case (Cons x rs)
  obtain p r where x: "x = (p, r)" by (cases x)
  show ?case using Cons.IH [OF sorted_mm_insert [OF Cons.prems]] by (simp add: x)
qed simp

lemma ge_scan_correct:
  assumes fm: "fresh_malloc malloc" and wf: "wf_runs (map run_of fresh)"
  shows "gap_inv (ge_scan malloc fresh ge)" and "gap_runs (ge_scan malloc fresh ge) = map run_of fresh"
    and "regions (ge_scan malloc fresh ge) = [] \<longleftrightarrow> fresh = []"
proof -
  define rs where "rs = alloc_regions malloc [] fresh"
  let ?ge = "ge_scan malloc fresh ge"
  have rs: "distinct (map fst rs)" "0 \<notin> fst ` set rs" "map snd rs = fresh"
    using alloc_regions_fresh [OF fm, of "[]" fresh] by (simp_all add: rs_def)
  have "sorted_wrt (<) (map r_lcn fresh)"
    using wf_runs_sorted [OF wf] by (simp add: comp_def run_of_def)
  then have "sorted_wrt (<) (map (\<lambda>e. r_lcn (snd e)) rs)"
    by (simp add: rs(3) [symmetric] comp_def)
  from filter_regions [OF this, of "[]"]
  have regs: "regions ?ge = map (\<lambda>(p, r). (r_lcn r, p)) rs"
    by (simp add: ge_scan_def ge_filter_def rs_def)
  have info: "info ?ge = rs" by (simp add: ge_scan_def ge_filter_def rs_def)
  have de: "deref ?ge p = Some r" "len_at ?ge p = r_length r" if "(p, r) \<in> set rs" for p r
    using rs(1) that by (simp_all add: deref_def info len_at_def)
  have sizes: "keys_sorted (sizes ?ge)" "mset (sizes ?ge) = image_mset (\<lambda>(p, r). (r_length r, p)) (mset rs)"
    using filter_sizes [of rs "[]"] filter_sizes_sorted [of "[]" rs]
    by (simp_all add: ge_scan_def ge_filter_def rs_def)
  have "gap_runs ?ge = map (run_of \<circ> snd) rs"
    using de(2) by (auto simp: gap_runs_def regs run_of_def)
  then show runs: "gap_runs ?ge = map run_of fresh" using rs(3) by auto
  show "gap_inv ?ge"
  proof (rule gap_invI)
    have "map snd (regions ?ge) = map fst rs" by (auto simp: regs)
    then show "distinct (map snd (regions ?ge))" using rs(1) by simp
    show "mset (sizes ?ge) = image_mset (\<lambda>(k, p). (len_at ?ge p, p)) (mset (regions ?ge))"
      using de(2) by (auto simp: sizes regs multiset.map_comp intro!: image_mset_cong)
  qed (use rs sizes runs wf de info regs in auto)
  show "regions ?ge = [] \<longleftrightarrow> fresh = []" using rs(3) by (auto simp: regs)
qed

subsection \<open>Choosing a gap\<close>

text \<open>A region that \<open>best\<close> may answer with: it is not the excluded one, and behind it if asked.\<close>

definition acceptable :: "gap_enum \<Rightarrow> (addr \<times> volume_region) option \<Rightarrow> bool \<Rightarrow> addr \<Rightarrow> bool" where
  "acceptable ge nt behindOnly p \<longleftrightarrow>
     (case nt of None \<Rightarrow> True
      | Some (q, nr) \<Rightarrow> p \<noteq> q \<and> (behindOnly \<longrightarrow> r_lcn nr < r_lcn (the (deref ge p))))"

lemma pick_find:
  assumes "\<forall>(k, p) \<in> set es. deref ge p \<noteq> None"
  shows "pick ge nt behindOnly es = Some (map_option snd (List.find (\<lambda>e. acceptable ge nt behindOnly (snd e)) es))"
  using assms
proof (induction es)
  case (Cons e es)
  obtain k p where e: "e = (k, p)" by (cases e)
  from Cons.prems e obtain r where "deref ge p = Some r" by auto
  with Cons e show ?case by (auto simp: acceptable_def not_less not_le split: option.splits)
qed simp

lemma find_mem:
  "List.find P es = Some e \<Longrightarrow> e \<in> set es \<and> P e" "List.find P es = None \<Longrightarrow> e \<in> set es \<Longrightarrow> \<not> P e"
  by (auto simp: find_Some_iff find_None_iff)

lemma mem_takeWhile_rev:
  assumes "keys_sorted es"
  shows "e \<in> set (takeWhile (\<lambda>e. c \<le> fst e) (rev es)) \<longleftrightarrow> e \<in> set es \<and> c \<le> fst e"
  using assms
proof (induction es rule: rev_induct)
  case (snoc x xs)
  then show ?case by (auto simp: sorted_append)
qed simp

lemma sizes_mem:
  assumes "gap_inv ge"
  shows "(n, p) \<in> set (sizes ge) \<longleftrightarrow> (\<exists>k. (k, p) \<in> set (regions ge) \<and> n = len_at ge p)"
proof -
  have "set (sizes ge) = (\<lambda>(k, p). (len_at ge p, p)) ` set (regions ge)"
    using arg_cong [OF gap_invD(6) [OF assms], of set_mset] by simp
  then show ?thesis by force
qed

lemma ge_best_unfold:
  fixes nt behindOnly
  assumes inv: "gap_inv ge"
  defines "first \<equiv> \<lambda>es. List.find (\<lambda>e. acceptable ge nt behindOnly (snd e)) es"
  shows "ge_best clusters nt behindOnly ge = Some (map_option snd
    (case first (mm_equal_range clusters (sizes ge)) of Some e \<Rightarrow> Some e | None \<Rightarrow>
      case first (mm_upper_bound (max (clusters * 3 div 2) (clusters + 512)) (sizes ge)) of Some e \<Rightarrow> Some e | None \<Rightarrow>
        first (takeWhile (\<lambda>e. \<not> fst e < clusters) (rev (sizes ge)))))"
proof -
  have "\<forall>(k, p) \<in> set (sizes ge). deref ge p \<noteq> None"
    using inv by (fastforce simp: sizes_mem gap_inv_def)
  then have d: "pick ge nt behindOnly es = Some (map_option snd (first es))" if "set es \<subseteq> set (sizes ge)" for es
    unfolding first_def using that by (intro pick_find) auto
  have s: "set (mm_equal_range clusters (sizes ge)) \<subseteq> set (sizes ge)"
    "set (mm_upper_bound m (sizes ge)) \<subseteq> set (sizes ge)"
    "set (takeWhile (\<lambda>e. \<not> fst e < clusters) (rev (sizes ge))) \<subseteq> set (sizes ge)" for m
    by (auto simp: mm_equal_range_def mm_upper_bound_def dest: set_takeWhileD set_dropWhileD)
  show ?thesis
  proof (cases "sizes ge = []")
    case True
    then show ?thesis by (simp add: ge_best_def first_def mm_equal_range_def mm_upper_bound_def)
  next
    case False
    then show ?thesis
      unfolding ge_best_def d [OF s(1)] d [OF s(2)] d [OF s(3)]
      by (cases "first (mm_equal_range clusters (sizes ge))";
          cases "first (mm_upper_bound (max (clusters * 3 div 2) (clusters + 512)) (sizes ge))") simp_all
  qed
qed


lemma find_first:
  "sorted_wrt R es \<Longrightarrow> List.find P es = Some e \<Longrightarrow> f \<in> set es \<Longrightarrow> P f \<Longrightarrow> f = e \<or> R e f"
  by (induction es) (auto split: if_splits)

definition slack :: "u64 \<Rightarrow> u64" where
  "slack clusters = max (clusters * 3 div 2) (clusters + 512)"

definition candidate :: "gap_enum \<Rightarrow> (addr \<times> volume_region) option \<Rightarrow> bool \<Rightarrow> addr \<Rightarrow> bool" where
  "candidate ge nt behindOnly p \<longleftrightarrow> p \<in> snd ` set (regions ge) \<and> acceptable ge nt behindOnly p"

definition best_choice :: "gap_enum \<Rightarrow> u64 \<Rightarrow> (addr \<Rightarrow> bool) \<Rightarrow> addr \<Rightarrow> bool" where
  "best_choice ge clusters C p \<longleftrightarrow> C p \<and> clusters \<le> len_at ge p \<and>
     (if \<exists>q. C q \<and> len_at ge q = clusters then len_at ge p = clusters
      else if \<exists>q. C q \<and> slack clusters < len_at ge q
        then slack clusters < len_at ge p \<and>
          (\<forall>q. C q \<longrightarrow> slack clusters < len_at ge q \<longrightarrow> len_at ge p \<le> len_at ge q)
      else (\<forall>q. C q \<longrightarrow> len_at ge q \<le> len_at ge p))"

lemma sizes_entry:
  assumes "gap_inv ge"
  shows "e \<in> set (sizes ge) \<Longrightarrow> fst e = len_at ge (snd e) \<and> snd e \<in> snd ` set (regions ge)"
    and "p \<in> snd ` set (regions ge) \<Longrightarrow> (len_at ge p, p) \<in> set (sizes ge)"
  by (cases e, force simp: sizes_mem [OF assms]) (force simp: sizes_mem [OF assms])

lemma candidate_sizes:
  assumes "gap_inv ge"
  shows "candidate ge nt behindOnly p \<longleftrightarrow> (len_at ge p, p) \<in> set (sizes ge) \<and> acceptable ge nt behindOnly p"
  using sizes_entry(1) [OF assms, of "(len_at ge p, p)"] sizes_entry(2) [OF assms, of p]
  by (auto simp: candidate_def)

text \<open>The first entry of each of the three lists, and what it means that there is none.\<close>

lemma best_exact:
  assumes inv: "gap_inv ge"
  shows "List.find (\<lambda>e. acceptable ge nt behindOnly (snd e)) (mm_equal_range c (sizes ge)) = Some e \<Longrightarrow>
      candidate ge nt behindOnly (snd e) \<and> len_at ge (snd e) = c"
    and "List.find (\<lambda>e. acceptable ge nt behindOnly (snd e)) (mm_equal_range c (sizes ge)) = None \<Longrightarrow>
      candidate ge nt behindOnly p \<Longrightarrow> len_at ge p \<noteq> c"
proof -
  show "candidate ge nt behindOnly (snd e) \<and> len_at ge (snd e) = c"
    if "List.find (\<lambda>e. acceptable ge nt behindOnly (snd e)) (mm_equal_range c (sizes ge)) = Some e"
    using find_mem(1) [OF that] sizes_entry(1) [OF inv, of e] by (auto simp: set_mm_equal_range candidate_def)
  show "len_at ge p \<noteq> c"
    if "List.find (\<lambda>e. acceptable ge nt behindOnly (snd e)) (mm_equal_range c (sizes ge)) = None"
      "candidate ge nt behindOnly p"
    using find_mem(2) [OF that(1), of "(c, p)"] that(2)
    by (auto simp: set_mm_equal_range candidate_sizes [OF inv])
qed

lemma best_above:
  assumes inv: "gap_inv ge"
  shows "List.find (\<lambda>e. acceptable ge nt behindOnly (snd e)) (mm_upper_bound m (sizes ge)) = Some e \<Longrightarrow>
      candidate ge nt behindOnly (snd e) \<and> m < len_at ge (snd e) \<and>
      (\<forall>q. candidate ge nt behindOnly q \<longrightarrow> m < len_at ge q \<longrightarrow> len_at ge (snd e) \<le> len_at ge q)"
    and "List.find (\<lambda>e. acceptable ge nt behindOnly (snd e)) (mm_upper_bound m (sizes ge)) = None \<Longrightarrow>
      candidate ge nt behindOnly p \<Longrightarrow> len_at ge p \<le> m"
proof -
  note up = set_mm_upper_bound [OF gap_invD(5) [OF inv]]
  show "candidate ge nt behindOnly (snd e) \<and> m < len_at ge (snd e) \<and>
      (\<forall>q. candidate ge nt behindOnly q \<longrightarrow> m < len_at ge q \<longrightarrow> len_at ge (snd e) \<le> len_at ge q)"
    if f: "List.find (\<lambda>e. acceptable ge nt behindOnly (snd e)) (mm_upper_bound m (sizes ge)) = Some e"
  proof -
    have "sorted_wrt (\<lambda>a b. fst a \<le> fst b) (mm_upper_bound m (sizes ge))"
      using sorted_mm_upper_bound [OF gap_invD(5) [OF inv]] by (simp add: sorted_wrt_map)
    note min = find_first [OF this f]
    have e: "e \<in> set (sizes ge)" "m < fst e" "acceptable ge nt behindOnly (snd e)" "fst e = len_at ge (snd e)"
      "snd e \<in> snd ` set (regions ge)"
      using find_mem(1) [OF f] sizes_entry(1) [OF inv, of e] by (simp_all add: up)
    have "len_at ge (snd e) \<le> len_at ge q" if "candidate ge nt behindOnly q" "m < len_at ge q" for q
      using min [of "(len_at ge q, q)"] that e by (auto simp: up candidate_sizes [OF inv])
    then show ?thesis using e by (simp add: candidate_def)
  qed
  show "len_at ge p \<le> m"
    if "List.find (\<lambda>e. acceptable ge nt behindOnly (snd e)) (mm_upper_bound m (sizes ge)) = None"
      "candidate ge nt behindOnly p"
    using find_mem(2) [OF that(1), of "(len_at ge p, p)"] that(2)
    by (cases "m < len_at ge p") (auto simp: up candidate_sizes [OF inv])
qed

lemma best_largest:
  assumes inv: "gap_inv ge"
  shows "List.find (\<lambda>e. acceptable ge nt behindOnly (snd e)) (takeWhile (\<lambda>e. c \<le> fst e) (rev (sizes ge))) = Some e \<Longrightarrow>
      candidate ge nt behindOnly (snd e) \<and> c \<le> len_at ge (snd e) \<and>
      (\<forall>q. candidate ge nt behindOnly q \<longrightarrow> len_at ge q \<le> len_at ge (snd e))"
    and "List.find (\<lambda>e. acceptable ge nt behindOnly (snd e)) (takeWhile (\<lambda>e. c \<le> fst e) (rev (sizes ge))) = None \<Longrightarrow>
      candidate ge nt behindOnly p \<Longrightarrow> len_at ge p < c"
proof -
  note tw = mem_takeWhile_rev [OF gap_invD(5) [OF inv]]
  show "candidate ge nt behindOnly (snd e) \<and> c \<le> len_at ge (snd e) \<and>
      (\<forall>q. candidate ge nt behindOnly q \<longrightarrow> len_at ge q \<le> len_at ge (snd e))"
    if f: "List.find (\<lambda>e. acceptable ge nt behindOnly (snd e)) (takeWhile (\<lambda>e. c \<le> fst e) (rev (sizes ge))) = Some e"
  proof -
    have "sorted_wrt (\<lambda>a b. fst b \<le> fst a) (rev (sizes ge))"
      using gap_invD(5) [OF inv] by (simp add: sorted_wrt_map sorted_wrt_rev)
    then have "sorted_wrt (\<lambda>a b. fst b \<le> fst a) (takeWhile (\<lambda>e. c \<le> fst e) (rev (sizes ge)))"
      by (subst takeWhile_eq_take) (rule sorted_wrt_take)
    note max = find_first [OF this f]
    have e: "e \<in> set (sizes ge)" "c \<le> fst e" "acceptable ge nt behindOnly (snd e)" "fst e = len_at ge (snd e)"
      "snd e \<in> snd ` set (regions ge)"
      using find_mem(1) [OF f] sizes_entry(1) [OF inv, of e] by (simp_all add: tw)
    have "len_at ge q \<le> len_at ge (snd e)" if "candidate ge nt behindOnly q" for q
      using max [of "(len_at ge q, q)"] that e
      by (cases "c \<le> len_at ge q") (auto simp: tw candidate_sizes [OF inv])
    then show ?thesis using e by (simp add: candidate_def)
  qed
  show "len_at ge p < c"
    if "List.find (\<lambda>e. acceptable ge nt behindOnly (snd e)) (takeWhile (\<lambda>e. c \<le> fst e) (rev (sizes ge))) = None"
      "candidate ge nt behindOnly p"
    using find_mem(2) [OF that(1), of "(len_at ge p, p)"] that(2)
    by (cases "c \<le> len_at ge p") (auto simp: tw candidate_sizes [OF inv])
qed

lemma slack_ge: "unat clusters + 512 < 2 ^ 64 \<Longrightarrow> clusters \<le> slack clusters"
proof -
  assume "unat clusters + 512 < 2 ^ 64"
  then have "unat (clusters + 512) = unat clusters + 512" by (subst unat_add_nowrap) simp_all
  then have "clusters \<le> clusters + 512" by (simp add: nowrap)
  then show ?thesis by (auto simp: slack_def max_def)
qed

lemma ge_best_choice:
  assumes inv: "gap_inv ge" and c: "unat clusters + 512 < 2 ^ 64"
  shows "\<exists>res. ge_best clusters nt behindOnly ge = Some res \<and>
    (case res of
       None \<Rightarrow> \<forall>p. candidate ge nt behindOnly p \<longrightarrow> len_at ge p < clusters
     | Some p \<Rightarrow> best_choice ge clusters (candidate ge nt behindOnly) p)"
proof -
  let ?C = "candidate ge nt behindOnly" and ?P = "\<lambda>e. acceptable ge nt behindOnly (snd e)"
  define e1 where "e1 = List.find ?P (mm_equal_range clusters (sizes ge))"
  define e2 where "e2 = List.find ?P (mm_upper_bound (slack clusters) (sizes ge))"
  define e3 where "e3 = List.find ?P (takeWhile (\<lambda>e. clusters \<le> fst e) (rev (sizes ge)))"
  have res: "ge_best clusters nt behindOnly ge = Some (map_option snd
      (case e1 of Some e \<Rightarrow> Some e | None \<Rightarrow> case e2 of Some e \<Rightarrow> Some e | None \<Rightarrow> e3))"
    unfolding ge_best_unfold [OF inv] e1_def e2_def e3_def slack_def not_less ..
  note x1 = best_exact [OF inv, of nt behindOnly clusters, folded e1_def]
  note x2 = best_above [OF inv, of nt behindOnly "slack clusters", folded e2_def]
  note x3 = best_largest [OF inv, of nt behindOnly clusters, folded e3_def]
  show ?thesis
  proof (cases e1)
    case (Some e)
    then have "best_choice ge clusters ?C (snd e)" using x1(1) [OF Some] by (auto simp: best_choice_def)
    then show ?thesis using res Some by simp
  next
    case e1: None
    show ?thesis
    proof (cases e2)
      case (Some e)
      then have "best_choice ge clusters ?C (snd e)"
        using x2(1) [OF Some] x1(2) [OF e1] slack_ge [OF c] by (auto simp: best_choice_def)
      then show ?thesis using res Some e1 by simp
    next
      case e2: None
      show ?thesis
      proof (cases e3)
        case (Some e)
        then have "best_choice ge clusters ?C (snd e)"
          using x3(1) [OF Some] x1(2) [OF e1] x2(2) [OF e2] by (force simp: best_choice_def)
        then show ?thesis using res Some e1 e2 by simp
      qed (use res e1 e2 x3(2) in simp)
    qed
  qed
qed

subsection \<open>Whole files\<close>

text \<open>A gap lies before every block that has clusters.\<close>

definition gap_before_all :: "gap_enum \<Rightarrow> winx_blockmap list \<Rightarrow> bool" where
  "gap_before_all ge bm \<longleftrightarrow> (\<forall>b \<in> set bm. b_length b \<noteq> 0 \<longrightarrow> gap_before ge (b_lcn b))"

lemma push_block_any:
  assumes "gap_inv ge" "fresh_malloc malloc" "b_length b \<noteq> 0 \<Longrightarrow> gap_before ge (b_lcn b)" "block_ok b"
    "extent (b_lcn b) (b_length b) \<inter> gap_free ge = {}"
  shows "\<exists>ge'. ge_push_block malloc b ge = Some ge' \<and> gap_inv ge' \<and> (\<forall>x. gap_before ge x \<longrightarrow> gap_before ge' x) \<and>
    gap_free ge' = gap_free ge \<union> extent (b_lcn b) (b_length b)"
proof (cases "b_length b = 0")
  case True
  then show ?thesis using assms by (simp add: ge_push_block_def extent_def)
next
  case False
  then have "run_ok (b_lcn b, b_length b)" using assms(4) by (simp add: run_ok_def block_ok_def)
  then show ?thesis using ge_push_block_correct [OF assms(1,2) assms(3) [OF False] _ assms(5)] by blast
qed

lemma ge_push_all:
  assumes "gap_inv ge" "fresh_malloc malloc" "gap_before_all ge bm" "blocks_ok bm"
    "block_clusters bm \<inter> gap_free ge = {}"
  shows "\<exists>ge'. ge_push malloc bm ge = Some ge' \<and> gap_inv ge' \<and> (\<forall>x. gap_before ge x \<longrightarrow> gap_before ge' x) \<and>
    gap_free ge' = gap_free ge \<union> block_clusters bm"
  using assms
proof (induction bm arbitrary: ge)
  case (Cons b bm)
  have b: "block_ok b" "blocks_ok bm" "\<forall>c \<in> set bm. blocks_apart b c"
    using Cons.prems(4) by (auto simp: blocks_ok_def)
  have d: "extent (b_lcn b) (b_length b) \<inter> gap_free ge = {}" using Cons.prems(5) by auto
  obtain ge1 where g1: "ge_push_block malloc b ge = Some ge1" "gap_inv ge1" "\<forall>x. gap_before ge x \<longrightarrow> gap_before ge1 x"
    "gap_free ge1 = gap_free ge \<union> extent (b_lcn b) (b_length b)"
    using push_block_any [OF Cons.prems(1,2) _ b(1) d] Cons.prems(3) by (auto simp: gap_before_all_def)
  have "extent (b_lcn b) (b_length b) \<inter> block_clusters bm = {}"
    using b(3) blocks_apart_disjoint by (fastforce simp: block_clusters_def)
  then have "block_clusters bm \<inter> gap_free ge1 = {}" using Cons.prems(5) g1(4) by auto
  moreover have "gap_before_all ge1 bm" using Cons.prems(3) g1(3) by (simp add: gap_before_all_def)
  ultimately show ?case using Cons.IH [OF g1(2) Cons.prems(2) _ b(2)] g1(1,3,4) by auto
qed simp

lemma gap_free_scan:
  "fresh_malloc malloc \<Longrightarrow> wf_runs (map run_of fresh) \<Longrightarrow>
     gap_free (ge_scan malloc fresh ge) = run_clusters (map run_of fresh)"
  by (simp add: gap_free_def ge_scan_correct)

subsection \<open>A small volume\<close>

definition demo_malloc :: allocator where
  "demo_malloc live = fold max live 0 + 1"

lemma demo_malloc_fresh: "fresh_malloc demo_malloc"
proof -
  have "(\<forall>x \<in> set live. x \<le> fold max live m) \<and> m \<le> fold max live m" for live and m :: nat
  proof (induction live arbitrary: m)
    case (Cons a live)
    show ?case using Cons.IH [of "max a m"] by auto
  qed simp
  then have "fold max live 0 + 1 \<notin> set live" for live :: "nat list"
    by (metis Suc_eq_plus1 not_less_eq_eq order_refl)
  then show ?thesis by (simp add: fresh_malloc_def demo_malloc_def)
qed

definition demo_gaps :: gap_enum where
  "demo_gaps = ge_scan demo_malloc [\<lparr>r_lcn = 10, r_length = 5\<rparr>, \<lparr>r_lcn = 20, r_length = 10\<rparr>]
     \<lparr>info = [], regions = [], sizes = []\<rparr>"

lemma demo_gaps_eval:
  "demo_gaps = \<lparr>info = [(1, \<lparr>r_lcn = 10, r_length = 5\<rparr>), (2, \<lparr>r_lcn = 20, r_length = 10\<rparr>)],
     regions = [(10, 1), (20, 2)], sizes = [(5, 1), (10, 2)]\<rparr>"
  by (simp add: demo_gaps_def ge_scan_def ge_filter_def demo_malloc_def Let_def)

lemma demo_gaps_runs: "gap_runs demo_gaps = [(10, 5), (20, 10)]"
  by (simp add: gap_runs_def len_at_def deref_def demo_gaps_eval)

lemma demo_gaps_inv: "gap_inv demo_gaps"
  unfolding demo_gaps_def
  by (rule ge_scan_correct(1) [OF demo_malloc_fresh])
    (simp add: run_of_def wf_runs_def run_ok_def run_before_def)

lemma demo_gaps_ready: "10 < l \<Longrightarrow> gap_before demo_gaps l"
  by (auto simp: gap_before_def demo_gaps_eval)

lemma demo_gaps_free: "gap_free demo_gaps = {10..<15} \<union> {20..<30}"
  by (simp add: gap_free_def demo_gaps_runs extent_def)

subsection \<open>Properties\<close>

text \<open>
  C3: returning the blocks of a file to the index (\<open>GapEnumeration::push\<close>), with a gap before every block that has
  clusters, succeeds, keeps the three views of the gaps (ring, \<open>regions_\<close>, \<open>sizes_\<close>) consistent with maximal,
  separated runs, and adds exactly the clusters of the blocks to the free space.
\<close>

theorem gap_push_adds_blocks:
  assumes "fresh_malloc malloc" "gap_inv ge" "gap_before_all ge bm" "blocks_ok bm"
    "block_clusters bm \<inter> gap_free ge = {}"
  shows "\<exists>ge'. ge_push malloc bm ge = Some ge' \<and> gap_inv ge' \<and> gap_before_all ge' bm \<and>
    gap_free ge' = gap_free ge \<union> block_clusters bm"
  using ge_push_all [OF assms(2,1,3-5)] assms(3) by (auto simp: gap_before_all_def)

theorem gap_push_adds_blocks_witness:
  "\<exists>ge'. ge_push demo_malloc [\<lparr>b_vcn = 0, b_lcn = 15, b_length = 5\<rparr>, \<lparr>b_vcn = 5, b_lcn = 40, b_length = 4\<rparr>] demo_gaps =
      Some ge' \<and> gap_inv ge' \<and>
      gap_before_all ge' [\<lparr>b_vcn = 0, b_lcn = 15, b_length = 5\<rparr>, \<lparr>b_vcn = 5, b_lcn = 40, b_length = 4\<rparr>] \<and>
      gap_free ge' = gap_free demo_gaps \<union>
        block_clusters [\<lparr>b_vcn = 0, b_lcn = 15, b_length = 5\<rparr>, \<lparr>b_vcn = 5, b_lcn = 40, b_length = 4\<rparr>]"
  by (rule gap_push_adds_blocks [OF demo_malloc_fresh demo_gaps_inv])
    (auto simp: demo_gaps_free extent_def gap_before_all_def demo_gaps_ready blocks_ok_def block_ok_def blocks_apart_def)

text \<open>
  C15: taking the start of a gap (\<open>GapEnumeration::pop\<close> at the first cluster of a gap, with a
  length that fits) succeeds, keeps the index consistent and removes exactly those clusters.
\<close>

theorem gap_pop_removes_range:
  assumes "gap_inv ge" "gap_claimable ge lcn len"
  shows "\<exists>ge'. ge_pop malloc fresh lcn len ge = Some ge' \<and> gap_inv ge' \<and>
    gap_free ge' = gap_free ge - extent lcn len"
  using ge_pop_correct [OF assms] .

theorem gap_pop_removes_range_witness:
  "\<exists>ge'. ge_pop demo_malloc [] 20 4 demo_gaps = Some ge' \<and> gap_inv ge' \<and>
    gap_free ge' = gap_free demo_gaps - extent 20 4"
  by (rule gap_pop_removes_range [OF demo_gaps_inv])
    (simp add: gap_claimable_def map_find_def deref_def demo_gaps_eval)

text \<open>
  C17: a scan (\<open>GapEnumeration::scan\<close> and \<open>filter\<close>) of separated regions builds a consistent
  index whose gaps are those regions, in order.
\<close>

theorem gap_scan_exact:
  assumes "fresh_malloc malloc" "wf_runs (map run_of fresh)"
  shows "gap_inv (ge_scan malloc fresh ge) \<and> gap_runs (ge_scan malloc fresh ge) = map run_of fresh"
  using ge_scan_correct(1,2) [OF assms] by blast

theorem gap_scan_exact_witness:
  "gap_inv (ge_scan demo_malloc [\<lparr>r_lcn = 3, r_length = 1\<rparr>, \<lparr>r_lcn = 7, r_length = 2\<rparr>] demo_gaps) \<and>
   gap_runs (ge_scan demo_malloc [\<lparr>r_lcn = 3, r_length = 1\<rparr>, \<lparr>r_lcn = 7, r_length = 2\<rparr>] demo_gaps) =
     map run_of [\<lparr>r_lcn = 3, r_length = 1\<rparr>, \<lparr>r_lcn = 7, r_length = 2\<rparr>]"
  by (rule gap_scan_exact [OF demo_malloc_fresh])
    (simp add: run_of_def wf_runs_def run_ok_def run_before_def)

text \<open>
  C16: \<open>GapEnumeration::best\<close> answers with a gap that fits, is not the excluded one and lies behind
  it when asked; it prefers an exact fit, then the smallest gap above the slack, then the largest
  gap; and it answers \<open>nullptr\<close> only if no such gap fits.
\<close>

theorem gap_best_choice:
  assumes "gap_inv ge" "unat clusters + 512 < 2 ^ 64"
  shows "\<exists>res. ge_best clusters nt behindOnly ge = Some res \<and>
    (case res of
       None \<Rightarrow> \<forall>p. candidate ge nt behindOnly p \<longrightarrow> len_at ge p < clusters
     | Some p \<Rightarrow> best_choice ge clusters (candidate ge nt behindOnly) p)"
  using ge_best_choice [OF assms] .

theorem gap_best_choice_witness:
  "ge_best 4 (Some (1, \<lparr>r_lcn = 10, r_length = 5\<rparr>)) True demo_gaps = Some (Some 2) \<and>
   best_choice demo_gaps 4 (candidate demo_gaps (Some (1, \<lparr>r_lcn = 10, r_length = 5\<rparr>)) True) 2"
proof -
  have e: "ge_best 4 (Some (1, \<lparr>r_lcn = 10, r_length = 5\<rparr>)) True demo_gaps = Some (Some 2)"
    by (simp add: ge_best_def mm_equal_range_def mm_upper_bound_def demo_gaps_eval deref_def)
  then show ?thesis
    using gap_best_choice [OF demo_gaps_inv, of 4 "Some (1, \<lparr>r_lcn = 10, r_length = 5\<rparr>)" True] by simp
qed

text \<open>
  Moving a block from \<open>ol\<close> into the start of a gap at \<open>l\<close> (\<open>push\<close> of the old place, then \<open>pop\<close>
  of the new one, the order of \<open>move_file\<close>) exchanges the two ranges in the free space and keeps
  its size.
\<close>

lemma gap_move_exchanges:
  assumes "fresh_malloc malloc" "gap_inv ge" "gap_before ge ol" "run_ok (ol, n)"
    "extent ol n \<inter> gap_free ge = {}"
    "\<And>ge'. ge_push_block malloc \<lparr>b_vcn = v, b_lcn = ol, b_length = n\<rparr> ge = Some ge' \<Longrightarrow> gap_claimable ge' l n"
  shows "\<exists>ge' ge''. ge_push_block malloc \<lparr>b_vcn = v, b_lcn = ol, b_length = n\<rparr> ge = Some ge' \<and>
    ge_pop malloc fresh l n ge' = Some ge'' \<and> gap_inv ge'' \<and>
    gap_free ge'' = (gap_free ge \<union> extent ol n) - extent l n \<and> card (gap_free ge'') = card (gap_free ge)"
  using gaps.claim_after_release [of malloc ge ol n v l fresh] assms by auto

end
