(* ===== verification/Operation.thy ===== *)
theory Operation
  imports Find_Best Gap_Enumeration Ftw Volume_Info
begin

unbundle bit_operations_syntax

text \<open>
  Model of the defragmenter itself (\<open>op.cpp\<close>, \<open>op.hpp\<close>): moving a file, moving a set of files into a
  gap, defragmenting, widening a gap, closing gaps, and the main loop \<open>Operation::run\<close>.

  The state of an \<open>Operation\<close> is a record, the outside world \<open>'w\<close> is passed along. The result of a
  function that may throw is the exception, if any, with the state it was thrown in. \<open>None\<close> means
  that the function does not return or runs into undefined behaviour. What is printed on the
  console, and the clock that is only printed, are left out. \<open>size_t\<close> has 64 bits.
\<close>

record Options =
  o_maxSize :: u64
  o_verbose :: int
  o_volume :: char
  o_aggressive :: bool
  o_gaps :: bool
  o_defrag :: bool
  o_widen :: bool

record operation =
  op_vol :: handle
  op_ge :: gap_enum
  op_fe :: file_enum
  op_opts :: Options
  op_moved :: u64
  op_movedLen :: u64
  op_last :: "addr option"
  op_replaced :: bool

record MOVEFILE_DESCRIPTOR =
  mfd_FileHandle :: handle
  mfd_StartVcn :: u64
  mfd_TargetLcn :: u64
  mfd_NumVcns :: u64

text \<open>
  \<open>new_object\<close> is the address of a new list item, \<open>gTerminated\<close> a read of the volatile flag that the
  console handler sets. The two statuses of a move are the one returned and the one stored on completion.
\<close>

record 'w nt_op = "'w nt_ftw" +
  new_object :: allocator
  fsctl_move_file :: "handle \<Rightarrow> MOVEFILE_DESCRIPTOR \<Rightarrow> 'w \<Rightarrow> (u32 \<times> u32) \<times> 'w"
  fsctl_get_volume_bitmap :: "handle \<Rightarrow> 'w \<Rightarrow> u64 \<Rightarrow> bitmap_answer"
  gTerminated :: "'w \<Rightarrow> int \<times> 'w"

datatype failure = Failed_to_open | Failed_to_move u32

type_synonym 'w thrown = "(failure option \<times> operation \<times> 'w) option"

definition terminated :: "('w, 'z) nt_op_scheme \<Rightarrow> 'w \<Rightarrow> bool \<times> 'w" where
  "terminated nt w = (let (t, w) = gTerminated nt w in (t \<noteq> 0, w))"

subsection \<open>Calls of the gap enumeration that may rescan the volume\<close>

definition free_regions :: "('w, 'z) nt_op_scheme \<Rightarrow> operation \<Rightarrow> 'w \<Rightarrow> (volume_region list \<times> 'w) option" where
  "free_regions nt op w =
     (let (f, w) = winx_vopen nt (o_volume (op_opts op)) w
      in do {
        fresh \<leftarrow> winx_get_free_volume_regions (f \<noteq> None) (fsctl_get_volume_bitmap nt (hFile (the f)) w) 0 None;
        Some (fresh, winx_fclose nt f w)
      })"

definition op_scan :: "('w, 'z) nt_op_scheme \<Rightarrow> operation \<Rightarrow> 'w \<Rightarrow> (operation \<times> 'w) option" where
  "op_scan nt op w = do {
     (fresh, w) \<leftarrow> free_regions nt op w;
     Some (op\<lparr>op_ge := ge_scan (new_object nt) fresh (op_ge op)\<rparr>, w)
   }"

definition op_pop :: "('w, 'z) nt_op_scheme \<Rightarrow> u64 \<Rightarrow> u64 \<Rightarrow> operation \<Rightarrow> 'w \<Rightarrow> (operation \<times> 'w) option" where
  "op_pop nt lcn len op w = do {
     (fresh, w) \<leftarrow> (if map_find lcn (regions (op_ge op)) = None then free_regions nt op w else Some ([], w));
     ge \<leftarrow> ge_pop (new_object nt) fresh lcn len (op_ge op);
     Some (op\<lparr>op_ge := ge\<rparr>, w)
   }"

fun op_pop_blocks :: "('w, 'z) nt_op_scheme \<Rightarrow> winx_blockmap list \<Rightarrow> operation \<Rightarrow> 'w \<Rightarrow> (operation \<times> 'w) option" where
  "op_pop_blocks nt [] op w = Some (op, w)"
| "op_pop_blocks nt (b # bm) op w = do {
     (op, w) \<leftarrow> op_pop nt (b_lcn b) (b_length b) op w;
     op_pop_blocks nt bm op w
   }"

subsection \<open>Moving\<close>

definition MAXULONG32 :: u64 where "MAXULONG32 = 0xFFFFFFFF"

text \<open>\<open>startlcn\<close> is set to 0 once and never changed.\<close>

definition move_request :: "('w, 'z) nt_op_scheme \<Rightarrow> winx_file_info \<Rightarrow> u32 \<Rightarrow> volume_region \<Rightarrow> operation \<Rightarrow> 'w \<Rightarrow>
  u32 option \<times> 'w" where
  "move_request nt f cur target op w =
     (let ((status, h), w) = winx_defrag_fopen nt f WINX_OPEN_FOR_MOVE w
      in if status \<noteq> STATUS_SUCCESS then (None, w)
         else
           let ((status, iosb), w) = fsctl_move_file nt (op_vol op)
                 \<lparr>mfd_FileHandle = h, mfd_StartVcn = 0, mfd_TargetLcn = r_lcn target, mfd_NumVcns = ucast cur\<rparr> w
           in (Some (if NT_SUCCESS status then iosb else status), winx_defrag_fclose nt h w))"

partial_function (option) move_loop :: "('w, 'z) nt_op_scheme \<Rightarrow> addr \<Rightarrow> u64 \<Rightarrow> volume_region \<Rightarrow> operation \<Rightarrow> 'w \<Rightarrow>
  (failure option \<times> operation \<times> 'w) option" where
  "move_loop nt a numlcns target op w =
     (let cur = ucast (min numlcns (MAXULONG32 - 10)) :: u32
      in if cur = 0 then Some (None, op, w)
         else do {
           f \<leftarrow> fderef (op_fe op) a;
           let (status, w) = move_request nt f cur target op w;
           (case status of
              None \<Rightarrow> Some (Some Failed_to_open, op, w)
            | Some status \<Rightarrow> do {
                ge \<leftarrow> ge_push (new_object nt) (f_blockmap f) (op_ge op);
                (_, f, w) \<leftarrow> winx_ftw_dump_file nt None f w;
                let op = op\<lparr>op_ge := ge, op_fe := fassign a f (op_fe op)\<rparr>;
                if NT_SUCCESS status then do {
                  (op, w) \<leftarrow> op_pop_blocks nt (f_blockmap f) op w;
                  fe \<leftarrow> fe_push a (op_fe op);
                  move_loop nt a (numlcns - ucast cur)
                    (target\<lparr>r_lcn := r_lcn target + ucast cur, r_length := r_length target - ucast cur\<rparr>)
                    (op\<lparr>op_fe := fe\<rparr>) w
                }
                else do {
                  fe \<leftarrow> (if status = STATUS_ALREADY_COMMITTED then fe_push a (op_fe op) else Some (op_fe op));
                  Some (Some (Failed_to_move status), op\<lparr>op_fe := fe\<rparr>, w)
                }
              })
         })"

definition move_file :: "('w, 'z) nt_op_scheme \<Rightarrow> addr \<Rightarrow> volume_region \<Rightarrow> operation \<Rightarrow> 'w \<Rightarrow> 'w thrown" where
  "move_file nt a g op w = do {
     fe \<leftarrow> fe_pop a (op_fe op);
     let op = op\<lparr>op_fe := fe\<rparr>;
     f \<leftarrow> fderef (op_fe op) a;
     (ex, op, w) \<leftarrow> move_loop nt a (f_clusters f) g op w;
     (case ex of
        Some e \<Rightarrow> Some (Some e, op, w)
      | None \<Rightarrow> do {
          f \<leftarrow> fderef (op_fe op) a;
          Some (None, op\<lparr>op_moved := op_moved op + 1, op_movedLen := op_movedLen op + f_clusters f,
                         op_replaced := True, op_last := Some a\<rparr>, w)
        })
   }"

text \<open>The result is \<open>true\<close> unless a move failed; a failure is caught.\<close>

fun move_set :: "('w, 'z) nt_op_scheme \<Rightarrow> addr list \<Rightarrow> volume_region \<Rightarrow> operation \<Rightarrow> 'w \<Rightarrow> (bool \<times> operation \<times> 'w) option" where
  "move_set nt [] r op w = Some (True, op, w)"
| "move_set nt (a # files) r op w =
     (let (stop, w) = terminated nt w
      in if stop then Some (True, op, w)
         else do {
           (ex, op, w) \<leftarrow> move_file nt a r op w;
           (case ex of
              Some _ \<Rightarrow> Some (False, op, w)
            | None \<Rightarrow> do {
                f \<leftarrow> fderef (op_fe op) a;
                move_set nt files (r\<lparr>r_lcn := r_lcn r + f_clusters f, r_length := r_length r - f_clusters f\<rparr>) op w
              })
         })"

subsection \<open>Defragmenting\<close>

fun collect_fragmented :: "('w, 'z) nt_op_scheme \<Rightarrow> file_enum \<Rightarrow> (u64, addr) entries \<Rightarrow> 'w \<Rightarrow> (addr list \<times> 'w) option" where
  "collect_fragmented nt fe [] w = Some ([], w)"
| "collect_fragmented nt fe ((c, a) # es) w =
     (let (stop, w) = terminated nt w
      in if stop then Some ([], w)
         else do {
           f \<leftarrow> fderef fe a;
           (as, w) \<leftarrow> collect_fragmented nt fe es w;
           Some (if d_fragments (f_disp f) > 1 then a # as else as, w)
         })"

fun defrag_files :: "('w, 'z) nt_op_scheme \<Rightarrow> addr list \<Rightarrow> operation \<Rightarrow> 'w \<Rightarrow> (operation \<times> 'w) option" where
  "defrag_files nt [] op w = Some (op, w)"
| "defrag_files nt (a # as) op w =
     (let (stop, w) = terminated nt w
      in if stop then Some (op, w)
         else do {
           op \<leftarrow> (if Some a = op_last op then do { fe \<leftarrow> fe_pop a (op_fe op); Some (op\<lparr>op_fe := fe\<rparr>) } else Some op);
           f \<leftarrow> fderef (op_fe op) a;
           g \<leftarrow> ge_best (f_clusters f) None False (op_ge op);
           (case g of
              None \<Rightarrow> defrag_files nt as op w
            | Some p \<Rightarrow> do {
                r \<leftarrow> deref (op_ge op) p;
                (ex, op, w) \<leftarrow> move_file nt a r op w;
                (op, w) \<leftarrow> (case ex of None \<Rightarrow> Some (op, w) | Some _ \<Rightarrow> op_scan nt op w);
                defrag_files nt as op w
              })
         })"

definition defrag :: "('w, 'z) nt_op_scheme \<Rightarrow> operation \<Rightarrow> 'w \<Rightarrow> (operation \<times> 'w) option" where
  "defrag nt op w = do {
     (fragmented, w) \<leftarrow> collect_fragmented nt (op_fe op) (buckets (op_fe op)) w;
     defrag_files nt fragmented op w
   }"

subsection \<open>Closing gaps\<close>

text \<open>
  The region \<open>r\<close> is a local copy, so its address is that of no item of the index; 0 stands for it.
  \<open>target\<close> is the region pointed to and whether it is \<open>r\<close> itself.
\<close>

partial_function (option) widen_loop :: "('w, 'z) nt_op_scheme \<Rightarrow> u64 \<Rightarrow> volume_region \<Rightarrow> u64 \<Rightarrow> u64 \<Rightarrow> operation \<Rightarrow> 'w \<Rightarrow>
  (bool \<times> operation \<times> 'w) option" where
  "widen_loop nt maxMoves r moved movedlen op w =
     (if \<not> o_widen (op_opts op) then Some (moved > 0, op, w)
      else
        let (stop, w) = terminated nt w
        in if stop \<or> \<not> movedlen < o_maxSize (op_opts op) div 2 \<or> \<not> moved < maxMoves then Some (moved > 0, op, w)
           else do {
             (fe, fa) \<leftarrow> fe_findAt (r_lcn r + r_length r) (op_fe op);
             let op = op\<lparr>op_fe := fe\<rparr>;
             (case fa of
                None \<Rightarrow> Some (moved > 0, op, w)
              | Some a \<Rightarrow> do {
                  f \<leftarrow> fderef (op_fe op) a;
                  t \<leftarrow> ge_best (f_clusters f) (Some (0, r)) True (op_ge op);
                  target \<leftarrow> (case t of
                      Some p \<Rightarrow> do { g \<leftarrow> deref (op_ge op) p; Some (Some (g, False)) }
                    | None \<Rightarrow> Some (if f_clusters f \<ge> o_maxSize (op_opts op) \<and> r_length r \<ge> f_clusters f
                                    then Some (r, True) else None));
                  (case target of
                     None \<Rightarrow> Some (moved > 0, op, w)
                   | Some (g, same) \<Rightarrow> do {
                       (ex, op, w) \<leftarrow> move_file nt a g op w;
                       (case ex of
                          Some _ \<Rightarrow> Some (False, op, w)
                        | None \<Rightarrow> do {
                            f \<leftarrow> fderef (op_fe op) a;
                            let r = (if same then r\<lparr>r_lcn := r_lcn r - f_clusters f\<rparr> else r);
                            widen_loop nt maxMoves (r\<lparr>r_length := r_length r + f_clusters f\<rparr>)
                              (moved + 1) (movedlen + f_clusters f) op w
                          })
                     })
                })
           })"

definition widen_behind :: "('w, 'z) nt_op_scheme \<Rightarrow> volume_region \<Rightarrow> u64 \<Rightarrow> operation \<Rightarrow> 'w \<Rightarrow>
  (bool \<times> operation \<times> 'w) option" where
  "widen_behind nt g maxMoves op w = widen_loop nt maxMoves g 0 0 op w"

text \<open>\<open>ge->pop(g)\<close> reads the region through the pointer at the time of the call.\<close>

definition op_pop_region :: "('w, 'z) nt_op_scheme \<Rightarrow> addr \<Rightarrow> operation \<Rightarrow> 'w \<Rightarrow> (operation \<times> 'w) option" where
  "op_pop_region nt p op w = do {
     r \<leftarrow> deref (op_ge op) p;
     op_pop nt (r_lcn r) (r_length r) op w
   }"

text \<open>The body of the loop of \<open>close_gaps\<close> for the gap at \<open>p\<close>; the result is the new \<open>partialOK\<close>.\<close>

definition close_gap :: "('w, 'z) nt_op_scheme \<Rightarrow> addr \<Rightarrow> bool \<Rightarrow> operation \<Rightarrow> 'w \<Rightarrow> (bool \<times> operation \<times> 'w) option" where
  "close_gap nt p partialOK op w = do {
     g \<leftarrow> deref (op_ge op) p;
     if \<not> o_aggressive (op_opts op) \<and> r_length g > o_maxSize (op_opts op) then do {
       (op, w) \<leftarrow> op_pop_region nt p op w;
       Some (partialOK, op, w)
     }
     else do {
       files \<leftarrow> fe_findBest (r_lcn g) (r_length g) partialOK (op_fe op);
       if files \<noteq> [] then do {
         (ok, op, w) \<leftarrow> move_set nt files g op w;
         if \<not> ok then do {
           (op, w) \<leftarrow> op_scan nt op w;
           Some (partialOK, op, w)
         }
         else Some (False, op, w)
       }
       else do {
         (widened, op, w) \<leftarrow> widen_behind nt g (if partialOK then 100 else 3) op w;
         if \<not> widened \<and> partialOK then do {
           (op, w) \<leftarrow> op_pop_region nt p op w;
           Some (False, op, w)
         }
         else Some (True, op, w)
       }
     }
   }"

partial_function (option) close_loop :: "('w, 'z) nt_op_scheme \<Rightarrow> bool \<Rightarrow> operation \<Rightarrow> 'w \<Rightarrow> (operation \<times> 'w) option" where
  "close_loop nt partialOK op w =
     (case ge_next (op_ge op) of
        None \<Rightarrow> Some (op, w)
      | Some p \<Rightarrow>
          let (stop, w) = terminated nt w
          in if stop then Some (op, w)
             else do {
               (partialOK, op, w) \<leftarrow> close_gap nt p partialOK op w;
               close_loop nt partialOK op w
             })"

definition close_gaps :: "('w, 'z) nt_op_scheme \<Rightarrow> operation \<Rightarrow> 'w \<Rightarrow> (operation \<times> 'w) option" where
  "close_gaps nt op w = close_loop nt False op w"

subsection \<open>The main loop\<close>

partial_function (option) run_loop :: "('w, 'z) nt_op_scheme \<Rightarrow> operation \<Rightarrow> 'w \<Rightarrow> (operation \<times> 'w) option" where
  "run_loop nt op w =
     (let (stop, w) = terminated nt w
      in if stop \<or> \<not> op_replaced op then Some (op, w)
         else do {
           (op, w) \<leftarrow> (if o_defrag (op_opts op) then do { (op, w) \<leftarrow> defrag nt op w; op_scan nt op w } else Some (op, w));
           let op = op\<lparr>op_replaced := False\<rparr>;
           (op, w) \<leftarrow> (if o_gaps (op_opts op) then do { (op, w) \<leftarrow> close_gaps nt op w; op_scan nt op w } else Some (op, w));
           run_loop nt op w
         })"

record gap_summary =
  largest :: "u64 option"
  smallish :: u64
  smallsize :: u64
  largish :: u64
  largesize :: u64

text \<open>The numbers of the summary; the larger gaps are only counted if they are not listed.\<close>

fun summarize :: "Options \<Rightarrow> gap_enum \<Rightarrow> (u64, addr) entries \<Rightarrow> gap_summary \<Rightarrow> gap_summary option" where
  "summarize opts ge [] s = Some s"
| "summarize opts ge ((k, p) # es) s = do {
     r \<leftarrow> deref ge p;
     summarize opts ge es
       (if r_length r \<le> o_maxSize opts
        then s\<lparr>smallish := smallish s + 1, smallsize := smallsize s + r_length r\<rparr>
        else if o_verbose opts = 0 then s\<lparr>largish := largish s + 1, largesize := largesize s + r_length r\<rparr>
        else s)
   }"

definition gap_summary_of :: "Options \<Rightarrow> gap_enum \<Rightarrow> gap_summary option" where
  "gap_summary_of opts ge =
     summarize opts ge (regions ge)
       \<lparr>largest = (case rev (sizes ge) of [] \<Rightarrow> None | e # _ \<Rightarrow> Some (fst e)),
        smallish = 0, smallsize = 0, largish = 0, largesize = 0\<rparr>"

definition op_run :: "('w, 'z) nt_op_scheme \<Rightarrow> operation \<Rightarrow> 'w \<Rightarrow> (gap_summary \<times> operation \<times> 'w) option" where
  "op_run nt op w = do {
     (op, w) \<leftarrow> run_loop nt (op\<lparr>op_replaced := True\<rparr>) w;
     (op, w) \<leftarrow> op_scan nt op w;
     s \<leftarrow> gap_summary_of (op_opts op) (op_ge op);
     Some (s, op, w)
   }"

subsection \<open>Gaps and the runs of the free space\<close>

lemma runs_apart:
  assumes "wf_runs rs" "r \<in> set rs" "s \<in> set rs" "r \<noteq> s"
  shows "run_before r s \<or> run_before s r"
  using assms unfolding wf_runs_def
  by (metis in_set_conv_nth linorder_neqE_nat sorted_wrt_iff_nth_less)

lemma run_starting_at:
  assumes wf: "wf_runs rs" and n: "n \<noteq> 0" and sub: "extent l n \<subseteq> run_clusters rs"
    and start: "unat l = 0 \<or> unat l - 1 \<notin> run_clusters rs"
  shows "\<exists>m. (l, m) \<in> set rs \<and> n \<le> m"
proof -
  have n0: "0 < unat n" using n by (simp add: unat_gt_0)
  then have "unat l \<in> run_clusters rs" using sub by (auto simp: in_extent)
  then obtain k m where km: "(k, m) \<in> set rs" "unat k \<le> unat l" "unat l < unat k + unat m"
    by (auto simp: run_clusters_def in_extent)
  have "unat k = unat l"
  proof (rule ccontr)
    assume "unat k \<noteq> unat l"
    then have "unat l - 1 \<in> extent k m" "unat l \<noteq> 0" using km by (auto simp: in_extent)
    then show False using start km(1) by (force simp: run_clusters_def)
  qed
  then have k: "k = l" by (simp add: word_unat_eq_iff)
  have "n \<le> m"
  proof (rule ccontr)
    assume "\<not> n \<le> m"
    then have "unat l + unat m \<in> run_clusters rs" using sub by (auto simp: in_extent word_le_nat_alt)
    then obtain j i where ji: "(j, i) \<in> set rs" "unat j \<le> unat l + unat m" "unat l + unat m < unat j + unat i"
      by (auto simp: run_clusters_def in_extent)
    have "(j, i) \<noteq> (l, m)" using ji by auto
    then have "run_before (j, i) (l, m) \<or> run_before (l, m) (j, i)"
      using runs_apart [OF wf ji(1)] km(1) k by blast
    then show False using ji by (auto simp: run_before_def)
  qed
  then show ?thesis using km(1) k by blast
qed

lemma claimable_start:
  assumes "gap_inv ge" "gap_claimable ge l n"
  shows "unat l = 0 \<or> unat l - 1 \<notin> gap_free ge"
proof (rule ccontr)
  assume c: "\<not> (unat l = 0 \<or> unat l - 1 \<notin> gap_free ge)"
  obtain p where p: "(l, p) \<in> set (regions ge)" using assms(2) by (auto simp: gap_claimable_def dest: map_find_mem)
  then have l: "(l, len_at ge p) \<in> set (gap_runs ge)" by (force simp: gap_runs_def)
  obtain k m where km: "(k, m) \<in> set (gap_runs ge)" "unat l - 1 \<in> extent k m"
    using c by (auto simp: gap_free_def run_clusters_def)
  have "(k, m) \<noteq> (l, len_at ge p)" using km(2) c by (auto simp: in_extent)
  then have "run_before (k, m) (l, len_at ge p) \<or> run_before (l, len_at ge p) (k, m)"
    using runs_apart [OF gap_invD(4) [OF assms(1)] km(1) l] by blast
  then show False using km(2) c by (auto simp: run_before_def in_extent)
qed

lemma claimable_free:
  assumes "gap_inv ge" "n \<noteq> 0" "extent l n \<subseteq> gap_free ge" "unat l = 0 \<or> unat l - 1 \<notin> gap_free ge"
  shows "gap_claimable ge l n"
proof -
  obtain m where m: "(l, m) \<in> set (gap_runs ge)" "n \<le> m"
    using run_starting_at [OF gap_invD(4) [OF assms(1)] assms(2)] assms(3,4) by (auto simp: gap_free_def)
  then obtain p where p: "(l, p) \<in> set (regions ge)" "m = len_at ge p" by (auto simp: gap_runs_def)
  moreover obtain r where "deref ge p = Some r" using gap_inv_deref [OF assms(1) p(1)] by blast
  ultimately show ?thesis
    using m(2) gap_inv_strict [OF assms(1)] by (auto simp: gap_claimable_def map_find_strict len_at_def)
qed

text \<open>
  A gap stays where it is while the blocks of a file are given back, unless one of them ends where the
  gap begins.
\<close>

lemma claimable_after_push:
  assumes "gap_inv ge" "gap_claimable ge l n" "n \<noteq> 0" "gap_inv ge'" "gap_free ge' = gap_free ge \<union> C"
    "unat l = 0 \<or> unat l - 1 \<notin> C"
  shows "gap_claimable ge' l n"
proof (rule claimable_free [OF assms(4,3)])
  show "extent l n \<subseteq> gap_free ge'" using claimable_subset [OF assms(1,2)] assms(5) by blast
  show "unat l = 0 \<or> unat l - 1 \<notin> gap_free ge'" using claimable_start [OF assms(1,2)] assms(5,6) by blast
qed

subsection \<open>Moving one file\<close>

lemma op_pop_found:
  assumes "gap_inv (op_ge op)" "gap_claimable (op_ge op) l n"
  shows "\<exists>ge'. op_pop nt l n op w = Some (op\<lparr>op_ge := ge'\<rparr>, w) \<and> gap_inv ge' \<and>
    gap_free ge' = gap_free (op_ge op) - extent l n"
proof -
  obtain ge' where "ge_pop (new_object nt) [] l n (op_ge op) = Some ge'" "gap_inv ge'"
      "gap_free ge' = gap_free (op_ge op) - extent l n"
    using ge_pop_correct [OF assms] by blast
  moreover have "map_find l (regions (op_ge op)) \<noteq> None" using assms(2) by (auto simp: gap_claimable_def)
  ultimately show ?thesis by (auto simp: op_pop_def)
qed

lemma move_request_moved:
  assumes "winx_defrag_fopen nt f WINX_OPEN_FOR_MOVE w = ((STATUS_SUCCESS, h), w1)"
    "fsctl_move_file nt (op_vol op) \<lparr>mfd_FileHandle = h, mfd_StartVcn = 0, mfd_TargetLcn = r_lcn g, mfd_NumVcns = ucast cur\<rparr> w1 =
      ((STATUS_SUCCESS, s), w2)"
  shows "move_request nt f cur g op w = (Some s, winx_defrag_fclose nt h w2)"
  using assms by (simp add: move_request_def NT_SUCCESS_def STATUS_SUCCESS_def)

definition single_chunk :: "u64 \<Rightarrow> bool" where
  "single_chunk n \<longleftrightarrow> n \<noteq> 0 \<and> n \<le> MAXULONG32 - 10"

lemma single_chunk_cur:
  assumes "single_chunk n"
  shows "(ucast (min n (MAXULONG32 - 10)) :: u32) \<noteq> 0" "ucast (ucast (min n (MAXULONG32 - 10)) :: u32) = n"
proof -
  have m: "min n (MAXULONG32 - 10) = n" using assms by (simp add: single_chunk_def min_def)
  have "unat n \<le> unat (MAXULONG32 - 10)" using assms by (simp add: single_chunk_def word_le_nat_alt)
  then have "unat n < 2 ^ 32" by (simp add: MAXULONG32_def)
  then have "unat (ucast n :: u32) = unat n" by (simp add: unsigned_ucast_eq take_bit_nat_eq_self)
  then show "(ucast (min n (MAXULONG32 - 10)) :: u32) \<noteq> 0" "ucast (ucast (min n (MAXULONG32 - 10)) :: u32) = n"
    using assms by (auto simp: m single_chunk_def word_unat_eq_iff unat_ucast_u64)
qed


lemma move_loop_done: "move_loop nt a 0 g op w = Some (None, op, w)"
  by (subst move_loop.simps) simp

lemma move_loop_once:
  assumes "fderef (op_fe op) a = Some f" "single_chunk n"
    "move_request nt f (ucast (min n (MAXULONG32 - 10))) g op w = (Some s, w1)" "NT_SUCCESS s"
    "ge_push (new_object nt) (f_blockmap f) (op_ge op) = Some ge"
    "winx_ftw_dump_file nt None f w1 = Some (r, f', w2)"
    "op_pop_blocks nt (f_blockmap f') (op\<lparr>op_ge := ge, op_fe := fassign a f' (op_fe op)\<rparr>) w2 = Some (op2, w3)"
    "fe_push a (op_fe op2) = Some fe"
  shows "move_loop nt a n g op w = Some (None, op2\<lparr>op_fe := fe\<rparr>, w3)"
  using assms single_chunk_cur [OF assms(2)]
  by (subst move_loop.simps) (simp add: Let_def move_loop_done)

lemma move_loop_failed:
  assumes "fderef (op_fe op) a = Some f" "single_chunk n"
    "move_request nt f (ucast (min n (MAXULONG32 - 10))) g op w = (Some s, w1)" "\<not> NT_SUCCESS s" "s \<noteq> STATUS_ALREADY_COMMITTED"
    "ge_push (new_object nt) (f_blockmap f) (op_ge op) = Some ge"
    "winx_ftw_dump_file nt None f w1 = Some (r, f', w2)"
  shows "move_loop nt a n g op w =
    Some (Some (Failed_to_move s), op\<lparr>op_ge := ge, op_fe := fassign a f' (op_fe op)\<rparr>, w2)"
  using assms single_chunk_cur [OF assms(2)]
  by (subst move_loop.simps) (simp add: Let_def)

text \<open>
  What the system documents about moving a file of \<open>n\<close> clusters to \<open>l\<close>: the file can be opened, the
  request succeeds, and the map of the file afterwards is the one piece at \<open>l\<close>.
\<close>

definition moves_to :: "('w, 'z) nt_op_scheme \<Rightarrow> handle \<Rightarrow> winx_file_info \<Rightarrow> u64 \<Rightarrow> u64 \<Rightarrow> 'w \<Rightarrow> bool" where
  "moves_to nt vol f l n w \<longleftrightarrow>
     (\<exists>h w1 w2 h' w3.
        winx_defrag_fopen nt f WINX_OPEN_FOR_MOVE w = ((STATUS_SUCCESS, h), w1) \<and>
        fsctl_move_file nt vol \<lparr>mfd_FileHandle = h, mfd_StartVcn = 0, mfd_TargetLcn = l, mfd_NumVcns = n\<rparr> w1 =
          ((STATUS_SUCCESS, STATUS_SUCCESS), w2) \<and>
        winx_defrag_fopen nt (reset_disp f) WINX_OPEN_FOR_DUMP (winx_defrag_fclose nt h w2) = ((STATUS_SUCCESS, h'), w3) \<and>
        map_answers nt h' [\<lparr>p_Vcn = n, p_Lcn = l\<rparr>] w3)"

lemma moves_to_result:
  assumes "moves_to nt (op_vol op) f (r_lcn g) n w" "single_chunk n" "r_lcn g \<noteq> LLINVALID"
  obtains w1 f' w2 where "move_request nt f (ucast (min n (MAXULONG32 - 10))) g op w = (Some STATUS_SUCCESS, w1)"
    "winx_ftw_dump_file nt None f w1 = Some (0, f', w2)"
    "f_blockmap f' = [\<lparr>b_vcn = 0, b_lcn = r_lcn g, b_length = n\<rparr>]" "f_clusters f' = n"
proof -
  obtain h w1 w2 h' w3 where m: "winx_defrag_fopen nt f WINX_OPEN_FOR_MOVE w = ((STATUS_SUCCESS, h), w1)"
      "fsctl_move_file nt (op_vol op) \<lparr>mfd_FileHandle = h, mfd_StartVcn = 0, mfd_TargetLcn = r_lcn g, mfd_NumVcns = n\<rparr> w1 =
        ((STATUS_SUCCESS, STATUS_SUCCESS), w2)"
      "winx_defrag_fopen nt (reset_disp f) WINX_OPEN_FOR_DUMP (winx_defrag_fclose nt h w2) = ((STATUS_SUCCESS, h'), w3)"
      "map_answers nt h' [\<lparr>p_Vcn = n, p_Lcn = r_lcn g\<rparr>] w3"
    using assms(1) unfolding moves_to_def by blast
  have "0 < n" using assms(2) by (simp add: single_chunk_def word_neq_0_conv)
  then obtain f' where f': "winx_ftw_dump_file nt None f (winx_defrag_fclose nt h w2) = Some (0, f', winx_defrag_fclose nt h' w3)"
      "f_blockmap f' = [\<lparr>b_vcn = 0, b_lcn = r_lcn g, b_length = n\<rparr>]" "summary_ok (f_disp f')"
    using dump_exact [OF m(3,4), of None] assms(3) by (auto simp: ftw_check_for_termination_def)
  have "move_request nt f (ucast (min n (MAXULONG32 - 10))) g op w = (Some STATUS_SUCCESS, winx_defrag_fclose nt h w2)"
    by (rule move_request_moved [OF m(1)]) (use m(2) single_chunk_cur(2) [OF assms(2)] in simp)
  then show ?thesis using that f' by (simp add: summary_ok_def)
qed

text \<open>
  The state a move starts from: consistent indexes, the file \<open>f\<close> at \<open>a\<close> is indexed, is moved in one request, and its
  blocks are not free, and a gap is known before each of its blocks.
\<close>

definition ready_to_move :: "('w, 'z) nt_op_scheme \<Rightarrow> operation \<Rightarrow> addr \<Rightarrow> winx_file_info \<Rightarrow> bool" where
  "ready_to_move nt op a f \<longleftrightarrow>
     fresh_malloc (new_object nt) \<and> fe_inv (op_fe op) \<and> gap_inv (op_ge op) \<and> gap_before_all (op_ge op) (f_blockmap f) \<and>
     a \<in> members (op_fe op) \<and> fderef (op_fe op) a = Some f \<and> single_chunk (f_clusters f) \<and>
     blocks_ok (f_blockmap f) \<and> block_clusters (f_blockmap f) \<inter> gap_free (op_ge op) = {}"

definition relocated :: "operation \<Rightarrow> addr \<Rightarrow> winx_file_info \<Rightarrow> u64 \<Rightarrow> operation \<Rightarrow> bool" where
  "relocated op a f l op' \<longleftrightarrow>
     fe_inv (op_fe op') \<and> gap_inv (op_ge op') \<and> members (op_fe op') = members (op_fe op) \<and>
     owner (op_fe op') = (\<lambda>c. if c = l then Some a else if owner (op_fe op) c = Some a then None else owner (op_fe op) c) \<and>
     gap_free (op_ge op') = (gap_free (op_ge op) \<union> block_clusters (f_blockmap f)) - extent l (f_clusters f) \<and>
     op_moved op' = op_moved op + 1 \<and> op_movedLen op' = op_movedLen op + f_clusters f \<and>
     op_last op' = Some a \<and> op_replaced op'"

lemma move_file_success:
  assumes ready: "ready_to_move nt op a f"
    and gap: "gap_claimable (op_ge op) (r_lcn g) (f_clusters f)"
    and apart: "unat (r_lcn g) = 0 \<or> unat (r_lcn g) - 1 \<notin> block_clusters (f_blockmap f)"
    and nobody: "owner (op_fe op) (r_lcn g) = None"
    and moves: "moves_to nt (op_vol op) f (r_lcn g) (f_clusters f) w" "r_lcn g \<noteq> LLINVALID"
  shows "\<exists>op' w'. move_file nt a g op w = Some (None, op', w') \<and> relocated op a f (r_lcn g) op'"
proof -
  let ?n = "f_clusters f"
  have r: "fresh_malloc (new_object nt)" "fe_inv (op_fe op)" "gap_inv (op_ge op)" "gap_before_all (op_ge op) (f_blockmap f)"
      "a \<in> members (op_fe op)" "fderef (op_fe op) a = Some f" "single_chunk ?n" "blocks_ok (f_blockmap f)"
      "block_clusters (f_blockmap f) \<inter> gap_free (op_ge op) = {}" "?n \<noteq> 0"
    using ready by (auto simp: ready_to_move_def single_chunk_def)
  obtain fe1 where fe1: "fe_pop a (op_fe op) = Some fe1" "fe_inv fe1" "members fe1 = members (op_fe op) - {a}"
      "owner fe1 = (\<lambda>l. if owner (op_fe op) l = Some a then None else owner (op_fe op) l)" "fe_info fe1 = fe_info (op_fe op)"
    using pop_owner [OF r(2,5)] by blast
  have d1: "fderef fe1 a = Some f" using r(6) fe1(5) by (simp add: fderef_def)
  let ?op1 = "op\<lparr>op_fe := fe1\<rparr>"
  obtain w1 f' w2 where m: "move_request nt f (ucast (min ?n (MAXULONG32 - 10))) g ?op1 w = (Some STATUS_SUCCESS, w1)"
      "winx_ftw_dump_file nt None f w1 = Some (0, f', w2)"
      "f_blockmap f' = [\<lparr>b_vcn = 0, b_lcn = r_lcn g, b_length = ?n\<rparr>]" "f_clusters f' = ?n"
    using moves_to_result [of nt ?op1 f g ?n w] moves r(7) by auto
  obtain ge1 where ge1: "ge_push (new_object nt) (f_blockmap f) (op_ge op) = Some ge1" "gap_inv ge1"
      "gap_free ge1 = gap_free (op_ge op) \<union> block_clusters (f_blockmap f)"
    using ge_push_all [OF r(3,1,4,8,9)] by blast
  let ?op2 = "?op1\<lparr>op_ge := ge1, op_fe := fassign a f' fe1\<rparr>"
  obtain ge2 where ge2: "op_pop nt (r_lcn g) ?n ?op2 w2 = Some (?op2\<lparr>op_ge := ge2\<rparr>, w2)" "gap_inv ge2"
      "gap_free ge2 = gap_free ge1 - extent (r_lcn g) ?n"
    using op_pop_found [of ?op2 "r_lcn g" ?n nt w2] claimable_after_push [OF r(3) gap r(10) ge1(2,3) apart] ge1(2) by auto
  have a1: "a \<notin> members fe1" "fderef fe1 a \<noteq> None" using fe1(3) d1 by auto
  note s = settle_keeps [OF fe1(2) a1, of f']
  have d2: "fderef (fassign a f' fe1) a = Some f'" using d1 by (simp add: fderef_fassign)
  have "placeable (fassign a f' fe1) f'" using m(3) s(3) fe1(4) nobody by (simp add: placeable_def)
  then obtain fe2 where fe2: "fe_push a (fassign a f' fe1) = Some fe2" "fe_inv fe2"
      "members fe2 = insert a (members (fassign a f' fe1))"
      "owner fe2 = (\<lambda>l. if l \<in> b_lcn ` set (f_blockmap f') then Some a else owner (fassign a f' fe1) l)"
      "fderef fe2 = (fderef (fassign a f' fe1))(a \<mapsto> order_file f')"
    using push_owner [OF s(1) a1(1) [folded s(2)] d2] by blast
  let ?op3 = "?op2\<lparr>op_ge := ge2, op_fe := fe2\<rparr>"
  have "move_loop nt a ?n g ?op1 w = Some (None, ?op3, w2)"
    using move_loop_once [of ?op1 a f ?n nt g w STATUS_SUCCESS w1 ge1 0 f' w2 "?op2\<lparr>op_ge := ge2\<rparr>" w2 fe2]
      d1 r(7) m ge1(1) ge2(1) fe2(1) by (simp add: NT_SUCCESS_def STATUS_SUCCESS_def)
  then have "move_file nt a g op w = Some (None, ?op3\<lparr>op_moved := op_moved op + 1, op_movedLen := op_movedLen op + ?n,
      op_replaced := True, op_last := Some a\<rparr>, w2)" (is "_ = Some (None, ?op4, _)")
    using fe1(1) d1 fe2(5) m(4) by (simp add: move_file_def)
  moreover have "relocated op a f (r_lcn g) ?op4"
    using fe2(2-4) ge2(2,3) ge1(3) fe1(3,4) r(5) m(3) s(2,3) by (auto simp: relocated_def fun_eq_iff)
  ultimately show ?thesis by blast
qed


lemma move_file_failure:
  assumes ready: "ready_to_move nt op a f"
    and open_file: "winx_defrag_fopen nt f WINX_OPEN_FOR_MOVE w = ((STATUS_SUCCESS, h), w1)"
    and fails: "fsctl_move_file nt (op_vol op)
        \<lparr>mfd_FileHandle = h, mfd_StartVcn = 0, mfd_TargetLcn = r_lcn g, mfd_NumVcns = f_clusters f\<rparr> w1 = ((s, i), w2)"
      "\<not> NT_SUCCESS s" "s \<noteq> STATUS_ALREADY_COMMITTED"
    and dump: "winx_ftw_dump_file nt None f (winx_defrag_fclose nt h w2) = Some (r, f', w3)"
  shows "\<exists>op'. move_file nt a g op w = Some (Some (Failed_to_move s), op', w3) \<and> fe_inv (op_fe op') \<and> gap_inv (op_ge op') \<and>
    members (op_fe op') = members (op_fe op) - {a} \<and>
    gap_free (op_ge op') = gap_free (op_ge op) \<union> block_clusters (f_blockmap f)"
proof -
  let ?n = "f_clusters f"
  have r: "fresh_malloc (new_object nt)" "fe_inv (op_fe op)" "gap_inv (op_ge op)" "gap_before_all (op_ge op) (f_blockmap f)"
      "a \<in> members (op_fe op)" "fderef (op_fe op) a = Some f" "single_chunk ?n" "blocks_ok (f_blockmap f)"
      "block_clusters (f_blockmap f) \<inter> gap_free (op_ge op) = {}"
    using ready by (auto simp: ready_to_move_def)
  obtain fe1 where fe1: "fe_pop a (op_fe op) = Some fe1" "fe_inv fe1" "members fe1 = members (op_fe op) - {a}"
      "fe_info fe1 = fe_info (op_fe op)"
    using pop_owner [OF r(2,5)] by blast
  have d1: "fderef fe1 a = Some f" using r(6) fe1(4) by (simp add: fderef_def)
  let ?op1 = "op\<lparr>op_fe := fe1\<rparr>"
  have m: "move_request nt f (ucast (min ?n (MAXULONG32 - 10))) g ?op1 w = (Some s, winx_defrag_fclose nt h w2)"
    using open_file fails(1,2) single_chunk_cur(2) [OF r(7)] by (simp add: move_request_def)
  obtain ge1 where ge1: "ge_push (new_object nt) (f_blockmap f) (op_ge op) = Some ge1" "gap_inv ge1"
      "gap_free ge1 = gap_free (op_ge op) \<union> block_clusters (f_blockmap f)"
    using ge_push_all [OF r(3,1,4,8,9)] by blast
  have "move_loop nt a ?n g ?op1 w = Some (Some (Failed_to_move s), ?op1\<lparr>op_ge := ge1, op_fe := fassign a f' fe1\<rparr>, w3)"
    using move_loop_failed [of ?op1 a f ?n nt g w s _ ge1 r f' w3] d1 r(7) m fails(2,3) ge1(1) dump by simp
  then have "move_file nt a g op w = Some (Some (Failed_to_move s), ?op1\<lparr>op_ge := ge1, op_fe := fassign a f' fe1\<rparr>, w3)"
    using fe1(1) d1 by (simp add: move_file_def)
  moreover have "fe_inv (fassign a f' fe1)" "members (fassign a f' fe1) = members (op_fe op) - {a}"
    using settle_keeps [OF fe1(2), of a f'] fe1(3) d1 by auto
  ultimately show ?thesis using ge1(2,3) by simp
qed

subsection \<open>Closing gaps that nothing fits into\<close>

definition nothing_fits :: "file_enum \<Rightarrow> run list \<Rightarrow> bool" where
  "nothing_fits fe runs \<longleftrightarrow> (\<forall>(l, n) \<in> set runs. \<forall>a \<in> members fe. behind fe l a \<longrightarrow> unat n < file_size fe a)"

lemma findBest_nothing:
  assumes "fe_inv fe" "\<forall>a \<in> members fe. behind fe l a \<longrightarrow> unat n < file_size fe a"
  shows "fe_findBest l n partialOK fe = Some []"
proof -
  obtain rvs where r: "fe_findBest l n partialOK fe = Some rvs" "\<forall>a \<in> set rvs. behind fe l a" "total_size fe rvs \<le> unat n"
    using findBest_sound [OF assms(1)] by blast
  have "rvs = []"
  proof (cases rvs)
    case (Cons a as)
    then have "behind fe l a" "file_size fe a \<le> unat n" using r(2,3) by auto
    then show ?thesis using assms(2) by (auto simp: behind_def)
  qed
  then show ?thesis using r(1) by simp
qed

lemma pop_first_gap:
  assumes inv: "gap_inv (op_ge op)" and regs: "regions (op_ge op) = (k, p) # es" and d: "deref (op_ge op) p = Some g"
  shows "\<exists>ge'. op_pop_region nt p op w = Some (op\<lparr>op_ge := ge'\<rparr>, w) \<and> gap_inv ge' \<and> gap_runs ge' = tl (gap_runs (op_ge op))"
proof -
  have g: "r_lcn g = k" "len_at (op_ge op) p = r_length g" using gap_inv_deref [OF inv, of k p] regs d by auto
  have c: "gap_claimable (op_ge op) (r_lcn g) (r_length g)"
    unfolding gap_claimable_def by (intro exI [of _ p] exI [of _ g]) (use d g regs in \<open>simp add: map_find_def\<close>)
  obtain ge' where ge': "op_pop nt (r_lcn g) (r_length g) op w = Some (op\<lparr>op_ge := ge'\<rparr>, w)" "gap_inv ge'"
      "gap_free ge' = gap_free (op_ge op) - extent (r_lcn g) (r_length g)"
    using op_pop_found [OF inv c, of nt w] by (elim exE conjE) (rule that)
  define rest where "rest = tl (gap_runs (op_ge op))"
  have runs: "gap_runs (op_ge op) = [] @ (r_lcn g, r_length g) # rest"
    using regs g by (simp add: gap_runs_def rest_def)
  have wf: "wf_runs ([] @ (r_lcn g, r_length g) # rest)" using gap_invD(4) [OF inv] unfolding runs .
  have "run_clusters (gap_runs ge') = run_clusters rest"
    using runs_drop(2) [OF wf] ge'(3) by (simp add: gap_free_def runs)
  then have "gap_runs ge' = rest"
    using wf_runs_unique [OF gap_invD(4) [OF ge'(2)]] runs_drop(1) [OF wf] by simp
  then show ?thesis using ge'(1,2) d by (intro exI [of _ ge']) (simp add: op_pop_region_def rest_def)
qed

lemma widen_off: "\<not> o_widen (op_opts op) \<Longrightarrow> widen_behind nt g n op w = Some (False, op, w)"
  unfolding widen_behind_def by (subst widen_loop.simps) simp

definition idle :: "operation \<Rightarrow> bool" where
  "idle op \<longleftrightarrow> fe_inv (op_fe op) \<and> gap_inv (op_ge op) \<and> \<not> o_widen (op_opts op) \<and> nothing_fits (op_fe op) (gap_runs (op_ge op))"

lemma close_gap_idle:
  assumes "idle op" "regions (op_ge op) = (k, p) # es"
  obtains "\<not> partialOK" "close_gap nt p partialOK op w = Some (True, op, w)"
  | ok ge' where "close_gap nt p partialOK op w = Some (ok, op\<lparr>op_ge := ge'\<rparr>, w)" "gap_inv ge'"
      "gap_runs ge' = tl (gap_runs (op_ge op))"
proof -
  have i: "fe_inv (op_fe op)" "gap_inv (op_ge op)" "\<not> o_widen (op_opts op)" "nothing_fits (op_fe op) (gap_runs (op_ge op))"
    using assms(1) by (auto simp: idle_def)
  obtain g where g: "deref (op_ge op) p = Some g" "r_lcn g = k"
    using gap_inv_deref [OF i(2), of k p] assms(2) by auto
  obtain ge' where pop: "op_pop_region nt p op w = Some (op\<lparr>op_ge := ge'\<rparr>, w)" "gap_inv ge'"
      "gap_runs ge' = tl (gap_runs (op_ge op))"
    using pop_first_gap [OF i(2) assms(2) g(1), of nt w] by (elim exE conjE) (rule that)
  have "(k, r_length g) \<in> set (gap_runs (op_ge op))" using assms(2) g by (simp add: gap_runs_def len_at_def)
  then have few: "\<forall>a \<in> members (op_fe op). behind (op_fe op) (r_lcn g) a \<longrightarrow> unat (r_length g) < file_size (op_fe op) a"
    using i(4) unfolding g(2) nothing_fits_def by blast
  note best = findBest_nothing [OF i(1) few]
  note widen = widen_off [OF i(3), of nt g _ w]
  consider "\<not> o_aggressive (op_opts op) \<and> r_length g > o_maxSize (op_opts op)"
    | "\<not> (\<not> o_aggressive (op_opts op) \<and> r_length g > o_maxSize (op_opts op))" "partialOK"
    | "\<not> (\<not> o_aggressive (op_opts op) \<and> r_length g > o_maxSize (op_opts op))" "\<not> partialOK" by blast
  then show ?thesis
  proof cases
    case 1
    have "close_gap nt p partialOK op w = Some (partialOK, op\<lparr>op_ge := ge'\<rparr>, w)"
      unfolding close_gap_def g(1) bind.simps if_P [OF 1] pop(1) prod.case ..
    then show ?thesis by (rule that(2) [OF _ pop(2,3)])
  next
    case 2
    have "close_gap nt p partialOK op w = Some (False, op\<lparr>op_ge := ge'\<rparr>, w)"
      unfolding close_gap_def g(1) bind.simps if_not_P [OF 2(1)] best widen pop(1) prod.case using 2(2) pop(1) by simp
    then show ?thesis by (rule that(2) [OF _ pop(2,3)])
  next
    case 3
    have "close_gap nt p partialOK op w = Some (True, op, w)"
      unfolding close_gap_def g(1) bind.simps if_not_P [OF 3(1)] best widen prod.case using 3(2) by simp
    then show ?thesis by (rule that(1) [OF 3(2)])
  qed
qed

lemma idle_tail:
  assumes "idle op" "gap_inv ge'" "gap_runs ge' = tl (gap_runs (op_ge op))"
  shows "idle (op\<lparr>op_ge := ge'\<rparr>)"
proof -
  have "set (tl (gap_runs (op_ge op))) \<subseteq> set (gap_runs (op_ge op))" by (cases "gap_runs (op_ge op)") auto
  then show ?thesis using assms by (fastforce simp: idle_def nothing_fits_def)
qed

lemma close_loop_idle:
  assumes "idle op"
  shows "\<exists>ge' w'. close_loop nt partialOK op w = Some (op\<lparr>op_ge := ge'\<rparr>, w') \<and> gap_inv ge' \<and>
    (regions ge' = [] \<or> (\<exists>v. terminated nt v = (True, w')))"
  using assms
proof (induction "2 * length (gap_runs (op_ge op)) + (if partialOK then 0 else 1)" arbitrary: op partialOK w rule: less_induct)
  case less
  note i = less.prems
  obtain stop v where t: "terminated nt w = (stop, v)" by (metis prod.exhaust)
  show ?case
  proof (cases "regions (op_ge op)")
    case Nil
    then have "close_loop nt partialOK op w = Some (op\<lparr>op_ge := op_ge op\<rparr>, w)"
      by (subst close_loop.simps) (simp add: ge_next_def)
    then show ?thesis using i Nil unfolding idle_def by blast
  next
    case (Cons e es)
    then obtain k p where regs: "regions (op_ge op) = (k, p) # es" by (cases e) auto
    show ?thesis
    proof (cases stop)
      case True
      then have "close_loop nt partialOK op w = Some (op\<lparr>op_ge := op_ge op\<rparr>, v)"
        using t regs by (subst close_loop.simps) (simp add: ge_next_def)
      then show ?thesis using i t True unfolding idle_def by (intro exI [of _ "op_ge op"] exI [of _ v]) auto
    next
      case False
      have eq: "close_loop nt partialOK op w =
          Option.bind (close_gap nt p partialOK op v) (\<lambda>(ok, op2, v2). close_loop nt ok op2 v2)"
        using t regs False by (subst close_loop.simps) (simp add: ge_next_def)
      show ?thesis
      proof (rule close_gap_idle [OF i regs, of partialOK nt v])
        assume c: "\<not> partialOK" "close_gap nt p partialOK op v = Some (True, op, v)"
        have "\<exists>ge'' w'. close_loop nt True op v = Some (op\<lparr>op_ge := ge''\<rparr>, w') \<and> gap_inv ge'' \<and>
            (regions ge'' = [] \<or> (\<exists>v. terminated nt v = (True, w')))"
          by (rule less.hyps [OF _ i]) (use c(1) in simp)
        then show ?thesis unfolding eq c(2) bind.simps prod.case .
      next
        fix ok ge' assume c: "close_gap nt p partialOK op v = Some (ok, op\<lparr>op_ge := ge'\<rparr>, v)" "gap_inv ge'"
          "gap_runs ge' = tl (gap_runs (op_ge op))"
        let ?op = "op\<lparr>op_ge := ge'\<rparr>"
        have "length (gap_runs (op_ge op)) = Suc (length (gap_runs ge'))" using regs c(3) by (simp add: gap_runs_def)
        then have "\<exists>ge'' w'. close_loop nt ok ?op v = Some (?op\<lparr>op_ge := ge''\<rparr>, w') \<and> gap_inv ge'' \<and>
            (regions ge'' = [] \<or> (\<exists>v. terminated nt v = (True, w')))"
          by (intro less.hyps [OF _ idle_tail [OF i c(2,3)]]) simp
        then show ?thesis unfolding eq c(1) bind.simps prod.case by simp
      qed
    qed
  qed
qed

subsection \<open>The main loop on a volume with nothing to do\<close>

text \<open>
  A volume that can be opened and read: opening succeeds, there is memory, and the answers to the
  bitmap requests describe the clusters in use.
\<close>

definition readable :: "('w, 'z) nt_op_scheme \<Rightarrow> (nat \<Rightarrow> bool) \<Rightarrow> nat \<Rightarrow> bool" where
  "readable nt used ntotal \<longleftrightarrow>
     (\<forall>r w. fst (fst (NtCreateFile nt r w)) = STATUS_SUCCESS) \<and> (\<forall>n w. malloc nt n w \<noteq> None) \<and>
     (\<forall>h w. bitmap_answers used ntotal (fsctl_get_volume_bitmap nt h w)) \<and> 0 < ntotal \<and> ntotal < 2 ^ 64 - 1"

definition free_runs :: "(nat \<Rightarrow> bool) \<Rightarrow> nat \<Rightarrow> run list \<Rightarrow> bool" where
  "free_runs used ntotal rs \<longleftrightarrow> wf_runs rs \<and> run_clusters rs = {x. x < ntotal \<and> \<not> used x}"

lemma fopen_succeeds:
  assumes "\<forall>r w. fst (fst (NtCreateFile nt r w)) = STATUS_SUCCESS" "\<forall>n w. malloc nt n w \<noteq> None"
  shows "fst (winx_fopen nt (Some p) (Some m) w) \<noteq> None"
  using assms by (auto simp: winx_fopen_def winx_tmalloc_def split_beta Let_def split: option.split)

lemma free_regions_readable:
  assumes "readable nt used ntotal"
  shows "\<exists>fresh w'. free_regions nt op w = Some (fresh, w') \<and> free_runs used ntotal (map run_of fresh)"
proof -
  obtain f w1 where o: "winx_vopen nt (o_volume (op_opts op)) w = (f, w1)" by (metis prod.exhaust)
  have "fst (winx_vopen nt (o_volume (op_opts op)) w) \<noteq> None"
    unfolding winx_vopen_def by (rule fopen_succeeds) (use assms in \<open>simp_all add: readable_def\<close>)
  then have "f \<noteq> None" using o by simp
  let ?req = "fsctl_get_volume_bitmap nt (hFile (the f)) w1"
  have b: "bitmap_answers used ntotal ?req" "0 < ntotal" "ntotal < 2 ^ 64 - 1" using assms by (auto simp: readable_def)
  obtain rs where "bitmap_loop ?req 0 None 0 LLINVALID [] = Some rs" "free_runs used ntotal (map run_of rs)"
    using bitmap_loop_correct [OF b(1,3), of 0 LLINVALID "[]" 0] b(2) by (auto simp: scan_inv_start free_runs_def)
  then show ?thesis using o \<open>f \<noteq> None\<close> by (auto simp: free_regions_def winx_get_free_volume_regions_def)
qed

lemma op_scan_readable:
  assumes "readable nt used ntotal" "fresh_malloc (new_object nt)" "free_runs used ntotal rs"
  shows "\<exists>ge' w'. op_scan nt op w = Some (op\<lparr>op_ge := ge'\<rparr>, w') \<and> gap_inv ge' \<and> gap_runs ge' = rs"
proof -
  obtain fresh w' where f: "free_regions nt op w = Some (fresh, w')" "free_runs used ntotal (map run_of fresh)"
    using free_regions_readable [OF assms(1), of op w] by (elim exE conjE) (rule that)
  have "map run_of fresh = rs" using f(2) assms(3) wf_runs_unique by (simp add: free_runs_def)
  moreover have "gap_inv (ge_scan (new_object nt) fresh (op_ge op))"
      "gap_runs (ge_scan (new_object nt) fresh (op_ge op)) = map run_of fresh"
    using ge_scan_correct [OF assms(2), of fresh] f(2) by (simp_all add: free_runs_def)
  ultimately show ?thesis
    using f(1) by (intro exI [of _ "ge_scan (new_object nt) fresh (op_ge op)"] exI [of _ w']) (simp add: op_scan_def)
qed

definition unfragmented :: "file_enum \<Rightarrow> bool" where
  "unfragmented fe \<longleftrightarrow> (\<forall>a \<in> members fe. \<forall>f. fderef fe a = Some f \<longrightarrow> d_fragments (f_disp f) \<le> 1)"

lemma collect_nothing:
  assumes "\<forall>(c, a) \<in> set es. \<exists>f. fderef fe a = Some f \<and> d_fragments (f_disp f) \<le> 1"
  shows "\<exists>w'. collect_fragmented nt fe es w = Some ([], w')"
  using assms
proof (induction es arbitrary: w)
  case (Cons e es)
  obtain c a where e: "e = (c, a)" by (cases e)
  obtain f where f: "fderef fe a = Some f" "d_fragments (f_disp f) \<le> 1" using Cons.prems e by auto
  obtain stop v where t: "terminated nt w = (stop, v)" by (metis prod.exhaust)
  obtain w' where "collect_fragmented nt fe es v = Some ([], w')" using Cons by auto
  then show ?case unfolding e collect_fragmented.simps t Let_def prod.case f(1) bind.simps if_not_P [OF f(2) [THEN leD]]
    by (cases stop) simp_all
qed simp

lemma defrag_nothing:
  assumes "fe_inv (op_fe op)" "unfragmented (op_fe op)"
  shows "\<exists>w'. defrag nt op w = Some (op, w')"
proof -
  have all: "\<forall>(c, a) \<in> set (buckets (op_fe op)). \<exists>f. fderef (op_fe op) a = Some f \<and> d_fragments (f_disp f) \<le> 1"
  proof clarify
    fix c a assume m: "(c, a) \<in> set (buckets (op_fe op))"
    obtain f where f: "fderef (op_fe op) a = Some f" by (rule fe_inv_file [OF assms(1) m])
    have "a \<in> members (op_fe op)" unfolding members_def using m by (metis imageI snd_conv)
    then show "\<exists>f. fderef (op_fe op) a = Some f \<and> d_fragments (f_disp f) \<le> 1"
      using assms(2) f unfolding unfragmented_def by metis
  qed
  obtain w' where "collect_fragmented nt (op_fe op) (buckets (op_fe op)) w = Some ([], w')"
    using collect_nothing [OF all, of nt w] by (elim exE) (rule that)
  then show ?thesis by (simp add: defrag_def)
qed

lemma summary_exists:
  assumes "\<forall>(k, p) \<in> set es. \<exists>r. deref ge p = Some r"
  shows "\<exists>t. summarize opts ge es s = Some t"
  using assms
proof (induction es arbitrary: s)
  case (Cons e es)
  obtain k p where e: "e = (k, p)" by (cases e)
  then obtain r where "deref ge p = Some r" using Cons.prems by auto
  then show ?case using Cons e by simp
qed simp

lemma gap_summary_exists:
  assumes "gap_inv ge"
  shows "\<exists>t. gap_summary_of opts ge = Some t"
  unfolding gap_summary_of_def
proof (rule summary_exists, clarify)
  fix k p assume "(k, p) \<in> set (regions ge)"
  then show "\<exists>r. deref ge p = Some r" using gap_inv_deref [OF assms] by metis
qed

lemma close_gaps_idle:
  assumes "idle op"
  shows "\<exists>ge' w'. close_gaps nt op w = Some (op\<lparr>op_ge := ge'\<rparr>, w') \<and> gap_inv ge' \<and>
    (regions ge' = [] \<or> (\<exists>v. terminated nt v = (True, w')))"
  unfolding close_gaps_def by (rule close_loop_idle [OF assms])

lemma run_loop_idle:
  assumes "readable nt used ntotal" "fresh_malloc (new_object nt)" "free_runs used ntotal rs"
    "fe_inv (op_fe op)" "unfragmented (op_fe op)" "\<not> o_widen (op_opts op)" "nothing_fits (op_fe op) rs"
    "gap_inv (op_ge op)" "gap_runs (op_ge op) = rs"
  shows "\<exists>ge' r w'. run_loop nt op w = Some (op\<lparr>op_ge := ge', op_replaced := r\<rparr>, w')"
proof -
  obtain stop w1 where t: "terminated nt w = (stop, w1)" by (metis prod.exhaust)
  have "\<exists>ge1 w2. (if o_defrag (op_opts op) then do { (op, w) \<leftarrow> defrag nt op w1; op_scan nt op w } else Some (op, w1)) =
      Some (op\<lparr>op_ge := ge1\<rparr>, w2) \<and> gap_inv ge1 \<and> gap_runs ge1 = rs"
  proof (cases "o_defrag (op_opts op)")
    case True
    obtain v where v: "defrag nt op w1 = Some (op, v)" using defrag_nothing [OF assms(4,5), of nt w1] by (elim exE) (rule that)
    show ?thesis unfolding if_P [OF True] v bind.simps prod.case by (rule op_scan_readable [OF assms(1-3)])
  next
    case False
    then show ?thesis using assms(8,9) by (intro exI [of _ "op_ge op"] exI [of _ w1]) simp
  qed
  then obtain ge1 w2 where d: "(if o_defrag (op_opts op) then do { (op, w) \<leftarrow> defrag nt op w1; op_scan nt op w } else Some (op, w1)) =
      Some (op\<lparr>op_ge := ge1\<rparr>, w2)" "gap_inv ge1" "gap_runs ge1 = rs" by (elim exE conjE) (rule that)
  let ?op = "op\<lparr>op_ge := ge1, op_replaced := False\<rparr>"
  have idle: "idle ?op" using d(2,3) assms(4,6,7) by (simp add: idle_def)
  obtain ge2 w3 where c: "close_gaps nt ?op w2 = Some (?op\<lparr>op_ge := ge2\<rparr>, w3)"
    using close_gaps_idle [OF idle, of nt w2] by (elim exE conjE) (rule that)
  have "\<exists>ge3 w4. (if o_gaps (op_opts op) then do { (op, w) \<leftarrow> close_gaps nt ?op w2; op_scan nt op w } else Some (?op, w2)) =
      Some (?op\<lparr>op_ge := ge3\<rparr>, w4)"
  proof (cases "o_gaps (op_opts op)")
    case True
    obtain ge3 w4 where "op_scan nt (?op\<lparr>op_ge := ge2\<rparr>) w3 = Some ((?op\<lparr>op_ge := ge2\<rparr>)\<lparr>op_ge := ge3\<rparr>, w4)"
      using op_scan_readable [OF assms(1-3), of "?op\<lparr>op_ge := ge2\<rparr>" w3] by (elim exE conjE) (rule that)
    then show ?thesis unfolding if_P [OF True] c bind.simps prod.case by (intro exI [of _ ge3] exI [of _ w4]) simp
  next
    case False
    then show ?thesis by (intro exI [of _ ge1] exI [of _ w2]) simp
  qed
  then obtain ge3 w4 where g: "(if o_gaps (op_opts op) then do { (op, w) \<leftarrow> close_gaps nt ?op w2; op_scan nt op w } else Some (?op, w2)) =
      Some (?op\<lparr>op_ge := ge3\<rparr>, w4)" by (elim exE) (rule that)
  obtain stop' w5 where t': "terminated nt w4 = (stop', w5)" by (metis prod.exhaust)
  have opts: "op_opts ?op = op_opts op" and rep: "\<not> op_replaced (?op\<lparr>op_ge := ge3\<rparr>)" by simp_all
  have last: "run_loop nt (?op\<lparr>op_ge := ge3\<rparr>) w4 = Some (?op\<lparr>op_ge := ge3\<rparr>, w5)"
    by (simp only: run_loop.simps [of nt "?op\<lparr>op_ge := ge3\<rparr>" w4] t' Let_def prod.case rep simp_thms if_True)
  show ?thesis
  proof (cases "stop \<or> \<not> op_replaced op")
    case True
    have "run_loop nt op w = Some (op, w1)"
      by (simp only: run_loop.simps [of nt op w] t Let_def prod.case if_P [OF True])
    then show ?thesis by (intro exI [of _ "op_ge op"] exI [of _ "op_replaced op"] exI [of _ w1]) simp
  next
    case False
    have "run_loop nt op w = run_loop nt (?op\<lparr>op_ge := ge3\<rparr>) w4"
      unfolding run_loop.simps [of nt op w] t Let_def prod.case if_not_P [OF False] d(1) bind.simps opts g ..
    then show ?thesis unfolding last by (intro exI [of _ ge3] exI [of _ False] exI [of _ w5]) simp
  qed
qed

subsection \<open>Properties of the defragmenter\<close>

text \<open>
  C4: moving a file of at most \<open>MAXULONG32 - 10\<close> clusters, which takes one request, to the start of a gap it fits in,
  over a system that performs the move and then reports the new place of the file, ends without an exception, if a
  gap is known before each block of the file, no block of the file ends where the gap starts, and the index of files
  has none at the start of the gap. Both indexes stay consistent, the old clusters of the file become free and the
  new ones taken, the file is found at its new place only, and the counters are advanced.
\<close>

theorem move_file_relocates:
  assumes "ready_to_move nt op a f" "gap_claimable (op_ge op) (r_lcn g) (f_clusters f)"
    "unat (r_lcn g) = 0 \<or> unat (r_lcn g) - 1 \<notin> block_clusters (f_blockmap f)"
    "owner (op_fe op) (r_lcn g) = None" "moves_to nt (op_vol op) f (r_lcn g) (f_clusters f) w" "r_lcn g \<noteq> LLINVALID"
  shows "\<exists>op' w'. move_file nt a g op w = Some (None, op', w') \<and> relocated op a f (r_lcn g) op'"
  by (rule move_file_success [OF assms])

text \<open>
  C14: a move in one request that the system refuses with a status other than \<open>STATUS_ALREADY_COMMITTED\<close> throws, with
  that status, if a gap is known before each block of the file. The indexes stay consistent, but the file is
  dropped from the enumeration, and its clusters, which it still occupies, are added to the free space.
\<close>

theorem move_file_refused:
  assumes "ready_to_move nt op a f" "winx_defrag_fopen nt f WINX_OPEN_FOR_MOVE w = ((STATUS_SUCCESS, h), w1)"
    "fsctl_move_file nt (op_vol op)
      \<lparr>mfd_FileHandle = h, mfd_StartVcn = 0, mfd_TargetLcn = r_lcn g, mfd_NumVcns = f_clusters f\<rparr> w1 = ((s, i), w2)"
    "\<not> NT_SUCCESS s" "s \<noteq> STATUS_ALREADY_COMMITTED"
    "winx_ftw_dump_file nt None f (winx_defrag_fclose nt h w2) = Some (r, f', w3)"
  shows "\<exists>op'. move_file nt a g op w = Some (Some (Failed_to_move s), op', w3) \<and> fe_inv (op_fe op') \<and> gap_inv (op_ge op') \<and>
    members (op_fe op') = members (op_fe op) - {a} \<and>
    gap_free (op_ge op') = gap_free (op_ge op) \<union> block_clusters (f_blockmap f)"
  by (rule move_file_failure [OF assms])

text \<open>
  C13: without the option to widen gaps, closing gaps ends on every volume on which no file behind a gap fits into
  it: each gap is tried exactly, then partially, and is then taken out of the index, so that no gap is left in it or
  the flag for termination was seen. Nothing but the index of gaps is changed.
\<close>

theorem close_gaps_ends:
  assumes "idle op"
  shows "\<exists>ge' w'. close_gaps nt op w = Some (op\<lparr>op_ge := ge'\<rparr>, w') \<and> gap_inv ge' \<and>
    (regions ge' = [] \<or> (\<exists>v. terminated nt v = (True, w')))"
  by (rule close_gaps_idle [OF assms])

text \<open>
  C12: a run over a readable volume on which there is nothing to do, neither a fragmented file nor
  one that fits into a gap before it, ends; it changes nothing but its index of gaps, which describes
  the free clusters of the volume at the end, and it returns a summary of the gaps.
\<close>

theorem run_ends_idle:
  assumes "readable nt used ntotal" "fresh_malloc (new_object nt)" "free_runs used ntotal rs"
    "fe_inv (op_fe op)" "unfragmented (op_fe op)" "\<not> o_widen (op_opts op)" "nothing_fits (op_fe op) rs"
    "gap_inv (op_ge op)" "gap_runs (op_ge op) = rs"
  shows "\<exists>s ge' r w'. op_run nt op w = Some (s, op\<lparr>op_ge := ge', op_replaced := r\<rparr>, w') \<and> gap_inv ge' \<and> gap_runs ge' = rs"
proof -
  let ?start = "op\<lparr>op_replaced := True\<rparr>"
  have o: "fe_inv (op_fe ?start)" "unfragmented (op_fe ?start)" "\<not> o_widen (op_opts ?start)" "nothing_fits (op_fe ?start) rs"
      "gap_inv (op_ge ?start)" "gap_runs (op_ge ?start) = rs"
    using assms(4-9) by simp_all
  obtain ge1 r w1 where l: "run_loop nt (op\<lparr>op_replaced := True\<rparr>) w =
      Some ((op\<lparr>op_replaced := True\<rparr>)\<lparr>op_ge := ge1, op_replaced := r\<rparr>, w1)"
    using run_loop_idle [OF assms(1-3) o, of w] by (elim exE) (rule that)
  let ?op = "(op\<lparr>op_replaced := True\<rparr>)\<lparr>op_ge := ge1, op_replaced := r\<rparr>"
  obtain ge2 w2 where s: "op_scan nt ?op w1 = Some (?op\<lparr>op_ge := ge2\<rparr>, w2)" "gap_inv ge2" "gap_runs ge2 = rs"
    using op_scan_readable [OF assms(1-3), of ?op w1] by (elim exE conjE) (rule that)
  obtain t where t: "gap_summary_of (op_opts op) ge2 = Some t" using gap_summary_exists [OF s(2)] by blast
  have "op_run nt op w = Some (t, op\<lparr>op_ge := ge2, op_replaced := r\<rparr>, w2)"
    using t unfolding op_run_def l s(1) bind.simps prod.case by simp
  then show ?thesis using s(2,3) by (intro exI conjI)
qed

subsection \<open>A concrete volume\<close>

text \<open>
  A system of a volume of eight clusters, 0, 1 and 5 in use, that performs every move to cluster 10
  and refuses the others; a moved file of two clusters is reported at cluster 10.
\<close>

definition demo_op_nt :: "unit nt_op" where
  "demo_op_nt = \<lparr>NtCreateFile = \<lambda>r w. ((STATUS_SUCCESS, 7), w), NtClose = \<lambda>h w. w, RtlGetVersion = (6, 1),
     malloc = \<lambda>n w. Some (replicate (unat n) 0), NtReadFile = \<lambda>h n p w. ((refused, []), w), NtWriteFile = \<lambda>h xs p w. (refused, w),
     NtFlushBuffersFile = \<lambda>h w. (0, w), NtQueryStandardInformation = \<lambda>h w. ((0, 0), w), NtDeleteFile = \<lambda>p a w. (0, w),
     NtFsControlFile = \<lambda>h c i n w. ((refused, []), w), NtDeviceIoControlFile = \<lambda>h c i n w. ((refused, []), w),
     NtQueryVolumeInformationFile = \<lambda>h k n w. ((STATUS_INVALID_PARAMETER, []), w),
     get_retrieval_pointers = \<lambda>h v w.
       (\<lparr>ra_status = STATUS_SUCCESS, ra_iosb = STATUS_SUCCESS, ra_StartVcn = v, ra_Pair = [\<lparr>p_Vcn = 2, p_Lcn = 10\<rparr>]\<rparr>, w),
     new_object = demo_malloc,
     fsctl_move_file = \<lambda>h d w. (if mfd_TargetLcn d = 10 then (STATUS_SUCCESS, STATUS_SUCCESS) else (STATUS_INVALID_PARAMETER, 0), w),
     fsctl_get_volume_bitmap = \<lambda>h w. demo_req, gTerminated = \<lambda>w. (0, w)\<rparr>"

definition demo_opts :: Options where
  "demo_opts = \<lparr>o_maxSize = 512, o_verbose = 0, o_volume = CHR ''C'', o_aggressive = True, o_gaps = True, o_defrag = True, o_widen = False\<rparr>"

definition demo_op :: "gap_enum \<Rightarrow> file_enum \<Rightarrow> operation" where
  "demo_op ge fe = \<lparr>op_vol = 3, op_ge = ge, op_fe = fe, op_opts = demo_opts, op_moved = 0, op_movedLen = 0,
     op_last = None, op_replaced = False\<rparr>"

definition demo_mover :: winx_file_info where
  "demo_mover = (File_Enumeration.demo_file 2 1 [\<lparr>b_vcn = 0, b_lcn = 60, b_length = 2\<rparr>])\<lparr>f_name := None\<rparr>"

lemma demo_ready: "ready_to_move demo_op_nt (demo_op demo_gaps demo_files) 300 demo_mover"
  unfolding ready_to_move_def
proof (intro conjI)
  show "fresh_malloc (new_object demo_op_nt)" by (simp add: demo_op_nt_def demo_malloc_fresh)
  show "fe_inv (op_fe (demo_op demo_gaps demo_files))" by (simp add: demo_op_def demo_files_inv)
  show "block_clusters (f_blockmap demo_mover) \<inter> gap_free (op_ge (demo_op demo_gaps demo_files)) = {}"
    by (auto simp: demo_op_def demo_gaps_free demo_mover_def File_Enumeration.demo_file_def extent_def)
qed (simp_all add: demo_op_def demo_files_inv demo_gaps_inv demo_gaps_ready gap_before_all_def members_def demo_files_eval fderef_def
    demo_mover_def File_Enumeration.demo_file_def single_chunk_def MAXULONG32_def blocks_ok_def block_ok_def blocks_apart_def)

lemma demo_open_any: "fst (winx_defrag_fopen demo_op_nt (demo_mover\<lparr>f_disp := d\<rparr>) m ()) = (STATUS_SUCCESS, 7)"
  by (simp add: winx_defrag_fopen_def demo_op_nt_def demo_mover_def File_Enumeration.demo_file_def wstr_def Let_def)

lemma demo_open_disp: "winx_defrag_fopen demo_op_nt (demo_mover\<lparr>f_disp := d\<rparr>) m () = ((STATUS_SUCCESS, 7), ())"
  using demo_open_any [of d m] by (metis prod.collapse unit.exhaust)

lemma demo_map: "map_answers demo_op_nt 7 [\<lparr>p_Vcn = 2, p_Lcn = 10\<rparr>] ()"
  unfolding map_answers_def
  by (intro allI impI exI [of _ 1] exI [of _ "fst (get_retrieval_pointers demo_op_nt 7 0 ())"])
    (simp add: demo_op_nt_def boundary_def NT_SUCCESS_def STATUS_SUCCESS_def)

lemma demo_moves: "moves_to demo_op_nt 3 demo_mover 10 2 ()"
  unfolding moves_to_def
proof (intro exI conjI)
  show "winx_defrag_fopen demo_op_nt demo_mover WINX_OPEN_FOR_MOVE () = ((STATUS_SUCCESS, 7), ())"
    using demo_open_disp [of "f_disp demo_mover"] by simp
  show "winx_defrag_fopen demo_op_nt (reset_disp demo_mover) WINX_OPEN_FOR_DUMP (winx_defrag_fclose demo_op_nt 7 ()) = ((STATUS_SUCCESS, 7), ())"
    by (simp add: reset_disp_def demo_open_disp)
  show "map_answers demo_op_nt 7 [\<lparr>p_Vcn = 2, p_Lcn = 10\<rparr>] ()" by (rule demo_map)
qed (simp add: demo_op_nt_def)

theorem move_file_relocates_witness:
  "\<exists>op' w'. move_file demo_op_nt 300 \<lparr>r_lcn = 10, r_length = 5\<rparr> (demo_op demo_gaps demo_files) () = Some (None, op', w') \<and>
    relocated (demo_op demo_gaps demo_files) 300 demo_mover 10 op'"
proof -
  have m: "f_clusters demo_mover = 2" "f_blockmap demo_mover = [\<lparr>b_vcn = 0, b_lcn = 60, b_length = 2\<rparr>]"
    by (simp_all add: demo_mover_def File_Enumeration.demo_file_def)
  have c: "gap_claimable demo_gaps 10 2" by (simp add: gap_claimable_def map_find_def deref_def demo_gaps_eval)
  have n: "owner demo_files 10 = None"
    by (simp add: demo_files_eval File_Enumeration.demo_file_def owner_def placed_def fderef_def)
  have o: "op_ge (demo_op demo_gaps demo_files) = demo_gaps" "op_fe (demo_op demo_gaps demo_files) = demo_files"
      "op_vol (demo_op demo_gaps demo_files) = 3"
    by (simp_all add: demo_op_def)
  show ?thesis
    using move_file_relocates [OF demo_ready, of "\<lparr>r_lcn = 10, r_length = 5\<rparr>" "()"] c n demo_moves
    by (simp add: o m extent_def LLINVALID_def)
qed

theorem move_file_refused_witness:
  "\<exists>op'. move_file demo_op_nt 300 \<lparr>r_lcn = 20, r_length = 10\<rparr> (demo_op demo_gaps demo_files) () =
      Some (Some (Failed_to_move STATUS_INVALID_PARAMETER), op', ()) \<and> members (op_fe op') = {100} \<and>
    gap_free (op_ge op') = {10..<15} \<union> {20..<30} \<union> {60..<62}"
proof -
  let ?op = "demo_op demo_gaps demo_files" and ?g = "\<lparr>r_lcn = 20, r_length = 10 :: u64\<rparr>"
  have m: "f_clusters demo_mover = 2" "f_blockmap demo_mover = [\<lparr>b_vcn = 0, b_lcn = 60, b_length = 2\<rparr>]"
    by (simp_all add: demo_mover_def File_Enumeration.demo_file_def)
  have f: "fsctl_move_file demo_op_nt (op_vol ?op)
      \<lparr>mfd_FileHandle = 7, mfd_StartVcn = 0, mfd_TargetLcn = r_lcn ?g, mfd_NumVcns = f_clusters demo_mover\<rparr> () =
      ((STATUS_INVALID_PARAMETER, 0), ())"
    by (simp add: demo_op_nt_def)
  have s: "\<not> NT_SUCCESS STATUS_INVALID_PARAMETER" "STATUS_INVALID_PARAMETER \<noteq> STATUS_ALREADY_COMMITTED"
    by (simp_all add: NT_SUCCESS_def STATUS_INVALID_PARAMETER_def STATUS_ALREADY_COMMITTED_def)
  have o: "winx_defrag_fopen demo_op_nt demo_mover WINX_OPEN_FOR_MOVE () = ((STATUS_SUCCESS, 7), ())"
    using demo_open_disp [of "f_disp demo_mover"] by simp
  have "winx_defrag_fopen demo_op_nt (reset_disp demo_mover) WINX_OPEN_FOR_DUMP () = ((STATUS_SUCCESS, 7), ())"
    by (simp add: reset_disp_def demo_open_disp)
  then obtain f' where d: "winx_ftw_dump_file demo_op_nt None demo_mover (winx_defrag_fclose demo_op_nt 7 ()) = Some (0, f', ())"
    using dump_exact [OF _ demo_map, of demo_mover "()" None] by (auto simp: ftw_check_for_termination_def)
  have "members demo_files - {300} = {100}" by (auto simp: members_def demo_files_eval)
  then show ?thesis using move_file_refused [OF demo_ready o f s d] demo_gaps_free
    by (auto simp: m extent_def demo_op_def)
qed

text \<open>A single file, in the first two clusters: nothing to do.\<close>

definition demo_settled :: file_enum where
  "demo_settled = projr (fe_new (\<lambda>p. False) False [(100, File_Enumeration.demo_file 2 1 [\<lparr>b_vcn = 0, b_lcn = 0, b_length = 2\<rparr>])])"

lemma demo_settled_eval:
  "demo_settled = \<lparr>fe_info = [(100, (File_Enumeration.demo_file 2 1 [\<lparr>b_vcn = 0, b_lcn = 0, b_length = 2\<rparr>])\<lparr>f_name := None\<rparr>)],
     buckets = [(2, 100)], lcns = [], unmovable = [], fragmented = 0, unprocessable = 0\<rparr>"
  by (simp add: demo_settled_def File_Enumeration.demo_file_def fe_new_def fe_scan_def scan_file_def Let_def
      fassign_def order_file_def order_blocks_def minlcn_def rotate1_def)

lemma demo_settled_inv: "fe_inv demo_settled"
  by (simp add: demo_settled_eval File_Enumeration.demo_file_def fe_inv_def placed_def fderef_def ordered_file_def)

lemma demo_settled_fits: "nothing_fits demo_settled rs"
  by (simp add: nothing_fits_def members_def demo_settled_eval File_Enumeration.demo_file_def behind_def head_lcn_def fderef_def)

theorem close_gaps_ends_witness:
  "\<exists>ge' w'. close_gaps demo_op_nt (demo_op demo_gaps demo_settled) () = Some ((demo_op demo_gaps demo_settled)\<lparr>op_ge := ge'\<rparr>, w') \<and>
    gap_inv ge' \<and> (regions ge' = [] \<or> (\<exists>v. terminated demo_op_nt v = (True, w')))"
  by (rule close_gaps_ends)
    (simp add: idle_def demo_op_def demo_gaps_inv demo_opts_def demo_settled_inv demo_settled_fits)

lemma demo_readable: "readable demo_op_nt (\<lambda>c. c \<in> {0, 1, 5}) 8"
  unfolding readable_def using demo_bitmap by (simp add: demo_op_nt_def)

lemma demo_free_runs: "free_runs (\<lambda>c. c \<in> {0, 1, 5}) 8 [(2, 3), (6, 2)]"
proof -
  have "{2..<5} \<union> {6..<8} = {x. x < 8 \<and> x \<notin> {0, 1, 5 :: nat}}" by auto
  then show ?thesis by (simp add: free_runs_def wf_runs_def run_ok_def run_before_def extent_def)
qed

theorem run_ends_idle_witness:
  "\<exists>ge s ge' r w'. op_run demo_op_nt (demo_op ge demo_settled) () =
      Some (s, (demo_op ge demo_settled)\<lparr>op_ge := ge', op_replaced := r\<rparr>, w') \<and> gap_runs ge' = [(2, 3), (6, 2)]"
proof -
  define ge where "ge = ge_scan demo_malloc [\<lparr>r_lcn = 2, r_length = 3\<rparr>, \<lparr>r_lcn = 6, r_length = 2\<rparr>] \<lparr>info = [], regions = [], sizes = []\<rparr>"
  have "wf_runs (map run_of [\<lparr>r_lcn = 2, r_length = 3\<rparr>, \<lparr>r_lcn = 6, r_length = 2\<rparr>])"
    using demo_free_runs by (simp add: free_runs_def run_of_def)
  then have g: "gap_inv ge" "gap_runs ge = [(2, 3), (6, 2)]"
    using ge_scan_correct(1,2) [OF demo_malloc_fresh] unfolding ge_def by (simp_all add: run_of_def)
  have f: "fresh_malloc (new_object demo_op_nt)" by (simp add: demo_op_nt_def demo_malloc_fresh)
  have u: "unfragmented demo_settled"
    by (simp add: unfragmented_def members_def demo_settled_eval File_Enumeration.demo_file_def fderef_def)
  have o: "op_ge (demo_op ge demo_settled) = ge" "op_fe (demo_op ge demo_settled) = demo_settled"
      "\<not> o_widen (op_opts (demo_op ge demo_settled))"
    by (simp_all add: demo_op_def demo_opts_def)
  have "\<exists>s ge' r w'. op_run demo_op_nt (demo_op ge demo_settled) () =
      Some (s, (demo_op ge demo_settled)\<lparr>op_ge := ge', op_replaced := r\<rparr>, w') \<and> gap_inv ge' \<and> gap_runs ge' = [(2, 3), (6, 2)]"
    by (rule run_ends_idle [OF demo_readable f demo_free_runs]) (simp_all add: o g u demo_settled_inv demo_settled_fits)
  then show ?thesis by (elim exE conjE) (intro exI conjI)
qed

end
