(* ===== verification/Path_Registration.thy ===== *)
theory Path_Registration
  imports C_Memory
begin

text \<open>
  Model of the registration of the program in the system's search path (\<open>util.cpp\<close>): the directory of the
  program, \<open>registerPath\<close> and \<open>unregisterPath\<close>. The registry and \<open>GetModuleFileName\<close> are parameters, and so is the
  conversion to upper case of the C library. An exception is its message; the functions catch it and print it.
\<close>

datatype reg_answer = More_data | Not_read | Value wstring

record 'w registry =
  GetModuleFileName :: "'w \<Rightarrow> wstring option"
  reg_open :: "'w \<Rightarrow> bool \<times> 'w"
  reg_get :: "'w \<Rightarrow> reg_answer \<times> 'w"
  reg_set :: "wstring \<Rightarrow> 'w \<Rightarrow> bool \<times> 'w"
  towupper :: "u16 \<Rightarrow> u16"

text \<open>\<open>_wsplitpath_s\<close>: the drive is a letter and a colon, the directory ends with its last slash or backslash.\<close>

definition split_drive :: "wstring \<Rightarrow> wstring \<times> wstring" where
  "split_drive file = (if 2 \<le> length file \<and> file ! 1 = 58 then (take 2 file, drop 2 file) else ([], file))"

definition split_dir :: "wstring \<Rightarrow> wstring" where
  "split_dir s = rev (dropWhile (\<lambda>c. c \<noteq> 92 \<and> c \<noteq> 47) (rev s))"

definition getModuleDir :: "('w, 'z) registry_scheme \<Rightarrow> 'w \<Rightarrow> string + wstring" where
  "getModuleDir reg w =
     (case GetModuleFileName reg w of
        None \<Rightarrow> Inl ''Failed to get module path''
      | Some file \<Rightarrow>
          let (drive, rest) = split_drive file; dir = split_dir rest
          in if dir = [] then Inl ''Failed to get dir name'' else Inr (butlast (drive @ dir)))"

definition toupper :: "('w, 'z) registry_scheme \<Rightarrow> wstring \<Rightarrow> wstring" where
  "toupper reg str = map (towupper reg) str"

text \<open>The new value of the path, or the message thrown.\<close>

definition add_path :: "('w, 'z) registry_scheme \<Rightarrow> wstring \<Rightarrow> wstring \<Rightarrow> string + wstring" where
  "add_path reg path str =
     (if wcsstr (toupper reg str) (toupper reg path) \<noteq> None then Inl ''Already present in PATH''
      else Inr ((if str \<noteq> [] then str @ [59] else str) @ path))"

definition registerPath :: "('w, 'z) registry_scheme \<Rightarrow> 'w \<Rightarrow> string option \<times> 'w" where
  "registerPath reg w =
     (case getModuleDir reg w of
        Inl e \<Rightarrow> (Some e, w)
      | Inr path \<Rightarrow>
          let (ok, w) = reg_open reg w
          in if \<not> ok then (Some ''Failed to open or create environment key'', w)
             else
               let (res, w) = reg_get reg w
               in case res of
                    More_data \<Rightarrow> (Some ''Buffer too small (unhandled)'', w)
                  | Not_read \<Rightarrow>
                      let (ok, w) = reg_set reg path w in (if ok then None else Some ''Failed to create value'', w)
                  | Value str \<Rightarrow>
                      (case add_path reg path str of
                         Inl e \<Rightarrow> (Some e, w)
                       | Inr str \<Rightarrow> let (ok, w) = reg_set reg str w in (if ok then None else Some ''Failed to set value'', w)))"

definition erase_at :: "nat \<Rightarrow> nat \<Rightarrow> wstring \<Rightarrow> wstring" where
  "erase_at pos n str = take pos str @ drop (pos + n) str"

definition remove_path :: "('w, 'z) registry_scheme \<Rightarrow> wstring \<Rightarrow> wstring \<Rightarrow> string + wstring" where
  "remove_path reg path str =
     (let find = (\<lambda>s. wcsstr (toupper reg str) s); upath = toupper reg (path @ [59])
      in case find upath of
           Some pos \<Rightarrow> Inr (erase_at pos (length path + 1) str)
         | None \<Rightarrow>
             (case find (59 # butlast upath) of
                Some pos \<Rightarrow> Inr (erase_at pos (length path + 1) str)
              | None \<Rightarrow>
                  (case find (butlast upath) of
                     Some pos \<Rightarrow> Inr (erase_at pos (length path) str)
                   | None \<Rightarrow> Inl ''Not present in PATH'')))"

definition unregisterPath :: "('w, 'z) registry_scheme \<Rightarrow> 'w \<Rightarrow> string option \<times> 'w" where
  "unregisterPath reg w =
     (case getModuleDir reg w of
        Inl e \<Rightarrow> (Some e, w)
      | Inr path \<Rightarrow>
          let (ok, w) = reg_open reg w
          in if \<not> ok then (Some ''Failed to open or create environment key'', w)
             else
               let (res, w) = reg_get reg w
               in case res of
                    More_data \<Rightarrow> (Some ''Buffer too small (unhandled)'', w)
                  | Not_read \<Rightarrow> (Some ''No PATH key'', w)
                  | Value str \<Rightarrow>
                      (case remove_path reg path str of
                         Inl e \<Rightarrow> (Some e, w)
                       | Inr str \<Rightarrow> let (ok, w) = reg_set reg str w in (if ok then None else Some ''Failed to set value'', w)))"

subsection \<open>Occurrences\<close>

definition occurs_at :: "wstring \<Rightarrow> wstring \<Rightarrow> nat \<Rightarrow> bool" where
  "occurs_at s t k \<longleftrightarrow> k + length t \<le> length s \<and> (\<forall>i < length t. s ! (k + i) = t ! i)"

lemma prefix_occurs: "take (length t) s = t \<longleftrightarrow> occurs_at s t 0"
  by (auto simp: occurs_at_def list_eq_iff_nth_eq)

lemma occurs_Suc: "occurs_at (c # s) t (Suc k) \<longleftrightarrow> occurs_at s t k"
  by (simp add: occurs_at_def)

lemma wcsstr_first: "wcsstr s t = Some k \<longleftrightarrow> occurs_at s t k \<and> (\<forall>j < k. \<not> occurs_at s t j)"
proof (induction s arbitrary: k)
  case Nil
  then show ?case by (cases t) (auto simp: occurs_at_def)
next
  case (Cons c s)
  show ?case
  proof (cases "take (length t) (c # s) = t")
    case True
    then show ?thesis by (cases k) (auto simp: prefix_occurs)
  next
    case False
    then have "\<not> occurs_at (c # s) t 0" by (simp add: prefix_occurs [symmetric])
    then show ?thesis using Cons.IH False by (cases k) (auto simp: occurs_Suc less_Suc_eq_0_disj)
  qed
qed

lemma wcsstr_none: "wcsstr s t = None \<longleftrightarrow> (\<forall>k. \<not> occurs_at s t k)"
proof
  assume n: "wcsstr s t = None"
  show "\<forall>k. \<not> occurs_at s t k"
  proof (rule ccontr)
    assume "\<not> (\<forall>k. \<not> occurs_at s t k)"
    then have "\<exists>k. occurs_at s t k" by simp
    then have "occurs_at s t (LEAST k. occurs_at s t k) \<and> (\<forall>j < (LEAST k. occurs_at s t k). \<not> occurs_at s t j)"
      by (metis LeastI not_less_Least)
    then show False using n wcsstr_first by (metis option.distinct(1))
  qed
qed (metis wcsstr_first option.exhaust)

subsection \<open>Registering and unregistering\<close>

text \<open>A path behind a separator occurs only there, if it contains no separator and did not occur before.\<close>

lemma occurs_behind:
  assumes "occurs_at (u @ sep # p) p k" "\<forall>k. \<not> occurs_at u p k" "sep \<notin> set p" "p \<noteq> []"
  shows "k = Suc (length u)"
proof -
  have o: "k + length p \<le> length u + Suc (length p)" "\<And>i. i < length p \<Longrightarrow> (u @ sep # p) ! (k + i) = p ! i"
    using assms(1) by (auto simp: occurs_at_def)
  have "\<not> k + length p \<le> length u"
  proof
    assume "k + length p \<le> length u"
    then have "occurs_at u p k" using o(2) by (auto simp: occurs_at_def nth_append)
    then show False using assms(2) by simp
  qed
  moreover have "\<not> k \<le> length u"
  proof
    assume k: "k \<le> length u"
    then have "length u - k < length p" using calculation by simp
    then have "p ! (length u - k) = sep" using o(2) [of "length u - k"] k by simp
    then show False using \<open>length u - k < length p\<close> assms(3) by (metis nth_mem)
  qed
  ultimately show ?thesis using o(1) by simp
qed

lemma occurs_left: "occurs_at s (t @ r) k \<Longrightarrow> occurs_at s t k"
  by (auto simp: occurs_at_def nth_append)

lemma occurs_right: "occurs_at s (c # t) k \<Longrightarrow> occurs_at s t (Suc k)"
  unfolding occurs_at_def by fastforce

lemma remove_added:
  assumes "towupper reg 59 = 59" "59 \<notin> set (toupper reg path)" "path \<noteq> []" "wcsstr (toupper reg str) (toupper reg path) = None"
  shows "\<exists>str'. add_path reg path str = Inr str' \<and> remove_path reg path str' = Inr str"
proof -
  let ?p = "toupper reg path" and ?u = "toupper reg str"
  have p: "?p \<noteq> []" "length ?p = length path" "butlast (toupper reg (path @ [59])) = ?p" "toupper reg (path @ [59]) = ?p @ [59]"
    using assms(1,3) by (auto simp: toupper_def)
  have no: "\<forall>k. \<not> occurs_at ?u ?p k" using assms(4) by (simp add: wcsstr_none)
  show ?thesis
  proof (cases "str = []")
    case True
    have "wcsstr ?p (?p @ [59]) = None" "wcsstr ?p (59 # ?p) = None"
      unfolding wcsstr_none by (simp_all add: occurs_at_def)
    moreover have "wcsstr ?p ?p = Some 0" unfolding wcsstr_first by (simp add: occurs_at_def)
    ultimately show ?thesis using True assms(4) unfolding add_path_def remove_path_def Let_def p
      by (simp add: erase_at_def)
  next
    case False
    have u: "toupper reg (str @ 59 # path) = ?u @ 59 # ?p" using assms(1) by (simp add: toupper_def)
    have only: "k = Suc (length ?u)" if "occurs_at (?u @ 59 # ?p) ?p k" for k
      by (rule occurs_behind [OF that no assms(2) p(1)])
    have "\<not> occurs_at (?u @ 59 # ?p) (?p @ [59]) k" for k
    proof
      assume o: "occurs_at (?u @ 59 # ?p) (?p @ [59]) k"
      then have "k = Suc (length ?u)" by (rule only [OF occurs_left])
      then show False using o by (simp add: occurs_at_def)
    qed
    then have "wcsstr (?u @ 59 # ?p) (?p @ [59]) = None" by (simp add: wcsstr_none)
    moreover have "occurs_at (?u @ 59 # ?p) (59 # ?p) (length ?u)" by (simp add: occurs_at_def nth_append)
    moreover have "\<not> occurs_at (?u @ 59 # ?p) (59 # ?p) j" if "j < length ?u" for j
    proof
      assume "occurs_at (?u @ 59 # ?p) (59 # ?p) j"
      then have "Suc j = Suc (length ?u)" by (rule only [OF occurs_right])
      then show False using that by simp
    qed
    ultimately have "wcsstr (?u @ 59 # ?p) (?p @ [59]) = None" "wcsstr (?u @ 59 # ?p) (59 # ?p) = Some (length ?u)"
      by (simp_all add: wcsstr_first)
    then show ?thesis using False assms(4) p u
      by (simp add: add_path_def remove_path_def erase_at_def) (simp add: toupper_def)
  qed
qed

text \<open>A registry that can be opened and stores what is set.\<close>

definition registry_stores :: "('w, 'z) registry_scheme \<Rightarrow> ('w \<Rightarrow> wstring) \<Rightarrow> bool" where
  "registry_stores reg val \<longleftrightarrow>
     (\<forall>w. fst (reg_open reg w) \<and> val (snd (reg_open reg w)) = val w \<and>
        fst (reg_get reg w) = Value (val w) \<and> val (snd (reg_get reg w)) = val w) \<and>
     (\<forall>s w. fst (reg_set reg s w) \<and> val (snd (reg_set reg s w)) = s) \<and>
     (\<forall>w w'. GetModuleFileName reg w = GetModuleFileName reg w')"

lemma registry_calls:
  assumes "registry_stores reg val"
  obtains w1 w2 w3 where "reg_open reg w = (True, w1)" "reg_get reg w1 = (Value (val w), w2)" "reg_set reg str w2 = (True, w3)" "val w3 = str"
proof -
  define w1 where "w1 = snd (reg_open reg w)"
  define w2 where "w2 = snd (reg_get reg w1)"
  define w3 where "w3 = snd (reg_set reg str w2)"
  have "reg_open reg w = (True, w1)" "val w1 = val w" "reg_get reg w1 = (Value (val w1), w2)" "reg_set reg str w2 = (True, w3)" "val w3 = str"
    using assms by (auto simp: registry_stores_def w1_def w2_def w3_def prod_eq_iff)
  then show ?thesis using that by metis
qed

lemma registered:
  assumes "registry_stores reg val" "getModuleDir reg w = Inr path" "add_path reg path (val w) = Inr str"
  shows "\<exists>w'. registerPath reg w = (None, w') \<and> val w' = str"
  by (rule registry_calls [OF assms(1), of w str]) (simp add: registerPath_def assms(2,3))

lemma unregistered:
  assumes "registry_stores reg val" "getModuleDir reg w = Inr path" "remove_path reg path (val w) = Inr str"
  shows "\<exists>w'. unregisterPath reg w = (None, w') \<and> val w' = str"
  by (rule registry_calls [OF assms(1), of w str]) (simp add: unregisterPath_def assms(2,3))

text \<open>
  C36: registering the directory of the program in the search path and then unregistering it succeeds and gives
  back the search path, if the directory did not occur in it, not even as a part of another entry, and its name has
  no semicolon.
\<close>

theorem path_roundtrip:
  assumes "registry_stores reg val" "getModuleDir reg w = Inr path" "path \<noteq> []"
    "towupper reg 59 = 59" "59 \<notin> set (toupper reg path)" "wcsstr (toupper reg (val w)) (toupper reg path) = None"
  shows "\<exists>w1 w2. registerPath reg w = (None, w1) \<and> unregisterPath reg w1 = (None, w2) \<and> val w2 = val w"
proof -
  obtain str where s: "add_path reg path (val w) = Inr str" "remove_path reg path str = Inr (val w)"
    using remove_added [OF assms(4,5,3,6)] by blast
  obtain w1 where w1: "registerPath reg w = (None, w1)" "val w1 = str" using registered [OF assms(1,2) s(1)] by blast
  have "getModuleDir reg w1 = Inr path"
  proof -
    have "GetModuleFileName reg w1 = GetModuleFileName reg w" using assms(1) unfolding registry_stores_def by blast
    then show ?thesis using assms(2) by (simp add: getModuleDir_def)
  qed
  then show ?thesis using unregistered [OF assms(1), of w1 path "val w"] s(2) w1 by auto
qed

theorem path_roundtrip_witness:
  "\<exists>w1 w2. registerPath \<lparr>GetModuleFileName = \<lambda>w. Some [67, 58, 92, 115, 92, 115], reg_open = \<lambda>w. (True, w), reg_get = \<lambda>w. (Value w, w),
      reg_set = \<lambda>s w. (True, s), towupper = id\<rparr> [68, 58] = (None, w1) \<and>
    unregisterPath \<lparr>GetModuleFileName = \<lambda>w. Some [67, 58, 92, 115, 92, 115], reg_open = \<lambda>w. (True, w), reg_get = \<lambda>w. (Value w, w),
      reg_set = \<lambda>s w. (True, s), towupper = id\<rparr> w1 = (None, w2) \<and> id w2 = id [68, 58]"
  by (rule path_roundtrip [of _ id _ "[67, 58, 92, 115]"])
    (simp_all add: registry_stores_def getModuleDir_def split_drive_def split_dir_def toupper_def)

end
