(* ===== verification/Volume_Regions.thy ===== *)
theory Volume_Regions
  imports Gap_Enumeration
begin

text \<open>
  Model of \<open>winx_add_volume_region\<close> and \<open>winx_sub_volume_region\<close> (\<open>volume.c\<close>). The ring of region
  objects is the list of their addresses and contents from the head pointer on, \<open>NULL\<close> is the
  address 0 and the empty ring the \<open>NULL\<close> head. \<open>None\<close> is the use of a dead pointer.
\<close>

type_synonym region_ring = "(addr \<times> volume_region) list"

definition ring_get :: "addr \<Rightarrow> region_ring \<Rightarrow> volume_region option" where
  "ring_get a rl = map_of rl a"

definition ring_set :: "addr \<Rightarrow> volume_region \<Rightarrow> region_ring \<Rightarrow> region_ring" where
  "ring_set a r rl = map (\<lambda>e. if fst e = a then (a, r) else e) rl"

definition ring_head :: "region_ring \<Rightarrow> addr" where
  "ring_head rl = (case rl of [] \<Rightarrow> 0 | e # _ \<Rightarrow> fst e)"

definition ring_remove :: "addr \<Rightarrow> region_ring \<Rightarrow> region_ring" where
  "ring_remove a rl = filter (\<lambda>e. fst e \<noteq> a) rl"

text \<open>\<open>a->next\<close>, with the address behind the last item given.\<close>

fun next_from :: "addr \<Rightarrow> addr \<Rightarrow> region_ring \<Rightarrow> addr option" where
  "next_from a head [] = None"
| "next_from a head ((b, r) # rl) =
     (if a = b then Some (case rl of [] \<Rightarrow> head | e # _ \<Rightarrow> fst e) else next_from a head rl)"

definition ring_next :: "addr \<Rightarrow> region_ring \<Rightarrow> addr option" where
  "ring_next a rl = next_from a (ring_head rl) rl"

text \<open>\<open>winx_list_insert(&rlist, prev, ...)\<close>\<close>

definition ring_put :: "addr \<Rightarrow> volume_region \<Rightarrow> addr \<Rightarrow> region_ring \<Rightarrow> region_ring option" where
  "ring_put a r prev rl =
     (if rl = [] \<or> prev = 0 then Some ((a, r) # rl) else ring_insert a r prev rl)"

text \<open>The first loop of \<open>winx_add_volume_region\<close>, at the items \<open>rl\<close> behind \<open>prev\<close> (0 at the head).\<close>

fun find_rprev :: "u64 \<Rightarrow> addr \<Rightarrow> region_ring \<Rightarrow> addr" where
  "find_rprev lcn prev [] = 0"
| "find_rprev lcn prev ((a, r) # rl) =
     (if r_lcn r > lcn then prev else if rl = [] then a else find_rprev lcn a rl)"

definition winx_add_volume_region :: "allocator \<Rightarrow> region_ring \<Rightarrow> u64 \<Rightarrow> u64 \<Rightarrow> region_ring option" where
  "winx_add_volume_region malloc rlist lcn len =
     (if len = 0 then Some rlist
      else
        let rprev = find_rprev lcn 0 rlist
        in do {
          hit \<leftarrow> (if rprev \<noteq> 0 then do {
                     p \<leftarrow> ring_get rprev rlist;
                     Some (r_lcn p + r_length p = lcn)
                   } else Some False);
          if hit then do {
            p \<leftarrow> ring_get rprev rlist;
            let p = p\<lparr>r_length := r_length p + len\<rparr>;
            let rlist = ring_set rprev p rlist;
            q \<leftarrow> ring_next rprev rlist;
            nx \<leftarrow> ring_get q rlist;
            if r_lcn p + r_length p = r_lcn nx
            then Some (ring_remove q (ring_set rprev (p\<lparr>r_length := r_length p + r_length nx\<rparr>) rlist))
            else Some rlist
          }
          else do {
            touch \<leftarrow> (if rlist \<noteq> [] then do {
                         q \<leftarrow> (if rprev = 0 then Some (ring_head rlist) else ring_next rprev rlist);
                         nx \<leftarrow> ring_get q rlist;
                         Some (if lcn + len = r_lcn nx then Some (q, nx) else None)
                       } else Some None);
            (case touch of
               Some (q, nx) \<Rightarrow>
                 Some (ring_set q (nx\<lparr>r_lcn := lcn, r_length := r_length nx + len\<rparr>) rlist)
             | None \<Rightarrow>
                 ring_put (malloc (map fst rlist)) \<lparr>r_lcn = lcn, r_length = len\<rparr> rprev rlist)
          }
        })"

text \<open>One pass of the loop of \<open>winx_sub_volume_region\<close> up to the label \<open>next_region\<close>.\<close>

datatype sub_step = Sub_break | Sub_next region_ring u64

definition sub_region :: "allocator \<Rightarrow> u64 \<Rightarrow> u64 \<Rightarrow> addr \<Rightarrow> region_ring \<Rightarrow> u64 \<Rightarrow> sub_step option" where
  "sub_region malloc lcn len a rlist remaining = do {
     r \<leftarrow> ring_get a rlist;
     if r_lcn r \<ge> lcn + len then Some Sub_break
     else if r_lcn r + r_length r > lcn then
       if r_lcn r \<ge> lcn \<and> r_lcn r + r_length r \<le> lcn + len then
         Some (Sub_next (ring_remove a rlist) (remaining - r_length r))
       else if r_lcn r < lcn \<and> r_lcn r + r_length r > lcn \<and> r_lcn r + r_length r \<le> lcn + len then
         Some (Sub_next (ring_set a (r\<lparr>r_length := lcn - r_lcn r\<rparr>) rlist) remaining)
       else if r_lcn r \<ge> lcn \<and> r_lcn r < lcn + len then do {
         let new_lcn = lcn + len;
         let new_length = r_lcn r + r_length r - (lcn + len);
         rlist \<leftarrow> winx_add_volume_region malloc (ring_remove a rlist) new_lcn new_length;
         Some (Sub_next rlist remaining)
       }
       else if r_lcn r < lcn \<and> r_lcn r + r_length r > lcn + len then do {
         let new_lcn = lcn + len;
         let new_length = r_lcn r + r_length r - (lcn + len);
         let rlist = ring_set a (r\<lparr>r_length := lcn - r_lcn r\<rparr>) rlist;
         rlist \<leftarrow> winx_add_volume_region malloc rlist new_lcn new_length;
         Some (Sub_next rlist remaining)
       }
       else Some (Sub_next rlist remaining)
     else Some (Sub_next rlist remaining)
   }"

partial_function (option) sub_loop :: "allocator \<Rightarrow> u64 \<Rightarrow> u64 \<Rightarrow> addr \<Rightarrow> region_ring \<Rightarrow> u64 \<Rightarrow> region_ring option" where
  "sub_loop malloc lcn len a rlist remaining =
     (if a = 0 \<or> remaining = 0 then Some rlist
      else do {
        nx \<leftarrow> ring_next a rlist;
        st \<leftarrow> sub_region malloc lcn len a rlist remaining;
        (case st of
           Sub_break \<Rightarrow> Some rlist
         | Sub_next rlist' remaining' \<Rightarrow>
             (if rlist' = [] \<or> nx = ring_head rlist then Some rlist'
              else sub_loop malloc lcn len nx rlist' remaining'))
      })"

definition winx_sub_volume_region :: "allocator \<Rightarrow> region_ring \<Rightarrow> u64 \<Rightarrow> u64 \<Rightarrow> region_ring option" where
  "winx_sub_volume_region malloc rlist lcn len =
     sub_loop malloc lcn len (ring_head rlist) rlist len"

subsection \<open>Rings as lists\<close>

definition ring_runs :: "region_ring \<Rightarrow> run list" where
  "ring_runs rl = map (\<lambda>e. run_of (snd e)) rl"

definition ring_free :: "region_ring \<Rightarrow> nat set" where
  "ring_free rl = run_clusters (ring_runs rl)"

definition ring_inv :: "region_ring \<Rightarrow> bool" where
  "ring_inv rl \<longleftrightarrow> distinct (map fst rl) \<and> 0 \<notin> fst ` set rl \<and> wf_runs (ring_runs rl)"

lemma ring_runs_simps [simp]:
  "ring_runs [] = []" "ring_runs (e # rl) = (r_lcn (snd e), r_length (snd e)) # ring_runs rl"
  "ring_runs (xs @ ys) = ring_runs xs @ ring_runs ys"
  by (simp_all add: ring_runs_def run_of_def)

lemma ring_get_split: "p \<notin> fst ` set as \<Longrightarrow> ring_get p (as @ (p, r) # bs) = Some r"
  by (simp add: ring_get_def map_add_def map_of_eq_None_iff split: option.splits)
    (auto dest: map_of_SomeD intro: rev_image_eqI)

lemma ring_set_split:
  "p \<notin> fst ` set as \<Longrightarrow> p \<notin> fst ` set bs \<Longrightarrow> ring_set p x (as @ (p, r) # bs) = as @ (p, x) # bs"
  by (auto simp: ring_set_def rev_image_eqI intro!: map_idI)

lemma ring_remove_split:
  "p \<notin> fst ` set as \<Longrightarrow> p \<notin> fst ` set bs \<Longrightarrow> ring_remove p (as @ (p, r) # bs) = as @ bs"
proof -
  assume "p \<notin> fst ` set as" "p \<notin> fst ` set bs"
  then have "filter (\<lambda>e. fst e \<noteq> p) as = as" "filter (\<lambda>e. fst e \<noteq> p) bs = bs"
    by (auto simp: filter_id_conv rev_image_eqI)
  then show ?thesis by (simp add: ring_remove_def)
qed

lemma next_from_split:
  "p \<notin> fst ` set as \<Longrightarrow> next_from p head (as @ (p, r) # bs) = Some (if bs = [] then head else fst (hd bs))"
  by (induction as) (auto split: list.splits)

lemma ring_next_split:
  "p \<notin> fst ` set as \<Longrightarrow> ring_next p (as @ (p, r) # bs) =
     Some (if bs = [] then if as = [] then p else fst (hd as) else fst (hd bs))"
  by (cases as) (auto simp: ring_next_def next_from_split ring_head_def split: list.splits)

lemma find_rprev_split:
  assumes "\<forall>e \<in> set as. r_lcn (snd e) \<le> lcn" "\<forall>e \<in> set bs. lcn < r_lcn (snd e)"
  shows "find_rprev lcn prev (as @ bs) =
    (if as @ bs = [] then 0 else if as = [] then prev else fst (last as))"
  using assms
proof (induction as arbitrary: prev)
  case Nil
  then show ?case by (cases bs) auto
next
  case (Cons e as)
  then show ?case by (cases e) (auto simp: not_less)
qed

lemma ring_inv_split:
  assumes "ring_inv (as @ (p, r) # bs)"
  shows "p \<notin> fst ` set as" "p \<notin> fst ` set bs" "p \<noteq> 0"
    "wf_runs (ring_runs as @ (r_lcn r, r_length r) # ring_runs bs)"
  using assms by (auto simp: ring_inv_def)

lemma ring_inv_at:
  assumes "ring_inv rl" "run_ok (l, n)" "extent l n \<inter> ring_free rl = {}"
  obtains as bs where "rl = as @ bs" "wf_runs (ring_runs as @ ring_runs bs)"
    "\<forall>e \<in> set as. r_lcn (snd e) \<le> l \<and> unat (r_lcn (snd e)) + unat (r_length (snd e)) \<le> unat l"
    "\<forall>e \<in> set bs. l < r_lcn (snd e) \<and> unat l + unat n \<le> unat (r_lcn (snd e))"
proof -
  define es where "es = map (\<lambda>e. (r_lcn (snd e), e)) rl"
  have wf: "wf_runs (ring_runs rl)" using assms(1) by (simp add: ring_inv_def)
  then have "sorted_wrt (<) (map (\<lambda>e. r_lcn (snd e)) rl)"
    using wf_runs_sorted [OF wf] by (simp add: ring_runs_def run_of_def comp_def)
  then have s: "sorted (map (\<lambda>e. r_lcn (snd e)) rl)" by (rule strict_sorted_imp_sorted)
  define as where "as = takeWhile (\<lambda>e. r_lcn (snd e) < l) rl"
  define bs where "bs = dropWhile (\<lambda>e. r_lcn (snd e) < l) rl"
  have rl: "rl = as @ bs" by (simp add: as_def bs_def)
  have as: "r_lcn (snd e) < l" if "e \<in> set as" for e using that by (auto simp: as_def dest: set_takeWhileD)
  have bs: "l \<le> r_lcn (snd e)" if "e \<in> set bs" for e
    using dropWhile_ge [of es "(r_lcn (snd e), e)" l] s that
    by (force simp: es_def bs_def dropWhile_map comp_def)
  have sep: "unat (r_lcn r) < unat l \<Longrightarrow> unat (r_lcn r) + unat (r_length r) \<le> unat l"
    "unat l \<le> unat (r_lcn r) \<Longrightarrow> unat l + unat n \<le> unat (r_lcn r)" if m: "(p, r) \<in> set rl" for p r
  proof -
    have r: "(r_lcn r, r_length r) \<in> set (ring_runs rl)" using m by (force simp: ring_runs_def run_of_def)
    then have "extent l n \<inter> extent (r_lcn r) (r_length r) = {}"
      using assms(3) unfolding ring_free_def run_clusters_def by fastforce
    moreover have "run_ok (r_lcn r, r_length r)" by (rule wf_runs_mem [OF wf r])
    moreover have "n \<noteq> 0" using assms(2) by (simp add: run_ok_def)
    ultimately show "unat (r_lcn r) < unat l \<Longrightarrow> unat (r_lcn r) + unat (r_length r) \<le> unat l"
      "unat l \<le> unat (r_lcn r) \<Longrightarrow> unat l + unat n \<le> unat (r_lcn r)"
      using run_separated [of "(r_lcn r, r_length r)" l n] by simp_all
  qed
  have "0 < unat n" using assms(2) run_okD(2) by blast
  show thesis
  proof (rule that [OF rl])
    show "wf_runs (ring_runs as @ ring_runs bs)" using wf rl by simp
    show "\<forall>e \<in> set as. r_lcn (snd e) \<le> l \<and> unat (r_lcn (snd e)) + unat (r_length (snd e)) \<le> unat l"
      using as sep(1) rl by (fastforce simp: nowrap)
    show "\<forall>e \<in> set bs. l < r_lcn (snd e) \<and> unat l + unat n \<le> unat (r_lcn (snd e))"
      using bs sep(2) rl \<open>0 < unat n\<close> by (fastforce simp: nowrap)
  qed
qed

subsection \<open>Adding a region\<close>

lemma ring_invI:
  "distinct (map fst rl) \<Longrightarrow> 0 \<notin> fst ` set rl \<Longrightarrow> wf_runs (ring_runs rl) \<Longrightarrow> ring_inv rl"
  by (simp add: ring_inv_def)

lemma ring_after:
  assumes "wf_runs (ring_runs bs)" "\<forall>e \<in> set bs. m \<le> unat (r_lcn (snd e))"
    "bs \<noteq> [] \<Longrightarrow> m \<noteq> unat (r_lcn (snd (hd bs)))" "x \<in> set (ring_runs bs)"
  shows "m < unat (fst x)"
proof (cases bs)
  case (Cons b bs')
  then have "m < unat (r_lcn (snd b))" using assms(2,3) by auto
  then show ?thesis using assms(1,4) Cons by (auto simp: wf_runs_Cons run_before_def)
qed (use assms in simp)

lemma ring_before:
  assumes "wf_runs (ring_runs as)" "\<forall>e \<in> set as. unat (r_lcn (snd e)) + unat (r_length (snd e)) \<le> m"
    "as \<noteq> [] \<Longrightarrow> unat (r_lcn (snd (last as))) + unat (r_length (snd (last as))) \<noteq> m" "e \<in> set as"
  shows "unat (r_lcn (snd e)) + unat (r_length (snd e)) < m"
proof (cases as rule: rev_cases)
  case (snoc as' b)
  then have "unat (r_lcn (snd b)) + unat (r_length (snd b)) < m" using assms(2,3) by auto
  moreover have "run_before (run_of (snd x)) (run_of (snd b))" if "x \<in> set as'" for x
    using assms(1) snoc that by (auto simp: wf_runs_append ring_runs_def run_of_def)
  ultimately show ?thesis using assms(4) snoc by (fastforce simp: run_before_def run_of_def)
qed (use assms in simp)

lemma add_hit:
  assumes "n \<noteq> 0" "find_rprev l 0 rl = p" "p \<noteq> 0" "ring_get p rl = Some r" "r_lcn r + r_length r = l"
    "ring_next p (ring_set p (r\<lparr>r_length := r_length r + n\<rparr>) rl) = Some q"
    "ring_get q (ring_set p (r\<lparr>r_length := r_length r + n\<rparr>) rl) = Some nx"
  shows "winx_add_volume_region malloc rl l n =
    Some (if r_lcn r + (r_length r + n) = r_lcn nx
          then ring_remove q (ring_set p (r\<lparr>r_length := r_length r + n + r_length nx\<rparr>)
            (ring_set p (r\<lparr>r_length := r_length r + n\<rparr>) rl))
          else ring_set p (r\<lparr>r_length := r_length r + n\<rparr>) rl)"
  using assms by (simp add: winx_add_volume_region_def Let_def)

lemma add_miss:
  assumes "n \<noteq> 0" "find_rprev l 0 rl = p" "rl \<noteq> []"
    "p \<noteq> 0 \<Longrightarrow> \<exists>r. ring_get p rl = Some r \<and> r_lcn r + r_length r \<noteq> l"
    "(if p = 0 then Some (ring_head rl) else ring_next p rl) = Some q" "ring_get q rl = Some nx"
  shows "winx_add_volume_region malloc rl l n =
    (if l + n = r_lcn nx then Some (ring_set q (nx\<lparr>r_lcn := l, r_length := r_length nx + n\<rparr>) rl)
     else ring_put (malloc (map fst rl)) \<lparr>r_lcn = l, r_length = n\<rparr> p rl)"
  using assms by (cases "p = 0") (auto simp: winx_add_volume_region_def Let_def)

text \<open>The item behind the last one is the head, which never continues the new region.\<close>

lemma ring_neighbour:
  assumes inv: "ring_inv (as @ (p, r) # bs)" and as: "\<forall>e \<in> set as. r_lcn (snd e) \<le> l" "r_lcn r \<le> l"
    and ok: "run_ok (l, n)" and nn: "bs \<noteq> [] \<Longrightarrow> l + n \<noteq> r_lcn (snd (hd bs))"
  obtains q nx where "ring_next p (as @ (p, r) # bs) = Some q" "ring_get q (as @ (p, r) # bs) = Some nx" "l + n \<noteq> r_lcn nx"
proof -
  note sp = ring_inv_split(1-3) [OF inv] and nx = ring_next_split [OF ring_inv_split(1) [OF inv], of r bs]
  have lt: "l < l + n" using ok run_okD [OF ok] by (simp add: nowrap)
  consider (after) b bs' where "bs = b # bs'" | (self) "bs = []" "as = []" | (wrap) c cs where "bs = []" "as = c # cs"
    by (cases bs; cases as) auto
  then show thesis
  proof cases
    case after
    have "ring_get (fst b) ((as @ [(p, r)]) @ (fst b, snd b) # bs') = Some (snd b)"
      using inv by (intro ring_get_split) (auto simp: ring_inv_def after)
    then show ?thesis using that [of "fst b" "snd b"] nx nn after by simp
  next
    case self
    then show ?thesis using that [of p r] nx ring_get_split [OF sp(1), of r bs] as lt by (auto dest: leD)
  next
    case wrap
    then have "ring_get (fst c) (as @ (p, r) # bs) = Some (snd c)" by (cases c) (simp add: ring_get_def)
    then show ?thesis using that [of "fst c" "snd c"] nx as lt wrap by (auto dest: leD)
  qed
qed

lemma add_prev:
  assumes inv: "ring_inv (as @ (p, r) # bs)" and ok: "run_ok (l, n)" and hit: "r_lcn r + r_length r = l"
    and as: "\<forall>e \<in> set as. r_lcn (snd e) \<le> l" and bs: "\<forall>e \<in> set bs. l < r_lcn (snd e) \<and> unat l + unat n \<le> unat (r_lcn (snd e))"
    and nn: "bs \<noteq> [] \<Longrightarrow> l + n \<noteq> r_lcn (snd (hd bs))"
  shows "winx_add_volume_region malloc (as @ (p, r) # bs) l n = Some (as @ (p, r\<lparr>r_length := r_length r + n\<rparr>) # bs) \<and>
    ring_inv (as @ (p, r\<lparr>r_length := r_length r + n\<rparr>) # bs) \<and>
    ring_free (as @ (p, r\<lparr>r_length := r_length r + n\<rparr>) # bs) = ring_free (as @ (p, r) # bs) \<union> extent l n"
proof -
  note sp = ring_inv_split [OF inv]
  define r1 where "r1 = r\<lparr>r_length := r_length r + n\<rparr>"
  have kr: "unat l = unat (r_lcn r) + unat (r_length r)"
    using sp(4) hit by (auto simp: wf_runs_append wf_runs_Cons dest: run_okD)
  have ln: "unat (l + n) = unat l + unat n" "n \<noteq> 0" using ok by (auto simp: run_okD run_ok_def)
  have ov: "unat (r_lcn r) + unat (r_length r) + unat n < 2 ^ 64" using ok kr by (simp add: run_ok_def)
  have sum: "r_lcn r + (r_length r + n) = l + n" using hit by (simp add: add.assoc [symmetric])
  have fp: "find_rprev l 0 ((as @ [(p, r)]) @ bs) = p"
    by (subst find_rprev_split) (use as bs kr in \<open>auto simp: nowrap\<close>)
  have st: "ring_set p r1 (as @ (p, r) # bs) = as @ (p, r1) # bs" by (rule ring_set_split [OF sp(1,2)])
  have "\<And>b. b \<in> set (ring_runs bs) \<Longrightarrow> unat (r_lcn r) + unat (r_length r) + unat n < unat (fst b)"
    using sp(4) bs nn ln kr
    by (intro ring_after [of bs]) (auto simp: wf_runs_append wf_runs_Cons u64_eq_iff)
  note grow = runs_grow_right [OF sp(4) ov this]
  have inv1: "ring_inv (as @ (p, r1) # bs)" using inv grow(1) by (simp add: ring_inv_def r1_def)
  obtain q nx where q: "ring_next p (as @ (p, r1) # bs) = Some q" "ring_get q (as @ (p, r1) # bs) = Some nx" "l + n \<noteq> r_lcn nx"
    by (rule ring_neighbour [OF inv1 as _ ok nn]) (use kr in \<open>auto simp: r1_def nowrap\<close>)
  have "winx_add_volume_region malloc (as @ (p, r) # bs) l n = Some (as @ (p, r1) # bs)"
    using add_hit [of n l "as @ (p, r) # bs" p r q nx] ln(2) fp sp(3) ring_get_split [OF sp(1), of r bs] hit q st
    unfolding sum by (simp add: r1_def)
  then show ?thesis
    using inv grow hit by (auto simp: ring_inv_def ring_free_def r1_def)
qed

lemma add_bridge:
  assumes inv: "ring_inv (as @ (p, r) # (q, s) # bs)" and ok: "run_ok (l, n)" and hit: "r_lcn r + r_length r = l" "l + n = r_lcn s"
    and ge: "\<forall>e \<in> set as. r_lcn (snd e) \<le> l" "\<forall>e \<in> set bs. l < r_lcn (snd e)"
  shows "winx_add_volume_region malloc (as @ (p, r) # (q, s) # bs) l n =
      Some (as @ (p, r\<lparr>r_length := r_length r + n + r_length s\<rparr>) # bs) \<and>
    ring_inv (as @ (p, r\<lparr>r_length := r_length r + n + r_length s\<rparr>) # bs) \<and>
    ring_free (as @ (p, r\<lparr>r_length := r_length r + n + r_length s\<rparr>) # bs) = ring_free (as @ (p, r) # (q, s) # bs) \<union> extent l n"
proof -
  note sp = ring_inv_split [OF inv]
  have wf: "wf_runs (ring_runs as @ (r_lcn r, r_length r) # (r_lcn r + r_length r + n, r_length s) # ring_runs bs)"
    using sp(4) hit by simp
  have kr: "unat l = unat (r_lcn r) + unat (r_length r)"
    using wf hit(1) by (auto simp: wf_runs_append wf_runs_Cons dest: run_okD)
  have ln: "unat (l + n) = unat l + unat n" "n \<noteq> 0" using ok by (auto simp: run_okD run_ok_def)
  have ov: "unat (r_lcn r) + unat (r_length r) + unat n + unat (r_length s) < 2 ^ 64"
    using wf kr ln hit by (auto simp: wf_runs_append wf_runs_Cons run_ok_def)
  note br = runs_bridge [OF wf ov]
  have rl: "r_lcn r \<le> l" using kr by (simp add: nowrap)
  have fp: "find_rprev l 0 ((as @ [(p, r)]) @ (q, s) # bs) = p"
    by (subst find_rprev_split) (use ge rl hit ln in \<open>auto simp: nowrap u64_pos_iff\<close>)
  have q: "q \<notin> fst ` set (as @ [(p, r)])" "q \<notin> fst ` set bs" "p \<noteq> q"
    using inv by (auto simp: ring_inv_def)
  let ?p1 = "r\<lparr>r_length := r_length r + n\<rparr>" and ?p2 = "r\<lparr>r_length := r_length r + n + r_length s\<rparr>"
  have "winx_add_volume_region malloc (as @ (p, r) # (q, s) # bs) l n =
      Some (ring_remove q (ring_set p ?p2 (as @ (p, ?p1) # (q, s) # bs)))"
    using add_hit [of n l "as @ (p, r) # (q, s) # bs" p r q s] ln(2) fp sp(1,3) hit q
      ring_get_split [OF sp(1), of r "(q, s) # bs"] ring_set_split [OF sp(1,2)] ring_next_split [OF sp(1), of ?p1 "(q, s) # bs"]
      ring_get_split [of q "as @ [(p, ?p1)]" s bs]
    by (simp add: add.assoc [symmetric])
  also have "ring_set p ?p2 (as @ (p, ?p1) # (q, s) # bs) = (as @ [(p, ?p2)]) @ (q, s) # bs"
    using ring_set_split [OF sp(1,2)] by simp
  also have "ring_remove q \<dots> = (as @ [(p, ?p2)]) @ bs"
    by (rule ring_remove_split) (use q in auto)
  finally show ?thesis
    using inv br hit by (auto simp: ring_inv_def ring_free_def add.assoc)
qed

lemma add_next:
  assumes inv: "ring_inv (as @ (q, s) # bs)" and ok: "run_ok (l, n)" and hit: "l + n = r_lcn s"
    and as: "\<forall>e \<in> set as. r_lcn (snd e) \<le> l \<and> unat (r_lcn (snd e)) + unat (r_length (snd e)) < unat l"
    and bs: "\<forall>e \<in> set bs. l < r_lcn (snd e)"
  shows "winx_add_volume_region malloc (as @ (q, s) # bs) l n =
      Some (as @ (q, s\<lparr>r_lcn := l, r_length := r_length s + n\<rparr>) # bs) \<and>
    ring_inv (as @ (q, s\<lparr>r_lcn := l, r_length := r_length s + n\<rparr>) # bs) \<and>
    ring_free (as @ (q, s\<lparr>r_lcn := l, r_length := r_length s + n\<rparr>) # bs) = ring_free (as @ (q, s) # bs) \<union> extent l n"
proof -
  note sp = ring_inv_split [OF inv]
  have ln: "unat (l + n) = unat l + unat n" "n \<noteq> 0" using ok by (auto simp: run_okD run_ok_def)
  have wf: "wf_runs (ring_runs as @ (l + n, r_length s) # ring_runs bs)" using sp(4) hit by simp
  have ov: "unat l + unat n + unat (r_length s) < 2 ^ 64"
    using wf ln by (auto simp: wf_runs_append wf_runs_Cons run_ok_def)
  have "\<And>a. a \<in> set (ring_runs as) \<Longrightarrow> unat (fst a) + unat (snd a) < unat l"
    using as by (auto simp: ring_runs_def run_of_def)
  note grow = runs_grow_left [OF wf ov this]
  have ls: "l < r_lcn s" using hit ln by (auto simp: nowrap u64_pos_iff)
  have fp: "find_rprev l 0 (as @ (q, s) # bs) = (if as = [] then 0 else fst (last as))"
    by (subst find_rprev_split) (use as bs ls in auto)
  have "winx_add_volume_region malloc (as @ (q, s) # bs) l n =
      Some (as @ (q, s\<lparr>r_lcn := l, r_length := r_length s + n\<rparr>) # bs)"
  proof (cases as rule: rev_cases)
    case Nil
    then show ?thesis
      using add_miss [OF ln(2) fp, of q s malloc] hit ring_get_split [OF sp(1), of s bs] ring_set_split [OF sp(1,2)]
      by (simp add: ring_head_def)
  next
    case (snoc as' e)
    obtain p r where e: "e = (p, r)" by (cases e)
    have inv': "ring_inv (as' @ (p, r) # (q, s) # bs)" using inv snoc e by simp
    note sp' = ring_inv_split [OF inv']
    have "run_ok (r_lcn r, r_length r)" using sp'(4) by (simp add: wf_runs_append wf_runs_Cons)
    then have "r_lcn r + r_length r \<noteq> l" using as snoc e run_okD(1) by (auto simp: u64_eq_iff)
    then show ?thesis
      using add_miss [OF ln(2) fp, of q s malloc] hit snoc e sp'(3) ring_get_split [OF sp'(1), of r "(q, s) # bs"]
        ring_get_split [OF sp(1), of s bs] ring_set_split [OF sp(1,2)] ring_next_split [OF sp'(1), of r "(q, s) # bs"]
      by simp
  qed
  then show ?thesis
    using inv grow hit by (auto simp: ring_inv_def ring_free_def)
qed

lemma add_alone:
  assumes inv: "ring_inv (as @ bs)" and fm: "fresh_malloc malloc" and ok: "run_ok (l, n)"
    and as: "\<forall>e \<in> set as. r_lcn (snd e) \<le> l \<and> unat (r_lcn (snd e)) + unat (r_length (snd e)) < unat l"
    and bs: "\<forall>e \<in> set bs. l < r_lcn (snd e) \<and> unat l + unat n < unat (r_lcn (snd e))"
  shows "\<exists>a. a \<notin> fst ` set (as @ bs) \<and>
    winx_add_volume_region malloc (as @ bs) l n = Some (as @ (a, \<lparr>r_lcn = l, r_length = n\<rparr>) # bs) \<and>
    ring_inv (as @ (a, \<lparr>r_lcn = l, r_length = n\<rparr>) # bs) \<and>
    ring_free (as @ (a, \<lparr>r_lcn = l, r_length = n\<rparr>) # bs) = ring_free (as @ bs) \<union> extent l n"
proof -
  define a where "a = malloc (map fst (as @ bs))"
  define r where "r = \<lparr>r_lcn = l, r_length = n\<rparr>"
  have a: "a \<noteq> 0" "a \<notin> fst ` set (as @ bs)"
    using fm [unfolded fresh_malloc_def, rule_format, of "map fst (as @ bs)"] by (simp_all add: a_def image_Un)
  have ln: "unat (l + n) = unat l + unat n" "n \<noteq> 0" using ok by (auto simp: run_okD run_ok_def)
  have wf: "wf_runs (ring_runs as @ ring_runs bs)" using inv by (simp add: ring_inv_def)
  have "\<And>x. x \<in> set (ring_runs as) \<Longrightarrow> run_before x (l, n)" "\<And>x. x \<in> set (ring_runs bs) \<Longrightarrow> run_before (l, n) x"
    using as bs by (auto simp: ring_runs_def run_of_def run_before_def)
  note ins = runs_insert [OF wf ok this]
  have fp: "find_rprev l 0 (as @ bs) = (if as @ bs = [] then 0 else if as = [] then 0 else fst (last as))"
    by (rule find_rprev_split) (use as bs in auto)
  have "winx_add_volume_region malloc (as @ bs) l n = Some (as @ (a, r) # bs)"
  proof (cases as rule: rev_cases)
    case Nil
    note as0 = Nil
    show ?thesis
    proof (cases bs)
      case Nil
      then show ?thesis using as0 ln(2) by (simp add: winx_add_volume_region_def ring_put_def a_def r_def)
    next
      case (Cons b bs')
      have "l + n \<noteq> r_lcn (snd b)" using bs Cons ln by (auto simp: u64_eq_iff)
      then show ?thesis
        using as0 Cons add_miss [OF ln(2) fp, of "fst b" "snd b" malloc]
        by (cases b) (simp add: ring_head_def ring_get_def ring_put_def a_def r_def)
    qed
  next
    case (snoc as' e)
    obtain p t where e: "e = (p, t)" by (cases e)
    have inv': "ring_inv (as' @ (p, t) # bs)" using inv snoc e by simp
    note sp = ring_inv_split [OF inv']
    have "run_ok (r_lcn t, r_length t)" using sp(4) by (simp add: wf_runs_append wf_runs_Cons)
    then have "r_lcn t + r_length t \<noteq> l" using as snoc e run_okD(1) by (auto simp: u64_eq_iff)
    moreover have nn: "bs \<noteq> [] \<Longrightarrow> l + n \<noteq> r_lcn (snd (hd bs))"
      using bs ln by (cases bs) (auto simp: u64_eq_iff)
    obtain q nx where "ring_next p (as' @ (p, t) # bs) = Some q"
      "ring_get q (as' @ (p, t) # bs) = Some nx" "l + n \<noteq> r_lcn nx"
      by (rule ring_neighbour [OF inv' _ _ ok nn]) (use as snoc e in auto)
    moreover have "ring_insert a r p (as' @ (p, t) # bs) = Some (as' @ (p, t) # (a, r) # bs)"
      using sp(1) by (induction as') auto
    ultimately show ?thesis
      using add_miss [OF ln(2) fp, of q nx malloc] snoc e sp(3) ring_get_split [OF sp(1), of t bs]
      by (simp add: ring_put_def a_def r_def)
  qed
  then show ?thesis
    using inv ins a by (auto simp: ring_inv_def ring_free_def r_def)
qed

lemma add_region_correct:
  assumes inv: "ring_inv rl" and fm: "fresh_malloc malloc" and ok: "run_ok (l, n)"
    and dis: "extent l n \<inter> ring_free rl = {}"
  shows "\<exists>rl'. winx_add_volume_region malloc rl l n = Some rl' \<and> ring_inv rl' \<and> ring_free rl' = ring_free rl \<union> extent l n"
proof -
  obtain as bs where s: "rl = as @ bs" "wf_runs (ring_runs as @ ring_runs bs)"
    "\<forall>e \<in> set as. r_lcn (snd e) \<le> l \<and> unat (r_lcn (snd e)) + unat (r_length (snd e)) \<le> unat l"
    "\<forall>e \<in> set bs. l < r_lcn (snd e) \<and> unat l + unat n \<le> unat (r_lcn (snd e))"
    by (rule ring_inv_at [OF inv ok dis])
  have ln: "unat (l + n) = unat l + unat n" using ok by (rule run_okD)
  have wa: "wf_runs (ring_runs as)" "wf_runs (ring_runs bs)" using s(2) by (simp_all add: wf_runs_append)
  have end_nat: "(r_lcn (snd e) + r_length (snd e) = l) = (unat (r_lcn (snd e)) + unat (r_length (snd e)) = unat l)"
    if "e \<in> set as" for e
  proof -
    have "(r_lcn (snd e), r_length (snd e)) \<in> set (ring_runs as)" using that by (auto simp: ring_runs_def run_of_def)
    then show ?thesis using run_okD(1) [OF wf_runs_mem [OF wa(1)]] by (simp add: u64_eq_iff)
  qed
  show ?thesis
  proof (cases "as \<noteq> [] \<and> r_lcn (snd (last as)) + r_length (snd (last as)) = l")
    case True
    then obtain as' p r where as: "as = as' @ [(p, r)]" "r_lcn r + r_length r = l" by (cases as rule: rev_cases) auto
    show ?thesis
    proof (cases "bs \<noteq> [] \<and> l + n = r_lcn (snd (hd bs))")
      case True
      then obtain q t bs' where "bs = (q, t) # bs'" "l + n = r_lcn t" by (cases bs) auto
      then show ?thesis using add_bridge [of as' p r q t bs' l n malloc] inv ok as s by auto
    next
      case False
      then show ?thesis using add_prev [of as' p r bs l n malloc] inv ok as s by auto
    qed
  next
    case False
    have before: "\<forall>e \<in> set as. r_lcn (snd e) \<le> l \<and> unat (r_lcn (snd e)) + unat (r_length (snd e)) < unat l"
    proof
      fix e assume e: "e \<in> set as"
      have "unat (r_lcn (snd e)) + unat (r_length (snd e)) < unat l"
        by (rule ring_before [OF wa(1) _ _ e]) (use s(3) False end_nat [of "last as"] in auto)
      then show "r_lcn (snd e) \<le> l \<and> unat (r_lcn (snd e)) + unat (r_length (snd e)) < unat l" using s(3) e by simp
    qed
    show ?thesis
    proof (cases "bs \<noteq> [] \<and> l + n = r_lcn (snd (hd bs))")
      case True
      then obtain q t bs' where "bs = (q, t) # bs'" "l + n = r_lcn t" by (cases bs) auto
      then show ?thesis using add_next [of as q t bs' l n malloc] inv ok before s by auto
    next
      case False
      have "\<forall>e \<in> set bs. l < r_lcn (snd e) \<and> unat l + unat n < unat (r_lcn (snd e))"
      proof
        fix e assume e: "e \<in> set bs"
        then have x: "(r_lcn (snd e), r_length (snd e)) \<in> set (ring_runs bs)" by (auto simp: ring_runs_def run_of_def)
        have "unat l + unat n < unat (fst (r_lcn (snd e), r_length (snd e)))"
          by (rule ring_after [OF wa(2) _ _ x]) (use s(4) False ln in \<open>auto simp: u64_eq_iff\<close>)
        then show "l < r_lcn (snd e) \<and> unat l + unat n < unat (r_lcn (snd e))" using s(4) e by simp
      qed
      then show ?thesis using add_alone [of as bs malloc l n] inv fm ok before s by blast
    qed
  qed
qed

subsection \<open>Subtracting a region\<close>

lemma sub_region_eval:
  fixes r
  assumes g: "ring_get a rl = Some r" and r: "run_ok (r_lcn r, r_length r)" and ok: "run_ok (l, n)"
  defines "s \<equiv> unat (r_lcn r)" and "t \<equiv> unat (r_lcn r) + unat (r_length r)"
  defines "L \<equiv> unat l" and "E \<equiv> unat l + unat n"
  shows "E \<le> s \<Longrightarrow> sub_region malloc l n a rl rem = Some Sub_break"
    and "s < E \<Longrightarrow> t \<le> L \<Longrightarrow> sub_region malloc l n a rl rem = Some (Sub_next rl rem)"
    and "L \<le> s \<Longrightarrow> t \<le> E \<Longrightarrow> sub_region malloc l n a rl rem = Some (Sub_next (ring_remove a rl) (rem - r_length r))"
    and "s < L \<Longrightarrow> L < t \<Longrightarrow> t \<le> E \<Longrightarrow>
      sub_region malloc l n a rl rem = Some (Sub_next (ring_set a (r\<lparr>r_length := l - r_lcn r\<rparr>) rl) rem)"
    and "L \<le> s \<Longrightarrow> s < E \<Longrightarrow> E < t \<Longrightarrow> sub_region malloc l n a rl rem =
      map_option (\<lambda>rl. Sub_next rl rem)
        (winx_add_volume_region malloc (ring_remove a rl) (l + n) (r_lcn r + r_length r - (l + n)))"
    and "s < L \<Longrightarrow> E < t \<Longrightarrow> sub_region malloc l n a rl rem =
      map_option (\<lambda>rl. Sub_next rl rem)
        (winx_add_volume_region malloc (ring_set a (r\<lparr>r_length := l - r_lcn r\<rparr>) rl) (l + n) (r_lcn r + r_length r - (l + n)))"
proof -
  have w: "unat (r_lcn r + r_length r) = t" "unat (l + n) = E" "0 < unat (r_length r)" "0 < unat n"
    using r ok run_okD by (simp_all add: t_def E_def)
  have c: "(l + n \<le> r_lcn r) = (E \<le> s)" "(l < r_lcn r + r_length r) = (L < t)" "(l \<le> r_lcn r) = (L \<le> s)"
    "(r_lcn r + r_length r \<le> l + n) = (t \<le> E)" "(r_lcn r < l) = (s < L)" "(r_lcn r < l + n) = (s < E)"
    "(l + n < r_lcn r + r_length r) = (E < t)"
    unfolding u64_order w s_def L_def by simp_all
  have o: "s < t" "L < E" using w by (simp_all add: t_def s_def L_def E_def)
  note ev = sub_region_def g c Let_def
  show "E \<le> s \<Longrightarrow> sub_region malloc l n a rl rem = Some Sub_break"
    "s < E \<Longrightarrow> t \<le> L \<Longrightarrow> sub_region malloc l n a rl rem = Some (Sub_next rl rem)"
    "L \<le> s \<Longrightarrow> t \<le> E \<Longrightarrow> sub_region malloc l n a rl rem = Some (Sub_next (ring_remove a rl) (rem - r_length r))"
    "s < L \<Longrightarrow> L < t \<Longrightarrow> t \<le> E \<Longrightarrow>
      sub_region malloc l n a rl rem = Some (Sub_next (ring_set a (r\<lparr>r_length := l - r_lcn r\<rparr>) rl) rem)"
    "L \<le> s \<Longrightarrow> s < E \<Longrightarrow> E < t \<Longrightarrow> sub_region malloc l n a rl rem =
      map_option (\<lambda>rl. Sub_next rl rem)
        (winx_add_volume_region malloc (ring_remove a rl) (l + n) (r_lcn r + r_length r - (l + n)))"
    "s < L \<Longrightarrow> E < t \<Longrightarrow> sub_region malloc l n a rl rem =
      map_option (\<lambda>rl. Sub_next rl rem)
        (winx_add_volume_region malloc (ring_set a (r\<lparr>r_length := l - r_lcn r\<rparr>) rl) (l + n) (r_lcn r + r_length r - (l + n)))"
    using o by (simp_all add: ev map_option_case split: bind_splits option.splits)
qed


lemma sub_loop_next:
  assumes "ring_inv (ps @ (a, r) # rs)" "rem \<noteq> 0"
    "sub_region malloc l n a (ps @ (a, r) # rs) rem = Some (Sub_next rl' rem')"
  shows "sub_loop malloc l n a (ps @ (a, r) # rs) rem =
    (if rl' = [] \<or> rs = [] then Some rl' else sub_loop malloc l n (fst (hd rs)) rl' rem')"
proof -
  note sp = ring_inv_split [OF assms(1)]
  have "ring_head (ps @ (a, r) # rs) = (if ps = [] then a else fst (hd ps))"
    by (cases ps) (simp_all add: ring_head_def)
  moreover have "fst (hd rs) \<noteq> (if ps = [] then a else fst (hd ps))" if "rs \<noteq> []"
    using assms(1) that by (cases ps; cases rs) (auto simp: ring_inv_def)
  ultimately show ?thesis
    using assms(2,3) sp(3) ring_next_split [OF sp(1), of r rs] by (subst sub_loop.simps) auto
qed

lemma sub_loop_stop:
  assumes "ring_inv (ps @ (a, r) # rs)" "run_ok (l, n)" "unat l + unat n \<le> unat (r_lcn r)"
  shows "sub_loop malloc l n a (ps @ (a, r) # rs) rem = Some (ps @ (a, r) # rs)"
proof -
  note sp = ring_inv_split [OF assms(1)]
  have "run_ok (r_lcn r, r_length r)" using sp(4) by (simp add: wf_runs_append wf_runs_Cons)
  from sub_region_eval(1) [OF ring_get_split [OF sp(1)] this assms(2,3)] ring_next_split [OF sp(1), of r rs] sp(3)
  show ?thesis by (subst sub_loop.simps) simp
qed

text \<open>The clusters of the range that have been taken out so far, counted down by \<open>remaining_clusters\<close>.\<close>

definition sub_done :: "u64 \<Rightarrow> u64 \<Rightarrow> region_ring \<Rightarrow> u64 \<Rightarrow> bool" where
  "sub_done l n rl rem \<longleftrightarrow> unat rem \<le> unat n \<and>
     (\<exists>R. R \<subseteq> extent l n \<and> card R = unat n - unat rem \<and> R \<inter> ring_free rl = {})"

lemma sub_done_zero: "sub_done l n rl 0 \<Longrightarrow> ring_free rl - extent l n = ring_free rl"
proof -
  assume "sub_done l n rl 0"
  then obtain R where R: "R \<subseteq> extent l n" "card R = unat n" "R \<inter> ring_free rl = {}" by (auto simp: sub_done_def)
  then have "R = extent l n" by (intro card_subset_eq) auto
  then show ?thesis using R(3) by auto
qed

lemma sub_done_mono: "sub_done l n rl rem \<Longrightarrow> ring_free rl' \<subseteq> ring_free rl \<Longrightarrow> sub_done l n rl' rem"
  unfolding sub_done_def by blast

lemma sub_done_remove:
  assumes d: "sub_done l n (ps @ (a, r) # rs) rem" and inv: "ring_inv (ps @ (a, r) # rs)"
    and sub: "extent (r_lcn r) (r_length r) \<subseteq> extent l n"
  shows "sub_done l n (ps @ rs) (rem - r_length r)"
proof -
  obtain R where R: "unat rem \<le> unat n" "R \<subseteq> extent l n" "card R = unat n - unat rem"
    "R \<inter> ring_free (ps @ (a, r) # rs) = {}" using d by (auto simp: sub_done_def)
  note sp = ring_inv_split(4) [OF inv]
  let ?R = "R \<union> extent (r_lcn r) (r_length r)"
  have fin: "finite R" using R(2) finite_subset by (metis finite_atLeastLessThan extent_def)
  have "R \<inter> extent (r_lcn r) (r_length r) = {}" using R(4) by (auto simp: ring_free_def)
  then have card: "card ?R = unat n - unat rem + unat (r_length r)" using R(3) fin by (simp add: card_Un_disjoint)
  moreover have "card ?R \<le> unat n" using card_mono [of "extent l n" ?R] R(2) sub by simp
  ultimately have le: "unat (r_length r) \<le> unat rem" using R(1) by simp
  then have "unat (rem - r_length r) = unat rem - unat (r_length r)" by (simp add: nowrap)
  moreover have "?R \<inter> ring_free (ps @ rs) = {}"
    using R(4) runs_split_disjoint [OF sp] by (auto simp: ring_free_def)
  ultimately show ?thesis
    unfolding sub_done_def using card R(1,2) sub le by (intro conjI exI [of _ ?R]) auto
qed

lemma ends_disjoint:
  "\<forall>e \<in> set ps. unat (r_lcn (snd e)) + unat (r_length (snd e)) \<le> unat l \<Longrightarrow> ring_free ps \<inter> extent l n = {}"
  by (force simp: ring_free_def ring_runs_def run_clusters_def run_of_def in_extent)

lemma starts_disjoint:
  "\<forall>e \<in> set rs. unat l + unat n \<le> unat (r_lcn (snd e)) \<Longrightarrow> ring_free rs \<inter> extent l n = {}"
  by (force simp: ring_free_def ring_runs_def run_clusters_def run_of_def in_extent)

lemma ring_free_append [simp]: "ring_free (xs @ ys) = ring_free xs \<union> ring_free ys"
  "ring_free (e # xs) = extent (r_lcn (snd e)) (r_length (snd e)) \<union> ring_free xs" "ring_free [] = {}"
  by (simp_all add: ring_free_def)

lemma ring_rest_later:
  assumes "ring_inv (ps @ (a, r) # rs)" "e \<in> set rs"
  shows "unat (r_lcn r) + unat (r_length r) < unat (r_lcn (snd e))"
  using ring_inv_split(4) [OF assms(1)] assms(2)
  by (auto simp: wf_runs_append wf_runs_Cons run_before_def ring_runs_def run_of_def)

lemma sub_rest:
  assumes "ring_inv (ps @ (b, q) # rs)" "run_ok (l, n)" "\<forall>e \<in> set rs. unat l + unat n \<le> unat (r_lcn (snd e))"
  shows "(if ps @ (b, q) # rs = [] \<or> rs = [] then Some (ps @ (b, q) # rs)
    else sub_loop malloc l n (fst (hd rs)) (ps @ (b, q) # rs) rem) = Some (ps @ (b, q) # rs)"
proof (cases rs)
  case (Cons e rs')
  then have "ring_inv ((ps @ [(b, q)]) @ (fst e, snd e) # rs')" using assms(1) by simp
  from sub_loop_stop [OF this assms(2)] assms(3) Cons show ?thesis by simp
qed simp

lemma sub_left:
  assumes inv: "ring_inv (ps @ (a, r) # rs)" and fm: "fresh_malloc malloc" and ok: "run_ok (l, n)" and rem: "rem \<noteq> 0"
    and ps: "\<forall>e \<in> set ps. unat (r_lcn (snd e)) + unat (r_length (snd e)) \<le> unat l"
    and c: "unat l \<le> unat (r_lcn r)" "unat (r_lcn r) < unat l + unat n"
      "unat l + unat n < unat (r_lcn r) + unat (r_length r)"
  shows "\<exists>rl'. sub_loop malloc l n a (ps @ (a, r) # rs) rem = Some rl' \<and> ring_inv rl' \<and>
    ring_free rl' = ring_free (ps @ (a, r) # rs) - extent l n"
proof -
  note sp = ring_inv_split [OF inv]
  have r: "run_ok (r_lcn r, r_length r)" using sp(4) by (simp add: wf_runs_append wf_runs_Cons)
  define m where "m = r_lcn r + r_length r - (l + n)"
  have w: "unat (l + n) = unat l + unat n" "unat (r_lcn r + r_length r) = unat (r_lcn r) + unat (r_length r)" "0 < unat n"
    using ok r run_okD by simp_all
  then have m: "unat m = unat (r_lcn r) + unat (r_length r) - (unat l + unat n)"
    unfolding m_def using c(3) by (simp add: nowrap)
  have okm: "run_ok (l + n, m)" using r m w c(3) by (auto simp: run_ok_def u64_pos_iff)
  have inv1: "ring_inv (ps @ rs)" using inv runs_drop(1) [OF sp(4)] by (auto simp: ring_inv_def)
  have later: "\<forall>e \<in> set rs. unat (r_lcn r) + unat (r_length r) < unat (r_lcn (snd e))"
    using ring_rest_later [OF inv] by blast
  obtain b where b: "winx_add_volume_region malloc (ps @ rs) (l + n) m = Some (ps @ (b, \<lparr>r_lcn = l + n, r_length = m\<rparr>) # rs)"
    "ring_inv (ps @ (b, \<lparr>r_lcn = l + n, r_length = m\<rparr>) # rs)"
    using add_alone [OF inv1 fm okm] ps later w m c by (fastforce simp: nowrap)
  have "sub_region malloc l n a (ps @ (a, r) # rs) rem = Some (Sub_next (ps @ (b, \<lparr>r_lcn = l + n, r_length = m\<rparr>) # rs) rem)"
    using sub_region_eval(5) [OF ring_get_split [OF sp(1)] r ok c] b(1) ring_remove_split [OF sp(1,2), of r]
    by (simp add: m_def)
  from sub_loop_next [OF inv rem this] sub_rest [OF b(2) ok] later c
  have "sub_loop malloc l n a (ps @ (a, r) # rs) rem = Some (ps @ (b, \<lparr>r_lcn = l + n, r_length = m\<rparr>) # rs)" by force
  moreover have "extent (r_lcn r) (r_length r) - extent l n = extent (l + n) m"
    using c w m by (auto simp: in_extent)
  moreover have "ring_free ps \<inter> extent l n = {}" by (rule ends_disjoint [OF ps])
  moreover have "ring_free rs \<inter> extent l n = {}" by (rule starts_disjoint) (use later c in force)
  ultimately show ?thesis using b(2) by auto
qed

lemma sub_inside:
  assumes inv: "ring_inv (ps @ (a, r) # rs)" and fm: "fresh_malloc malloc" and ok: "run_ok (l, n)" and rem: "rem \<noteq> 0"
    and ps: "\<forall>e \<in> set ps. unat (r_lcn (snd e)) + unat (r_length (snd e)) \<le> unat l"
    and c: "unat (r_lcn r) < unat l" "unat l + unat n < unat (r_lcn r) + unat (r_length r)"
  shows "\<exists>rl'. sub_loop malloc l n a (ps @ (a, r) # rs) rem = Some rl' \<and> ring_inv rl' \<and>
    ring_free rl' = ring_free (ps @ (a, r) # rs) - extent l n"
proof -
  note sp = ring_inv_split [OF inv]
  have r: "run_ok (r_lcn r, r_length r)" using sp(4) by (simp add: wf_runs_append wf_runs_Cons)
  define m where "m = r_lcn r + r_length r - (l + n)"
  define r1 where "r1 = r\<lparr>r_length := l - r_lcn r\<rparr>"
  have w: "unat (l + n) = unat l + unat n" "unat (r_lcn r + r_length r) = unat (r_lcn r) + unat (r_length r)" "0 < unat n"
    using ok r run_okD by simp_all
  then have m: "unat m = unat (r_lcn r) + unat (r_length r) - (unat l + unat n)"
    unfolding m_def using c by (simp add: nowrap)
  have k: "unat (l - r_lcn r) = unat l - unat (r_lcn r)" using c by (simp add: nowrap)
  have okm: "run_ok (l + n, m)" using r m w c by (auto simp: run_ok_def u64_pos_iff)
  have "0 < l - r_lcn r" "l - r_lcn r < r_length r" using k c w by (auto simp: nowrap)
  note cut = runs_cut [OF sp(4) this]
  have inv1: "ring_inv ((ps @ [(a, r1)]) @ rs)" using inv cut(1) by (auto simp: ring_inv_def r1_def)
  have later: "\<forall>e \<in> set rs. unat (r_lcn r) + unat (r_length r) < unat (r_lcn (snd e))"
    using ring_rest_later [OF inv] by blast
  obtain b where b: "winx_add_volume_region malloc ((ps @ [(a, r1)]) @ rs) (l + n) m =
      Some ((ps @ [(a, r1)]) @ (b, \<lparr>r_lcn = l + n, r_length = m\<rparr>) # rs)"
    "ring_inv ((ps @ [(a, r1)]) @ (b, \<lparr>r_lcn = l + n, r_length = m\<rparr>) # rs)"
    using add_alone [OF inv1 fm okm] ps later w m k c by (fastforce simp: nowrap r1_def)
  have "sub_region malloc l n a (ps @ (a, r) # rs) rem =
      Some (Sub_next ((ps @ [(a, r1)]) @ (b, \<lparr>r_lcn = l + n, r_length = m\<rparr>) # rs) rem)"
    using sub_region_eval(6) [OF ring_get_split [OF sp(1)] r ok c] b(1) ring_set_split [OF sp(1,2)]
    by (simp add: m_def r1_def)
  from sub_loop_next [OF inv rem this] sub_rest [OF b(2) ok] later c
  have "sub_loop malloc l n a (ps @ (a, r) # rs) rem =
      Some ((ps @ [(a, r1)]) @ (b, \<lparr>r_lcn = l + n, r_length = m\<rparr>) # rs)" by force
  moreover have "extent (r_lcn r) (r_length r) - extent l n = extent (r_lcn r) (l - r_lcn r) \<union> extent (l + n) m"
    using c w m k by (auto simp: in_extent)
  moreover have "ring_free ps \<inter> extent l n = {}" by (rule ends_disjoint [OF ps])
  moreover have "ring_free rs \<inter> extent l n = {}" by (rule starts_disjoint) (use later c in force)
  ultimately show ?thesis using b(2) by (auto simp: r1_def)
qed


lemma sub_loop_correct:
  assumes "ring_inv (ps @ (a, r) # rs)" "fresh_malloc malloc" "run_ok (l, n)"
    and "\<forall>e \<in> set ps. unat (r_lcn (snd e)) + unat (r_length (snd e)) \<le> unat l"
    and "sub_done l n (ps @ (a, r) # rs) rem"
  shows "\<exists>rl'. sub_loop malloc l n a (ps @ (a, r) # rs) rem = Some rl' \<and> ring_inv rl' \<and>
    ring_free rl' = ring_free (ps @ (a, r) # rs) - extent l n"
  using assms(1,4,5)
proof (induction "length rs" arbitrary: ps a r rs rem rule: less_induct)
  case less
  let ?rl = "ps @ (a, r) # rs"
  note inv = less.prems(1) and ps = less.prems(2) and dn = less.prems(3)
  note sp = ring_inv_split [OF inv]
  have r: "run_ok (r_lcn r, r_length r)" using sp(4) by (simp add: wf_runs_append wf_runs_Cons)
  note ev = sub_region_eval [OF ring_get_split [OF sp(1), of r rs] r assms(3)]
  have cont: "\<exists>rl'. sub_loop malloc l n a ?rl rem = Some rl' \<and> ring_inv rl' \<and> ring_free rl' = ring_free ?rl - extent l n"
    if "rem \<noteq> 0" and st: "sub_region malloc l n a ?rl rem = Some (Sub_next (qs @ rs) rem')" and qi: "ring_inv (qs @ rs)"
      and qs: "\<forall>e \<in> set qs. unat (r_lcn (snd e)) + unat (r_length (snd e)) \<le> unat l"
      and qd: "sub_done l n (qs @ rs) rem'" and fr: "ring_free (qs @ rs) - extent l n = ring_free ?rl - extent l n"
    for qs rem'
  proof (cases rs)
    case Nil
    then have "ring_free (qs @ rs) - extent l n = ring_free (qs @ rs)" using ends_disjoint [OF qs, of n] by auto
    then show ?thesis using sub_loop_next [OF inv that(1) st] qi fr Nil by simp
  next
    case (Cons x rs')
    then have eq: "qs @ rs = qs @ (fst x, snd x) # rs'" by simp
    from less.hyps [of rs' qs "fst x" "snd x" rem'] Cons qi qs qd fr
    have "\<exists>rl'. sub_loop malloc l n (fst x) (qs @ rs) rem' = Some rl' \<and> ring_inv rl' \<and> ring_free rl' = ring_free ?rl - extent l n"
      unfolding eq by simp
    then show ?thesis using sub_loop_next [OF inv that(1) st] Cons by simp
  qed
  consider (empty) "rem = 0" | (past) "rem \<noteq> 0" "unat l + unat n \<le> unat (r_lcn r)"
    | (skip) "rem \<noteq> 0" "unat (r_lcn r) < unat l + unat n" "unat (r_lcn r) + unat (r_length r) \<le> unat l"
    | (whole) "rem \<noteq> 0" "unat l \<le> unat (r_lcn r)" "unat (r_lcn r) + unat (r_length r) \<le> unat l + unat n"
    | (tail) "rem \<noteq> 0" "unat (r_lcn r) < unat l" "unat l < unat (r_lcn r) + unat (r_length r)"
        "unat (r_lcn r) + unat (r_length r) \<le> unat l + unat n"
    | (left) "rem \<noteq> 0" "unat l \<le> unat (r_lcn r)" "unat (r_lcn r) < unat l + unat n"
        "unat l + unat n < unat (r_lcn r) + unat (r_length r)"
    | (inside) "rem \<noteq> 0" "unat (r_lcn r) < unat l" "unat l + unat n < unat (r_lcn r) + unat (r_length r)"
    by linarith
  then show ?case
  proof cases
    case empty
    then have "ring_free ?rl - extent l n = ring_free ?rl" using dn by (intro sub_done_zero) simp
    then show ?thesis using inv empty by (subst sub_loop.simps) (simp del: ring_free_append)
  next
    case past
    have "ring_free ((a, r) # rs) \<inter> extent l n = {}"
      using past ring_rest_later [OF inv] by (intro starts_disjoint) fastforce
    then have "ring_free ?rl - extent l n = ring_free ?rl" using ends_disjoint [OF ps, of n] by auto
    then show ?thesis using sub_loop_stop [OF inv assms(3) past(2)] inv by simp
  next
    case skip
    then show ?thesis using cont [of "ps @ [(a, r)]" rem] ev(2) inv ps dn by simp
  next
    case whole
    have sub: "extent (r_lcn r) (r_length r) \<subseteq> extent l n" using whole by (auto simp: in_extent)
    have i1: "ring_inv (ps @ rs)" using inv runs_drop(1) [OF sp(4)] by (auto simp: ring_inv_def)
    have fr: "ring_free (ps @ rs) - extent l n = ring_free ?rl - extent l n" using sub by auto
    show ?thesis
      by (rule cont [OF whole(1) _ i1 ps sub_done_remove [OF dn inv sub] fr])
        (use whole ev(3) ring_remove_split [OF sp(1,2), of r] in auto)
  next
    case tail
    define r1 where "r1 = r\<lparr>r_length := l - r_lcn r\<rparr>"
    have k: "unat (l - r_lcn r) = unat l - unat (r_lcn r)" using tail by (simp add: nowrap)
    have "0 < l - r_lcn r" "l - r_lcn r < r_length r" using k tail by (auto simp: nowrap)
    note cut = runs_cut [OF sp(4) this]
    have i1: "ring_inv ((ps @ [(a, r1)]) @ rs)" using inv cut(1) by (auto simp: ring_inv_def r1_def)
    have fr: "extent (r_lcn r) (l - r_lcn r) - extent l n = extent (r_lcn r) (r_length r) - extent l n"
      "extent (r_lcn r) (l - r_lcn r) \<subseteq> extent (r_lcn r) (r_length r)"
      using tail k by (auto simp: in_extent)
    then have d1: "sub_done l n ((ps @ [(a, r1)]) @ rs) rem"
      by (intro sub_done_mono [OF dn]) (auto simp: r1_def)
    show ?thesis
      by (rule cont [OF tail(1) _ i1 _ d1])
        (use tail ev(4) ps k fr ring_set_split [OF sp(1,2), of r1 r] in \<open>auto simp: r1_def\<close>)
  next
    case left
    then show ?thesis using sub_left [OF inv assms(2,3) _ ps] by blast
  next
    case inside
    then show ?thesis using sub_inside [OF inv assms(2,3) _ ps] by blast
  qed
qed

lemma sub_region_correct:
  assumes inv: "ring_inv rl" and fm: "fresh_malloc malloc" and ok: "run_ok (l, n)"
  shows "\<exists>rl'. winx_sub_volume_region malloc rl l n = Some rl' \<and> ring_inv rl' \<and> ring_free rl' = ring_free rl - extent l n"
proof (cases rl)
  case Nil
  then show ?thesis using inv
    by (simp add: winx_sub_volume_region_def ring_head_def) (subst sub_loop.simps, simp)
next
  case (Cons e rs)
  have "sub_done l n rl n" by (auto simp: sub_done_def intro: exI [of _ "{}"])
  then show ?thesis
    using sub_loop_correct [of "[]" "fst e" "snd e" rs malloc l n n] inv fm ok Cons
    by (simp add: winx_sub_volume_region_def ring_head_def)
qed


interpretation region_lists: free_space "\<lambda>rl. fresh_malloc malloc \<and> ring_inv rl" ring_free "\<lambda>rl l. True"
  "\<lambda>rl l n. run_ok (l, n) \<and> extent l n \<subseteq> ring_free rl"
  "\<lambda>l n rl. winx_add_volume_region malloc rl l n" "\<lambda>l n rl. winx_sub_volume_region malloc rl l n"
  for malloc
  by unfold_locales
    (auto simp: ring_free_def dest: add_region_correct [unfolded ring_free_def] sub_region_correct [unfolded ring_free_def])

subsection \<open>Properties\<close>

definition demo_ring :: region_ring where
  "demo_ring = [(1, \<lparr>r_lcn = 10, r_length = 5\<rparr>), (2, \<lparr>r_lcn = 20, r_length = 10\<rparr>)]"

lemma demo_ring_inv: "ring_inv demo_ring"
  by (simp add: demo_ring_def ring_inv_def wf_runs_def run_ok_def run_before_def)

lemma demo_ring_free: "ring_free demo_ring = {10..<15} \<union> {20..<30}"
  by (simp add: demo_ring_def extent_def)

text \<open>
  C21: adding a range that is not in the list (\<open>winx_add_volume_region\<close>) keeps the list sorted, with
  maximal separated regions, and adds exactly the clusters of the range, whichever neighbours it
  touches.
\<close>

theorem region_add_exact:
  assumes "fresh_malloc malloc" "ring_inv rl" "run_ok (lcn, len)" "extent lcn len \<inter> ring_free rl = {}"
  shows "\<exists>rl'. winx_add_volume_region malloc rl lcn len = Some rl' \<and> ring_inv rl' \<and>
    ring_free rl' = ring_free rl \<union> extent lcn len"
  by (rule add_region_correct [OF assms(2,1,3,4)])

theorem region_add_exact_witness:
  "\<exists>rl'. winx_add_volume_region demo_malloc demo_ring 15 5 = Some rl' \<and> ring_inv rl' \<and>
    ring_free rl' = ring_free demo_ring \<union> extent 15 5"
  by (rule region_add_exact [OF demo_malloc_fresh demo_ring_inv])
    (auto simp: run_ok_def demo_ring_free extent_def)

text \<open>
  C5: subtracting any range (\<open>winx_sub_volume_region\<close>) ends, never uses a removed item, keeps the
  list sorted and separated, and removes exactly the clusters of the range, through every way a
  region can overlap it.
\<close>

theorem region_sub_exact:
  assumes "fresh_malloc malloc" "ring_inv rl" "run_ok (lcn, len)"
  shows "\<exists>rl'. winx_sub_volume_region malloc rl lcn len = Some rl' \<and> ring_inv rl' \<and>
    ring_free rl' = ring_free rl - extent lcn len"
  by (rule sub_region_correct [OF assms(2,1,3)])

theorem region_sub_exact_witness:
  "\<exists>rl'. winx_sub_volume_region demo_malloc demo_ring 12 12 = Some rl' \<and> ring_inv rl' \<and>
    ring_free rl' = ring_free demo_ring - extent 12 12"
  by (rule region_sub_exact [OF demo_malloc_fresh demo_ring_inv]) (simp add: run_ok_def)

text \<open>
  C22: subtracting a range right after adding it gives back the regions of the original list, one
  by one, although the addition may have merged them.
\<close>

theorem region_add_sub_roundtrip:
  assumes "fresh_malloc malloc" "ring_inv rl" "run_ok (lcn, len)" "extent lcn len \<inter> ring_free rl = {}"
  shows "\<exists>rl1 rl2. winx_add_volume_region malloc rl lcn len = Some rl1 \<and>
    winx_sub_volume_region malloc rl1 lcn len = Some rl2 \<and> map run_of (map snd rl2) = map run_of (map snd rl)"
proof -
  obtain rl1 where 1: "winx_add_volume_region malloc rl lcn len = Some rl1" "ring_inv rl1"
    "ring_free rl1 = ring_free rl \<union> extent lcn len" using add_region_correct [OF assms(2,1,3,4)] by blast
  obtain rl2 where 2: "winx_sub_volume_region malloc rl1 lcn len = Some rl2" "ring_inv rl2"
    "ring_free rl2 = ring_free rl1 - extent lcn len" using sub_region_correct [OF 1(2) assms(1,3)] by blast
  have "ring_free rl2 = ring_free rl" using 1(3) 2(3) assms(4) by auto
  then have "ring_runs rl2 = ring_runs rl"
    using 2(2) assms(2) by (intro wf_runs_unique) (auto simp: ring_inv_def ring_free_def)
  then show ?thesis using 1(1) 2(1) by (simp add: ring_runs_def comp_def)
qed

theorem region_add_sub_roundtrip_witness:
  "\<exists>rl1 rl2. winx_add_volume_region demo_malloc demo_ring 15 5 = Some rl1 \<and>
    winx_sub_volume_region demo_malloc rl1 15 5 = Some rl2 \<and> map run_of (map snd rl2) = map run_of (map snd demo_ring)"
  by (rule region_add_sub_roundtrip [OF demo_malloc_fresh demo_ring_inv])
    (auto simp: run_ok_def demo_ring_free extent_def)

end
