(* ===== verification/Winx_Time.thy ===== *)
theory Winx_Time
  imports Winx_String
begin

text \<open>
  Model of the conversions of \<open>zenwinx/src/zenwinx/time.c\<close> between seconds and strings like
  \<open>3y 12d 4h 8m 37s\<close>. Characters are those of the C string before its terminating zero.
\<close>

subsection \<open>Numbers as digits\<close>

fun dec_digits :: "nat \<Rightarrow> string" where
  "dec_digits n = (if n < 10 then [char_of (48 + n)] else dec_digits (n div 10) @ [char_of (48 + n mod 10)])"

declare dec_digits.simps [simp del]

text \<open>\<open>_atoi64\<close> of a string of digits.\<close>

definition atoi64 :: "string \<Rightarrow> u64" where
  "atoi64 s = fold (\<lambda>c n. 10 * n + (of_nat (of_char c) - 48)) s 0"

subsection \<open>winx_str2time\<close>

definition isdigit :: "char \<Rightarrow> bool" where
  "isdigit c \<longleftrightarrow> 48 \<le> (of_char c :: nat) \<and> (of_char c :: nat) \<le> 57"

definition time_unit :: "char \<Rightarrow> u64" where
  "time_unit c =
     (let c = winx_toupper c
      in if c = CHR ''S'' then 1
         else if c = CHR ''M'' then 60
         else if c = CHR ''H'' then 3600
         else if c = CHR ''D'' then 3600 * 24
         else if c = CHR ''Y'' then 3600 * 24 * 356
         else 0)"

text \<open>
  The loop over the characters. \<open>buffer\<close> holds the digits collected so far, so \<open>index\<close> is its length;
  a store at index 128 or later is outside the buffer (\<open>None\<close>).
\<close>

fun str2time_loop :: "string \<Rightarrow> string \<Rightarrow> u64 \<Rightarrow> u64 option" where
  "str2time_loop [] buffer t = Some t"
| "str2time_loop (c # s) buffer t =
     (if isdigit c \<and> 128 \<le> length buffer then None
      else
        let buffer = (if isdigit c then buffer @ [c] else buffer);
            k = time_unit c
        in if k \<noteq> 0 then
             if 128 \<le> length buffer then None
             else str2time_loop s [] (t + k * atoi64 buffer)
           else str2time_loop s buffer t)"

definition winx_str2time :: "string option \<Rightarrow> u64 option" where
  "winx_str2time s = (case s of None \<Rightarrow> Some 0 | Some s \<Rightarrow> str2time_loop s [] 0)"

subsection \<open>winx_time2str\<close>

text \<open>
  \<open>_snprintf\<close> with \<open>size - 1\<close> characters, followed by a zero in the last place: the returned number
  and the string in the buffer.
\<close>

definition snprintf :: "nat \<Rightarrow> string \<Rightarrow> int \<times> string" where
  "snprintf n s = (if length s \<le> n then (int (length s), s) else (-1, take n s))"

definition time_text :: "u64 \<Rightarrow> string" where
  "time_text tm =
     (let t = ucast tm :: u32;
          y = t div (3600 * 24 * 356);
          t = t mod (3600 * 24 * 356);
          d = t div (3600 * 24);
          t = t mod (3600 * 24);
          h = t div 3600;
          t = t mod 3600;
          m = t div 60;
          s = t mod 60
      in dec_digits (unat y) @ ''y '' @ dec_digits (unat d) @ ''d '' @ dec_digits (unat h) @ ''h '' @
         dec_digits (unat m) @ ''m '' @ dec_digits (unat s) @ ''s'')"

definition winx_time2str :: "u64 \<Rightarrow> bool \<Rightarrow> int \<Rightarrow> int \<times> string option" where
  "winx_time2str tm buffer sz =
     (if \<not> buffer \<or> sz \<le> 0 then (0, None)
      else let (result, s) = snprintf (nat (sz - 1)) (time_text tm) in (result, Some s))"

subsection \<open>winx_xtime\<close>

text \<open>
  \<open>counter\<close> and \<open>frequency\<close> are the answers of \<open>NtQueryPerformanceCounter\<close>, \<open>ok\<close> tells whether the call
  succeeded. The multiplication wraps; the code detects that by dividing again.
\<close>

definition winx_xtime :: "bool \<Rightarrow> u64 \<Rightarrow> u64 \<Rightarrow> u64" where
  "winx_xtime ok counter frequency =
     (if \<not> ok then 0
      else if frequency = 0 then 0
      else
        let xtime = 1000 * counter
        in if xtime div 1000 \<noteq> counter then 1000 * (counter div frequency)
           else xtime div frequency)"

subsection \<open>Digits are read back\<close>

lemma digit_char: "n < 10 \<Longrightarrow> (of_char (char_of (48 + n) :: char) :: nat) = 48 + n"
  by simp

lemma dec_digits_digit: "c \<in> set (dec_digits n) \<Longrightarrow> isdigit c"
proof (induction n rule: dec_digits.induct)
  case (1 n)
  then show ?case
    by (subst (asm) dec_digits.simps) (auto simp: isdigit_def split: if_splits)
qed

lemma atoi64_append: "atoi64 (s @ [c]) = 10 * atoi64 s + (of_nat (of_char c) - 48)"
  by (simp add: atoi64_def)

lemma atoi64_dec_digits: "atoi64 (dec_digits n) = of_nat n"
proof (induction n rule: dec_digits.induct)
  case (1 n)
  show ?case
  proof (cases "n < 10")
    case True
    then show ?thesis by (subst dec_digits.simps) (simp add: atoi64_def)
  next
    case False
    have "(of_nat n :: u64) = of_nat (10 * (n div 10) + n mod 10)" by simp
    also have "\<dots> = 10 * of_nat (n div 10) + of_nat (n mod 10)" by (simp only: of_nat_add of_nat_mult of_nat_numeral)
    finally show ?thesis using False 1 by (subst dec_digits.simps) (simp add: atoi64_append)
  qed
qed

lemma dec_digits_length: "n < 10 ^ k \<Longrightarrow> 0 < k \<Longrightarrow> length (dec_digits n) \<le> k"
proof (induction k arbitrary: n)
  case (Suc k)
  show ?case
  proof (cases "n < 10")
    case True
    then show ?thesis by (subst dec_digits.simps) simp
  next
    case False
    then have "0 < k" using Suc.prems by (cases k) auto
    moreover have "n div 10 < 10 ^ k" using Suc.prems by (simp add: div_less_iff_less_mult mult.commute)
    ultimately show ?thesis using False Suc.IH [of "n div 10"] by (subst dec_digits.simps) simp
  qed
qed simp


lemma toupper_letters:
  "winx_toupper CHR ''y'' = CHR ''Y''" "winx_toupper CHR ''d'' = CHR ''D''" "winx_toupper CHR ''h'' = CHR ''H''"
  "winx_toupper CHR ''m'' = CHR ''M''" "winx_toupper CHR ''s'' = CHR ''S''" "winx_toupper CHR '' '' = CHR '' ''"
  by (simp_all add: winx_toupper_def ascii_uppercase_def char_of_def bit_0)

lemma time_unit_letters:
  "time_unit CHR ''y'' = 30758400" "time_unit CHR ''d'' = 86400" "time_unit CHR ''h'' = 3600"
  "time_unit CHR ''m'' = 60" "time_unit CHR ''s'' = 1" "time_unit CHR '' '' = 0"
  by (simp_all add: time_unit_def toupper_letters)

lemma isdigit_cases: "isdigit c \<Longrightarrow> c \<in> set ''0123456789''"
proof -
  assume d: "isdigit c"
  define n where "n = (of_char c :: nat)"
  have "n = 48 \<or> n = 49 \<or> n = 50 \<or> n = 51 \<or> n = 52 \<or> n = 53 \<or> n = 54 \<or> n = 55 \<or> n = 56 \<or> n = 57"
    using d unfolding isdigit_def n_def [symmetric] by presburger
  moreover have "c = char_of n" by (simp add: n_def)
  ultimately show ?thesis by (elim disjE) (simp_all add: char_of_def bit_0)
qed

lemma time_unit_digit: "isdigit c \<Longrightarrow> time_unit c = 0"
  by (drule isdigit_cases) (auto simp: time_unit_def winx_toupper_def ascii_uppercase_def char_of_def bit_0)

lemma str2time_digits:
  assumes "list_all isdigit ds" "length buffer + length ds < 128"
  shows "str2time_loop (ds @ s) buffer t = str2time_loop s (buffer @ ds) t"
  using assms by (induction ds arbitrary: buffer) (simp_all add: time_unit_digit)

lemma str2time_field:
  assumes "n < 2 ^ 32" "\<not> isdigit c" "time_unit c \<noteq> 0"
  shows "str2time_loop (dec_digits n @ c # s) [] t = str2time_loop s [] (t + time_unit c * of_nat n)"
proof -
  have "list_all isdigit (dec_digits n)" by (auto simp: list_all_iff dec_digits_digit)
  moreover have "length (dec_digits n) \<le> 10" using assms(1) by (intro dec_digits_length) auto
  ultimately show ?thesis using assms(2,3) by (simp add: str2time_digits atoi64_dec_digits)
qed

lemma not_digits:
  "\<not> isdigit CHR ''y''" "\<not> isdigit CHR ''d''" "\<not> isdigit CHR ''h''" "\<not> isdigit CHR ''m''" "\<not> isdigit CHR ''s''"
  "\<not> isdigit CHR '' ''"
  by (simp_all add: isdigit_def)

lemma unat_u32: "unat (x :: u32) < 2 ^ 32"
  using unsigned_less [of x] by simp

lemma str2time_blank: "str2time_loop (CHR '' '' # s) [] t = str2time_loop s [] t"
  by (simp add: not_digits time_unit_letters)

text \<open>The fields of \<open>time_text\<close> add up to the time.\<close>

lemma time_fields:
  fixes n :: nat
  shows "n div 30758400 * 30758400 + n mod 30758400 div 86400 * 86400 + n mod 30758400 mod 86400 div 3600 * 3600 +
    n mod 30758400 mod 86400 mod 3600 div 60 * 60 + n mod 30758400 mod 86400 mod 3600 mod 60 = n"
  by (simp only: add.assoc div_mult_mod_eq)

lemma time_text_length: "length (time_text tm) \<le> 59"
proof -
  have "length (dec_digits (unat x)) \<le> 10" for x :: u32
    using unat_u32 [of x] by (intro dec_digits_length) auto
  moreover have "length (a @ ''y '' @ b @ ''d '' @ c @ ''h '' @ d @ ''m '' @ e @ ''s'') \<le> 59"
    if "length a \<le> 10" "length b \<le> 10" "length c \<le> 10" "length d \<le> 10" "length e \<le> 10" for a b c d e
    using that by simp
  ultimately show ?thesis unfolding time_text_def Let_def by blast
qed

subsection \<open>Properties\<close>

text \<open>
  C28: reading back a formatted time gives the time, for every interval of less than \<open>2 ^ 32\<close> seconds,
  if the buffer has room for at least 60 characters.
\<close>

theorem time_roundtrip:
  assumes "tm < 2 ^ 32" "60 \<le> sz" "winx_time2str tm True sz = (n, s)"
  shows "n = int (length (time_text tm)) \<and> winx_str2time s = Some tm"
proof -
  let ?t = "ucast tm :: u32"
  have u: "unat ?t = unat tm" using assms(1)
    by (simp add: unsigned_ucast_eq take_bit_nat_eq_self word_less_nat_alt)
  have s: "n = int (length (time_text tm))" "s = Some (time_text tm)"
    using assms(2,3) time_text_length [of tm] by (auto simp: winx_time2str_def snprintf_def split: if_splits)
  have "winx_str2time s = Some (30758400 * of_nat (unat (?t div 30758400)) +
      86400 * of_nat (unat (?t mod 30758400 div 86400)) + 3600 * of_nat (unat (?t mod 30758400 mod 86400 div 3600)) +
      60 * of_nat (unat (?t mod 30758400 mod 86400 mod 3600 div 60)) + of_nat (unat (?t mod 30758400 mod 86400 mod 3600 mod 60)))"
    unfolding s(2) winx_str2time_def time_text_def Let_def option.case append.simps append_assoc
    by (simp del: str2time_loop.simps(2) of_nat_unat
        add: str2time_field str2time_blank unat_u32 [simplified] not_digits time_unit_letters)
  also have "\<dots> = Some (of_nat (unat tm))"
  proof -
    let ?n = "unat tm"
    have "unat (?t div 30758400) = ?n div 30758400" "unat (?t mod 30758400 div 86400) = ?n mod 30758400 div 86400"
      "unat (?t mod 30758400 mod 86400 div 3600) = ?n mod 30758400 mod 86400 div 3600"
      "unat (?t mod 30758400 mod 86400 mod 3600 div 60) = ?n mod 30758400 mod 86400 mod 3600 div 60"
      "unat (?t mod 30758400 mod 86400 mod 3600 mod 60) = ?n mod 30758400 mod 86400 mod 3600 mod 60"
      by (simp_all add: unat_div unat_mod u)
    then show ?thesis by (subst time_fields [of ?n, symmetric]) (simp only: of_nat_add of_nat_mult of_nat_numeral mult.commute)
  qed
  finally show ?thesis using s(1) by simp
qed


theorem time_roundtrip_witness: "\<exists>n s. winx_time2str 90061 True 64 = (n, s) \<and> winx_str2time s = Some 90061"
proof -
  obtain n s where e: "winx_time2str 90061 True 64 = (n, s)" by fastforce
  then show ?thesis using time_roundtrip [of 90061 64 n s] by simp
qed

end
