(* ===== verification/Spec2Isabelle.thy ===== *)
theory Spec2Isabelle
  imports Ntfs_Scan Operation Path_Registration Volume_Regions Winx_Time
begin

text \<open>
  Verification of \<open>stopgap\<close>, a defragmenter for Windows that closes the gaps between the files of a
  volume, and of the part of the native library \<open>zenwinx\<close> it is built on.

  \<^bold>\<open>The program.\<close> \<open>main.cpp\<close> parses the options and runs an \<open>Operation\<close> (\<open>op.cpp\<close>, \<open>op.hpp\<close>). The
  operation keeps two indexes (\<open>zen.cpp\<close>, \<open>zen.hpp\<close>): \<open>GapEnumeration\<close>, the free regions of the volume by
  place and by size, and \<open>FileEnumeration\<close>, the movable files by size and by place. It repeats two passes
  until nothing moves any more: fragmented files are moved into gaps that hold them (\<open>defrag\<close>), and gaps
  are filled from the front with files from behind (\<open>close_gaps\<close>), chosen by a dynamic program
  (\<open>findBest\<close>); a gap for which there is no choice is widened by moving the file behind it
  (\<open>widen_behind\<close>). The indexes are filled by \<open>zenwinx\<close>: the regions from the bitmap of the volume
  (\<open>volume.c\<close>), the files from the NTFS master file table (\<open>ftw_ntfs.c\<close>) or from a walk through the
  directories (\<open>ftw.c\<close>).

  \<^bold>\<open>Conventions.\<close> Machine integers are words of their width; statements speak of \<open>unat\<close> with the absence of
  overflow as a hypothesis where it matters. Wide strings are lists of 16-bit units without terminating
  zero, \<open>None\<close> is a null pointer. Everything outside the sources (kernel calls, the allocator, the flag
  set by the console handler) is a field of a record that the definitions take as an argument, over a
  state \<open>'w\<close> of the world that is passed along: \<open>nt\<close> in \<open>Nt_Kernel\<close>, extended to \<open>nt_io\<close>, \<open>nt_vol\<close>, \<open>nt_ftw\<close>,
  \<open>nt_dir\<close> and \<open>nt_op\<close>. What a theorem needs to know about it is a named predicate that states documented
  behaviour (\<open>bitmap_answers\<close>, \<open>map_answers\<close>, \<open>moves_to\<close>, \<open>handles_tracked\<close>, \<open>records_below\<close>, ...), and the
  theorem has a witness with a concrete system. A result \<open>None\<close> of type option means that the C function
  does not return or that its behaviour is undefined, such as an access through a dead pointer or outside a buffer;
  theorems that a function returns state \<open>Some\<close>. Output on the console and tracing are left out.

  \<^bold>\<open>Theories.\<close>

  \<^item> \<open>Prelude\<close>, \<open>Cluster_Set\<close>: words, extents of clusters, sorted lists of separated runs, and the locale
    \<open>free_space\<close> of an index of free clusters. \<open>C_Memory\<close>: blocks of bytes and the C library.
  \<^item> \<open>Winx_List\<close> (\<open>list.c\<close>): rings of items on a heap of pointers; they refine lists (locale \<open>dlist_adt\<close>), no
    operation touches a dead item, and destroying a list frees all of it.
  \<^item> \<open>Volume_Scan\<close>, \<open>Volume_Regions\<close>, \<open>Volume_Info\<close> (\<open>volume.c\<close>): the scan of the bitmap returns exactly the free
    clusters as maximal runs; adding and subtracting ranges refines union and difference of sets; the
    queries of a volume close every handle.
  \<^item> \<open>Std_Containers\<close>: the ordered maps and multimaps of the C++ library as sorted association lists.
  \<^item> \<open>Gap_Enumeration\<close>: \<open>ge_scan\<close>, \<open>ge_pop\<close>, \<open>ge_push\<close>, \<open>ge_best\<close>; the invariant \<open>gap_inv\<close> says that the list of
    regions and its two indexes agree and describe separated runs, and each operation refines an operation on
    the set of free clusters (interpretation of \<open>free_space\<close>). \<open>ge_push\<close> is defined only with a gap before every block
    (\<open>gap_before_all\<close>): without one, the code steps in front of the first entry of a map.
  \<^item> \<open>File_Info\<close>, \<open>File_Enumeration\<close>: \<open>fe_new\<close>, \<open>fe_findAt\<close>, \<open>fe_pop\<close>, \<open>fe_push\<close> and the invariant \<open>fe_inv\<close> of the two indexes
    of files (locale \<open>file_index\<close>).
  \<^item> \<open>Find_Best\<close>: \<open>fe_findBest\<close>; the files returned lie behind the gap, the sizes of the entries of the result fit, an
    exact match is preferred, and the dynamic program is optimal. A file can be returned twice, and then counts twice
    in these sizes; among files of different sizes none is.
  \<^item> \<open>Nt_Kernel\<close>, \<open>Winx_File\<close> (\<open>file.c\<close>): opening, buffered writing, reading, control requests; writing through the
    buffer has the effect of writing directly.
  \<^item> \<open>Ftw\<close>, \<open>Ftw_Walk\<close> (\<open>ftw.c\<close>): the dump of the block map of a file, and the walk through directories, whose entries
    have the paths of their directories joined with their names.
  \<^item> \<open>Ntfs_Record\<close>, \<open>Ntfs_Runs\<close>, \<open>Ntfs_Streams\<close>, \<open>Ntfs_Scan\<close> (\<open>ftw_ntfs.c\<close>, \<open>ntfs.h\<close>): the scanner of the master file
    table on the bytes of its records. Runs are decoded to the blocks they encode, but for runs of distance zero, which
    are taken as virtual (\<open>boot_run_dropped\<close>); every block passes the check of the bounds; whatever the records contain, the list of files stays sorted by table index,
    which is what makes the binary search for directories, with 32-bit indexes, agree with the linear one; paths fit into their
    buffers. Corrupt tables can make the scanner hang or read outside its buffers.
  \<^item> \<open>Operation\<close> (\<open>op.cpp\<close>): \<open>move_file\<close>, \<open>move_set\<close>, \<open>defrag\<close>, \<open>widen_behind\<close>, \<open>close_gaps\<close> and \<open>op_run\<close>. A successful
    move in one request exchanges the clusters of the file in both indexes; a refused one leaves its clusters marked as
    free; without the option to widen gaps the loops end on a volume on which there is nothing to do.
  \<^item> \<open>Case_Tables\<close>, \<open>Winx_String\<close> (\<open>case-tables.h\<close>, \<open>string.c\<close>): wildcard matching is equivalent to its declarative
    meaning on strings without an asterisk, compiled patterns are the pieces of their string, the conversion to UTF-8 can be read back.
    \<open>Winx_Time\<close> (\<open>time.c\<close>): printed times are read back.
  \<^item> \<open>Path_Registration\<close> (\<open>util.cpp\<close>): the directory of the program is added to the search path and removed again.

  \<^bold>\<open>Bounds.\<close> Loops whose end depends on the system are \<open>partial_function\<close>s with \<open>None\<close> for not ending; all
  others are total functions. \<open>analyze_attribute\<close> has a bound for the depth to which lists of attributes are nested, which
  stands for the size of the stack: the sources follow such lists recursively without a bound, and a list that
  refers to itself exhausts every one. Results hold for each bound; one level is enough for a volume without lists of
  attributes, two for lists that do not contain lists.

  \<^bold>\<open>Not modelled.\<close> The parsing of the command line by \<open>boost::program_options\<close> and \<open>main.cpp\<close>, the console
  (the rest of \<open>util.cpp\<close>, \<open>keyboard.c\<close>, \<open>keytrans.c\<close>, \<open>stdio.c\<close>), tracing (\<open>dbg.c\<close>), the wrappers of kernel services that hold no
  logic of their own (\<open>event.c\<close>, \<open>mutex.c\<close>, \<open>thread.c\<close>, \<open>reg.c\<close>, \<open>env.c\<close>, \<open>ldr.c\<close>, \<open>lock.c\<close>, \<open>mem.c\<close>, \<open>privilege.c\<close>,
  \<open>entry.c\<close>, \<open>zenwinx.c\<close>), the unused library of trees (\<open>prb.c\<close>), the path helpers (\<open>path.c\<close>), and \<open>gperftools\<close>, a third-party
  allocator that is linked but not called by name.
\<close>

end
